(* ===== verification/Prelude.thy ===== *)
theory Prelude
  imports Main "HOL-Library.Word"
begin

text \<open>
  Shared vocabulary of the development: bytes, Go error values, effectful computations with
  explicit state, and the lemma collections the component theories use.

  A Go function that may fail and that reads or writes some outside state is an \<open>eff\<close>: a function
  from the state to either an error (\<open>Inl\<close>) or a result (\<open>Inr\<close>), together with the new state.
  An error return of the source is a branch of that sum, never a missing case.
\<close>

named_theorems eff_simps \<open>evaluation of effectful computations\<close>
named_theorems keeps_intros \<open>preservation of a state predicate, by the structure of a computation\<close>

section \<open>Bytes and strings\<close>

type_synonym byte = "8 word"

text \<open>
  Go strings are byte sequences, and so are HOL's \<open>string\<close>s (a \<open>char\<close> is eight bits); wire data are
  lists of 8-bit words. The two conversions below are Go's \<open>string(b)\<close> and \<open>[]byte(s)\<close>.
\<close>

definition string_of_bytes :: "byte list \<Rightarrow> string" where
  "string_of_bytes bs = map (\<lambda>b. char_of (unat b)) bs"

definition bytes_of_string :: "string \<Rightarrow> byte list" where
  "bytes_of_string s = map (\<lambda>c. word_of_nat (of_char c)) s"

lemma unat_byte_of_nat [simp]: "unat (word_of_nat n :: byte) = n mod 256"
  by (simp add: unat_of_nat)

lemma byte_of_nat_mod: "(word_of_nat n :: byte) = word_of_nat (n mod 256)"
  by (simp add: word_of_nat_eq_iff take_bit_eq_mod)

lemma string_of_bytes_of_string [simp]: "string_of_bytes (bytes_of_string s) = s"
  by (simp add: string_of_bytes_def bytes_of_string_def o_def)

lemma bytes_of_string_of_bytes [simp]: "bytes_of_string (string_of_bytes bs) = bs"
proof -
  have "word_of_nat (of_char (char_of (unat b) :: char)) = b" for b :: byte
    by (simp add: flip: byte_of_nat_mod)
  then show ?thesis
    by (simp add: string_of_bytes_def bytes_of_string_def o_def)
qed

lemma length_bytes_of_string [simp]: "length (bytes_of_string s) = length s"
  by (simp add: bytes_of_string_def)

lemma length_string_of_bytes [simp]: "length (string_of_bytes bs) = length bs"
  by (simp add: string_of_bytes_def)

lemma string_of_bytes_inject: "string_of_bytes a = string_of_bytes b \<longleftrightarrow> a = b"
  by (metis bytes_of_string_of_bytes)

text \<open>Big-endian 16-bit fields: \<open>binary.BigEndian.PutUint16(b, uint16(port))\<close> and \<open>Uint16(b)\<close>.\<close>

definition put_uint16 :: "int \<Rightarrow> byte list" where
  "put_uint16 port =
     (let p = nat (port mod 65536) in [word_of_nat (p div 256), word_of_nat (p mod 256)])"

definition get_uint16 :: "byte list \<Rightarrow> int" where
  "get_uint16 bs = (case bs of hi # lo # _ \<Rightarrow> int (unat hi * 256 + unat lo) | _ \<Rightarrow> 0)"

lemma length_put_uint16 [simp]: "length (put_uint16 p) = 2"
  by (simp add: put_uint16_def Let_def)

lemma get_put_uint16: "get_uint16 (put_uint16 port @ rest) = port mod 65536"
proof -
  have "nat (port mod 65536) div 256 * 256 + nat (port mod 65536) mod 256 = nat (port mod 65536)"
    by simp
  moreover have "nat (port mod 65536) div 256 mod 256 = nat (port mod 65536) div 256"
    by (simp add: nat_less_iff less_mult_imp_div_less)
  ultimately show ?thesis
    by (simp add: get_uint16_def put_uint16_def Let_def del: of_nat_add of_nat_mult)
qed

lemma get_uint16_range: "0 \<le> get_uint16 bs" "get_uint16 bs < 65536"
proof -
  have "unat h * 256 + unat l < 65536" for h l :: byte
    using unsigned_less[of h, where ?'a = nat] unsigned_less[of l, where ?'a = nat] by simp
  then have "int (unat h * 256 + unat l) < int 65536" for h l :: byte
    by (simp only: of_nat_less_iff)
  then show "0 \<le> get_uint16 bs" "get_uint16 bs < 65536"
    by (simp_all add: get_uint16_def split: list.split)
qed

section \<open>Go errors\<close>

text \<open>
  The program inspects errors in three ways: by text (\<open>strings.Contains(err.Error(), ...)\<close>), by
  identity through wrapping (\<open>errors.Is\<close>, \<open>errors.As\<close>), and as nil or not. A leaf carries the kind
  that \<open>errors.Is\<close>/\<open>As\<close> can look for; \<open>Wrapf p e s\<close> is \<open>fmt.Errorf("p%ws", e)\<close>; \<open>Joined\<close> is
  \<open>errors.Join\<close> of two errors.
\<close>

datatype err_kind = Plain | NotExist | ProcessDone | Exited | Canceled | ServerClosed | Timeout

datatype go_error =
    Leaf err_kind string
  | Wrapf string go_error string
  | Joined go_error go_error

abbreviation errorf :: "string \<Rightarrow> go_error" where
  "errorf msg \<equiv> Leaf Plain msg"

abbreviation wrap :: "string \<Rightarrow> go_error \<Rightarrow> go_error" where
  "wrap prefix e \<equiv> Wrapf (prefix @ '': '') e ''''"

fun error_text :: "go_error \<Rightarrow> string" where
  "error_text (Leaf k msg) = msg"
| "error_text (Wrapf p e s) = p @ error_text e @ s"
| "error_text (Joined a b) = error_text a @ [CHR 0x0A] @ error_text b"

fun has_kind :: "err_kind \<Rightarrow> go_error \<Rightarrow> bool" where
  "has_kind k (Leaf k' msg) = (k = k')"
| "has_kind k (Wrapf p e s) = has_kind k e"
| "has_kind k (Joined a b) = (has_kind k a \<or> has_kind k b)"

section \<open>Effectful computations\<close>

type_synonym ('w, 'a) eff = "'w \<Rightarrow> (go_error + 'a) \<times> 'w"

definition ret :: "'a \<Rightarrow> ('w, 'a) eff" where
  "ret x = (\<lambda>w. (Inr x, w))"

definition fail :: "go_error \<Rightarrow> ('w, 'a) eff" where
  "fail e = (\<lambda>w. (Inl e, w))"

text \<open>\<open>andThen m f\<close> is \<open>x, err := m(); if err != nil { return err }; f(x)\<close>.\<close>

definition andThen :: "('w, 'a) eff \<Rightarrow> ('a \<Rightarrow> ('w, 'b) eff) \<Rightarrow> ('w, 'b) eff" where
  "andThen m f = (\<lambda>w. case m w of (Inl e, w') \<Rightarrow> (Inl e, w') | (Inr x, w') \<Rightarrow> f x w')"

text \<open>\<open>attempt m f\<close> is \<open>x, err := m(); f\<close> where \<open>f\<close> looks at both outcomes.\<close>

definition attempt :: "('w, 'a) eff \<Rightarrow> (go_error + 'a \<Rightarrow> ('w, 'b) eff) \<Rightarrow> ('w, 'b) eff" where
  "attempt m f = (\<lambda>w. case m w of (r, w') \<Rightarrow> f r w')"

text \<open>\<open>wrapping p m\<close> is \<open>m\<close> with its error wrapped, \<open>fmt.Errorf("p: %w", err)\<close>.\<close>

definition wrapping :: "string \<Rightarrow> ('w, 'a) eff \<Rightarrow> ('w, 'a) eff" where
  "wrapping p m = (\<lambda>w. case m w of (Inl e, w') \<Rightarrow> (Inl (wrap p e), w') | (Inr x, w') \<Rightarrow> (Inr x, w'))"

text \<open>\<open>_ = m()\<close>: the error is ignored. \<open>on_error m n\<close> runs \<open>n\<close>, ignoring its error, if \<open>m\<close> fails.\<close>

definition ignoring :: "('w, unit) eff \<Rightarrow> ('w, unit) eff" where
  "ignoring m = (\<lambda>w. (Inr (), snd (m w)))"

definition on_error :: "('w, 'a) eff \<Rightarrow> ('w, unit) eff \<Rightarrow> ('w, 'a) eff" where
  "on_error m n = (\<lambda>w. case m w of (Inl e, w') \<Rightarrow> (Inl e, snd (n w')) | (Inr x, w') \<Rightarrow> (Inr x, w'))"

text \<open>A \<open>for range\<close> loop whose body returns from the function at the first error.\<close>

primrec for_each :: "('b \<Rightarrow> ('w, unit) eff) \<Rightarrow> 'b list \<Rightarrow> ('w, unit) eff" where
  "for_each f [] = ret ()"
| "for_each f (x # xs) = andThen (f x) (\<lambda>_. for_each f xs)"

text \<open>Reading and writing the state itself.\<close>

definition get_state :: "('w \<Rightarrow> 'a) \<Rightarrow> ('w, 'a) eff" where
  "get_state f = (\<lambda>w. (Inr (f w), w))"

definition modify :: "('w \<Rightarrow> 'w) \<Rightarrow> ('w, unit) eff" where
  "modify f = (\<lambda>w. (Inr (), f w))"

lemma eff_eval [eff_simps, simp]:
  "ret x w = (Inr x, w)"
  "fail e w = (Inl e, w)"
  "get_state g w = (Inr (g w), w)"
  "modify h w = (Inr (), h w)"
  by (simp_all add: ret_def fail_def get_state_def modify_def)

lemma andThen_cong_eval [eff_simps]:
  "andThen m f w = (case fst (m w) of Inl e \<Rightarrow> (Inl e, snd (m w)) | Inr x \<Rightarrow> f x (snd (m w)))"
  by (simp add: andThen_def split: prod.split sum.split)

lemma attempt_eval [eff_simps]: "attempt m f w = f (fst (m w)) (snd (m w))"
  by (simp add: attempt_def split: prod.split)

lemma wrapping_eval [eff_simps]:
  "wrapping p m w = (case fst (m w) of Inl e \<Rightarrow> Inl (wrap p e) | Inr x \<Rightarrow> Inr x, snd (m w))"
  by (simp add: wrapping_def split: prod.split sum.split)

lemma andThen_Inr_iff:
  "andThen m f w = (Inr y, w') \<longleftrightarrow> (\<exists>x v. m w = (Inr x, v) \<and> f x v = (Inr y, w'))"
  by (auto simp: andThen_def split: prod.splits sum.splits)

lemma andThen_Inl_iff:
  "andThen m f w = (Inl e, w') \<longleftrightarrow>
     m w = (Inl e, w') \<or> (\<exists>x v. m w = (Inr x, v) \<and> f x v = (Inl e, w'))"
  by (auto simp: andThen_def split: prod.splits sum.splits)

lemma andThen_step [simp]:
  "m w = (Inr x, v) \<Longrightarrow> andThen m f w = f x v"
  "m w = (Inl e, v) \<Longrightarrow> andThen m f w = (Inl e, v)"
  by (simp_all add: andThen_def)

lemma attempt_step [simp]: "m w = (r, v) \<Longrightarrow> attempt m f w = f r v"
  by (simp add: attempt_def)

lemma wrapping_Inr_iff: "wrapping p m w = (Inr x, w') \<longleftrightarrow> m w = (Inr x, w')"
  by (auto simp: wrapping_def split: prod.splits sum.splits)

lemma wrapping_step [simp]:
  "m w = (Inr x, v) \<Longrightarrow> wrapping p m w = (Inr x, v)"
  "m w = (Inl e, v) \<Longrightarrow> wrapping p m w = (Inl (wrap p e), v)"
  by (simp_all add: wrapping_def)

lemma andThen_assoc: "andThen (andThen m f) g = andThen m (\<lambda>x. andThen (f x) g)"
  by (rule ext) (simp add: andThen_def split: prod.split sum.split)

lemma for_each_append:
  "for_each f (xs @ ys) = andThen (for_each f xs) (\<lambda>_. for_each f ys)"
  by (induction xs) (auto simp: fun_eq_iff andThen_def ret_def split: prod.split sum.split)

subsection \<open>Preservation\<close>

text \<open>\<open>keeps P m\<close>: running \<open>m\<close> keeps the predicate \<open>P\<close> of the state, on success and on error.\<close>

definition keeps :: "('w \<Rightarrow> bool) \<Rightarrow> ('w, 'a) eff \<Rightarrow> bool" where
  "keeps P m \<longleftrightarrow> (\<forall>w. P w \<longrightarrow> P (snd (m w)))"

lemma keepsI: "(\<And>w. P w \<Longrightarrow> P (snd (m w))) \<Longrightarrow> keeps P m"
  by (simp add: keeps_def)

lemma keepsD: "keeps P m \<Longrightarrow> P w \<Longrightarrow> m w = (r, w') \<Longrightarrow> P w'"
  by (auto simp: keeps_def dest: spec[of _ w])

lemma keeps_ret [keeps_intros]: "keeps P (ret x)"
  by (simp add: keeps_def)

lemma keeps_fail [keeps_intros]: "keeps P (fail e)"
  by (simp add: keeps_def)

lemma keeps_get [keeps_intros]: "keeps P (get_state g)"
  by (simp add: keeps_def)

lemma keeps_andThen [keeps_intros]:
  "keeps P m \<Longrightarrow> (\<And>x. keeps P (f x)) \<Longrightarrow> keeps P (andThen m f)"
  by (fastforce simp: keeps_def andThen_def split: prod.split sum.split)

lemma keeps_attempt [keeps_intros]:
  "keeps P m \<Longrightarrow> (\<And>r. keeps P (f r)) \<Longrightarrow> keeps P (attempt m f)"
  by (fastforce simp: keeps_def attempt_def split: prod.split)

lemma keeps_wrapping [keeps_intros]: "keeps P m \<Longrightarrow> keeps P (wrapping p m)"
  by (fastforce simp: keeps_def wrapping_def split: prod.split sum.split)

lemma keeps_for_each [keeps_intros]: "(\<And>x. keeps P (f x)) \<Longrightarrow> keeps P (for_each f xs)"
  by (induction xs) (auto intro: keeps_intros)

lemma keeps_if [keeps_intros]: "keeps P m \<Longrightarrow> keeps P n \<Longrightarrow> keeps P (if c then m else n)"
  by simp

lemma keeps_case_sum [keeps_intros]:
  "(\<And>a. keeps P (f a)) \<Longrightarrow> (\<And>b. keeps P (g b)) \<Longrightarrow>
   keeps P (case s of Inl a \<Rightarrow> f a | Inr b \<Rightarrow> g b)"
  by (simp split: sum.split)

lemma keeps_case_option [keeps_intros]:
  "keeps P m \<Longrightarrow> (\<And>b. keeps P (g b)) \<Longrightarrow> keeps P (case s of None \<Rightarrow> m | Some b \<Rightarrow> g b)"
  by (simp split: option.split)

lemma keeps_ignoring [keeps_intros]: "keeps P m \<Longrightarrow> keeps P (ignoring m)"
  by (simp add: keeps_def ignoring_def)

lemma keeps_on_error [keeps_intros]: "keeps P m \<Longrightarrow> keeps P n \<Longrightarrow> keeps P (on_error m n)"
  by (fastforce simp: keeps_def on_error_def split: prod.split sum.split)

lemma on_error_Inr_iff: "on_error m n w = (Inr x, w') \<longleftrightarrow> m w = (Inr x, w')"
  by (auto simp: on_error_def split: prod.splits sum.splits)

section \<open>Polling loops\<close>

text \<open>
  A loop that runs rounds until one of them returns; round \<open>n\<close> returns \<open>round n\<close>, or goes on. The fuel
  bounds the rounds. A clock that advances by at least \<open>d\<close> in every round passes any deadline.
\<close>

fun poll :: "(nat \<Rightarrow> 'r option) \<Rightarrow> nat \<Rightarrow> nat \<Rightarrow> 'r option" where
  "poll round 0 n = None"
| "poll round (Suc fuel) n = (case round n of Some r \<Rightarrow> Some r | None \<Rightarrow> poll round fuel (Suc n))"

lemma poll_ends: "round (n + k) \<noteq> None \<Longrightarrow> k < fuel \<Longrightarrow> poll round fuel n \<noteq> None"
proof (induction fuel arbitrary: n k)
  case (Suc fuel)
  then show ?case by (cases k) (auto split: option.split simp flip: add_Suc_right)
qed simp

lemma poll_Some: "poll round fuel n = Some r \<Longrightarrow> \<exists>k<fuel. round (n + k) = Some r \<and> (\<forall>j<k. round (n + j) = None)"
proof (induction fuel arbitrary: n)
  case (Suc fuel)
  show ?case
  proof (cases "round n")
    case None
    then obtain k where k: "k < fuel" "round (Suc n + k) = Some r" "\<forall>j<k. round (Suc n + j) = None"
      using Suc.IH[of "Suc n"] Suc.prems None by auto
    have "round (n + j) = None" if "j < Suc k" for j using that None k(3) by (cases j) auto
    with k show ?thesis by (intro exI[of _ "Suc k"]) auto
  qed (use Suc.prems in \<open>auto intro!: exI[of _ 0]\<close>)
qed simp

lemma clock_advances: "(\<And>n. clock n + d \<le> clock (Suc n)) \<Longrightarrow> clock 0 + d * int n \<le> (clock n :: int)"
proof (induction n)
  case (Suc n)
  have "clock 0 + d * int (Suc n) = (clock 0 + d * int n) + d" by (simp add: algebra_simps)
  also have "\<dots> \<le> clock n + d" using Suc by simp
  also have "\<dots> \<le> clock (Suc n)" by (rule Suc.prems)
  finally show ?case .
qed simp

end
