(* ===== verification/GoStrings.thy ===== *)
theory GoStrings
  imports Prelude "HOL-Library.Sublist"
begin

text \<open>
  The parts of Go's \<open>strings\<close> and \<open>strconv\<close> packages the program uses, over byte strings:
  \<open>TrimSpace\<close> (with the Unicode white space in its UTF-8 encoding), \<open>Trim\<close> and \<open>TrimRight\<close> with a
  cut set, \<open>ToLower\<close>, \<open>Contains\<close>, \<open>Join\<close>, \<open>Itoa\<close> and \<open>Atoi\<close>.
\<close>

section \<open>Trimming, searching, joining\<close>

text \<open>The runes \<open>unicode.IsSpace\<close> accepts, each as the bytes that encode it.\<close>

definition space_encodings :: "string list" where
  "space_encodings =
     map (map char_of)
      ([[9], [10], [11], [12], [13], [32], [0xC2, 0x85], [0xC2, 0xA0], [0xE1, 0x9A, 0x80]]
       @ map (\<lambda>b. [0xE2, 0x80, b]) ([0x80 ..< 0x8B] @ [0xA8, 0xA9, 0xAF])
       @ [[0xE2, 0x81, 0x9F], [0xE3, 0x80, 0x80 :: nat]])"

lemma space_encodings_nonempty: "[] \<notin> set space_encodings"
  by (auto simp: space_encodings_def)

function trim_prefixes :: "string list \<Rightarrow> string \<Rightarrow> string" where
  "trim_prefixes encs s =
     (case find (\<lambda>e. e \<noteq> [] \<and> prefix e s) encs of
        None \<Rightarrow> s
      | Some e \<Rightarrow> trim_prefixes encs (drop (length e) s))"
  by pat_completeness auto
termination
  by (relation "measure (\<lambda>(encs, s). length s)")
     (auto simp: find_Some_iff prefix_def)

declare trim_prefixes.simps [simp del]

definition trim_space :: "string \<Rightarrow> string" where
  "trim_space s =
     rev (trim_prefixes (map rev space_encodings) (rev (trim_prefixes space_encodings s)))"

definition trim_left_chars :: "string \<Rightarrow> string \<Rightarrow> string" where
  "trim_left_chars cutset s = dropWhile (\<lambda>c. c \<in> set cutset) s"

definition trim_right_chars :: "string \<Rightarrow> string \<Rightarrow> string" where
  "trim_right_chars cutset s = rev (dropWhile (\<lambda>c. c \<in> set cutset) (rev s))"

definition trim_chars :: "string \<Rightarrow> string \<Rightarrow> string" where
  "trim_chars cutset s = trim_right_chars cutset (trim_left_chars cutset s)"

definition str_contains :: "string \<Rightarrow> string \<Rightarrow> bool" where
  "str_contains s sub = sublist sub s"

fun str_join :: "string \<Rightarrow> string list \<Rightarrow> string" where
  "str_join sep [] = ''''"
| "str_join sep [x] = x"
| "str_join sep (x # y # zs) = x @ sep @ str_join sep (y # zs)"

text \<open>
  \<open>strings.ToLower\<close>: the ASCII letters, and the two other runes whose lower case is an ASCII letter
  (capital I with a dot, the Kelvin sign). The remaining non-ASCII letters are left as they are.
\<close>

definition lower_char :: "char \<Rightarrow> char" where
  "lower_char c = (let n = of_char c :: nat in if 65 \<le> n \<and> n \<le> 90 then char_of (n + 32) else c)"

fun to_lower :: "string \<Rightarrow> string" where
  "to_lower [] = []"
| "to_lower (c # cs) =
     (if prefix [CHR 0xC4, CHR 0xB0] (c # cs) then CHR ''i'' # to_lower (drop 1 cs)
      else if prefix [CHR 0xE2, CHR 0x84, CHR 0xAA] (c # cs) then CHR ''k'' # to_lower (drop 2 cs)
      else lower_char c # to_lower cs)"

text \<open>\<open>strings.EqualFold(s, t)\<close> for an ASCII \<open>t\<close> without the letters k and s.\<close>

definition equal_fold :: "string \<Rightarrow> string \<Rightarrow> bool" where
  "equal_fold s t = (map lower_char s = map lower_char t)"

text \<open>\<open>%q\<close> without its escapes.\<close>

definition quoted :: "string \<Rightarrow> string" where
  "quoted s = [CHR 0x22] @ s @ [CHR 0x22]"

lemma trim_prefixes_None:
  "find (\<lambda>e. e \<noteq> [] \<and> prefix e s) encs = None \<Longrightarrow> trim_prefixes encs s = s"
  by (subst trim_prefixes.simps) simp

lemma trim_prefixes_Some:
  "find (\<lambda>e. e \<noteq> [] \<and> prefix e s) encs = Some e \<Longrightarrow>
   trim_prefixes encs s = trim_prefixes encs (drop (length e) s)"
  by (subst trim_prefixes.simps) simp

lemma trim_prefixes_suffix: "suffix (trim_prefixes encs s) s"
proof (induction encs s rule: trim_prefixes.induct)
  case (1 encs s)
  show ?case
  proof (cases "find (\<lambda>e. e \<noteq> [] \<and> prefix e s) encs")
    case None
    then show ?thesis by (simp add: trim_prefixes_None)
  next
    case (Some e)
    then have "suffix (trim_prefixes encs (drop (length e) s)) (drop (length e) s)"
      by (rule "1.IH")
    then have "suffix (trim_prefixes encs (drop (length e) s)) s"
      using suffix_drop by (rule suffix_order.trans)
    then show ?thesis by (simp add: trim_prefixes_Some[OF Some])
  qed
qed

lemma trim_prefixes_idem: "trim_prefixes encs (trim_prefixes encs s) = trim_prefixes encs s"
proof (induction encs s rule: trim_prefixes.induct)
  case (1 encs s)
  show ?case
  proof (cases "find (\<lambda>e. e \<noteq> [] \<and> prefix e s) encs")
    case None
    then show ?thesis by (simp add: trim_prefixes_None)
  next
    case (Some e)
    then show ?thesis using "1.IH"[OF Some] by (simp only: trim_prefixes_Some[OF Some])
  qed
qed

lemma trim_prefixes_Nil [simp]: "trim_prefixes encs [] = []"
  using trim_prefixes_suffix[of encs "[]"] by simp

lemma trim_space_Nil [simp]: "trim_space [] = []"
  by (simp add: trim_space_def)

section \<open>Decimal numbers\<close>

fun nat_dec :: "nat \<Rightarrow> string" where
  "nat_dec n = (if n < 10 then [char_of (48 + n)] else nat_dec (n div 10) @ [char_of (48 + n mod 10)])"

declare nat_dec.simps [simp del]

definition itoa :: "int \<Rightarrow> string" where
  "itoa i = (if i < 0 then ''-'' @ nat_dec (nat (- i)) else nat_dec (nat i))"

definition is_digit :: "char \<Rightarrow> bool" where
  "is_digit c = (let n = of_char c :: nat in 48 \<le> n \<and> n \<le> 57)"

definition digit_val :: "char \<Rightarrow> nat" where
  "digit_val c = of_char c - 48"

definition dec_value :: "string \<Rightarrow> nat" where
  "dec_value ds = foldl (\<lambda>v c. v * 10 + digit_val c) 0 ds"

text \<open>\<open>strconv.Atoi\<close>: an optional sign, at least one digit, and a value that fits a 64-bit int.\<close>

definition atoi :: "string \<Rightarrow> go_error + int" where
  "atoi s =
     (let neg = (s \<noteq> [] \<and> hd s = CHR ''-'');
          ds = (if s \<noteq> [] \<and> (hd s = CHR ''-'' \<or> hd s = CHR ''+'') then tl s else s);
          v = (if neg then - int (dec_value ds) else int (dec_value ds))
      in if ds = [] \<or> \<not> list_all is_digit ds
         then Inl (errorf (''strconv.Atoi: parsing '' @ quoted s @ '': invalid syntax''))
         else if v < - (2 ^ 63) \<or> 2 ^ 63 \<le> v
         then Inl (errorf (''strconv.Atoi: parsing '' @ quoted s @ '': value out of range''))
         else Inr v)"

text \<open>\<open>strconv.ParseUint(s, 10, 16)\<close>.\<close>

definition parse_uint16 :: "string \<Rightarrow> nat option" where
  "parse_uint16 s =
     (if s = [] \<or> \<not> list_all is_digit s \<or> 65536 \<le> dec_value s then None else Some (dec_value s))"

lemma of_char_digit: "n < (10::nat) \<Longrightarrow> (of_char (char_of (48 + n) :: char) :: nat) = 48 + n"
  by simp

lemma is_digit_char_of [simp]: "n < 10 \<Longrightarrow> is_digit (char_of (48 + n :: nat))"
  by (simp add: is_digit_def Let_def of_char_digit)

lemma digit_val_char_of [simp]: "n < 10 \<Longrightarrow> digit_val (char_of (48 + n :: nat)) = n"
  by (simp add: digit_val_def of_char_digit)

lemma nat_dec_digits: "list_all is_digit (nat_dec n)"
proof (induction n rule: nat_dec.induct)
  case (1 n)
  then show ?case
    by (subst nat_dec.simps) simp
qed

lemma nat_dec_nonempty [simp]: "nat_dec n \<noteq> []"
  by (subst nat_dec.simps) simp

lemma dec_value_snoc: "dec_value (ds @ [c]) = dec_value ds * 10 + digit_val c"
  by (simp add: dec_value_def)

lemma dec_value_nat_dec [simp]: "dec_value (nat_dec n) = n"
proof (induction n rule: nat_dec.induct)
  case (1 n)
  show ?case
  proof (cases "n < 10")
    case True
    then show ?thesis by (subst nat_dec.simps) (simp add: dec_value_def)
  next
    case False
    with "1.IH" show ?thesis by (subst nat_dec.simps) (simp add: dec_value_snoc)
  qed
qed

lemma nat_dec_chars: "c \<in> set (nat_dec n) \<Longrightarrow> is_digit c"
  using nat_dec_digits[of n] by (simp add: list_all_iff)

lemma digit_char_neq [simp]:
  "is_digit c \<Longrightarrow> c \<noteq> CHR '':''" "is_digit c \<Longrightarrow> c \<noteq> CHR ''[''" "is_digit c \<Longrightarrow> c \<noteq> CHR '']''"
  "is_digit c \<Longrightarrow> c \<noteq> CHR ''-''" "is_digit c \<Longrightarrow> c \<noteq> CHR ''+''" "is_digit c \<Longrightarrow> c \<noteq> CHR ''.''"
  "is_digit c \<Longrightarrow> c \<noteq> CHR ''%''"
  by (auto simp: is_digit_def)

lemma nat_dec_not_in [simp]:
  "CHR '':'' \<notin> set (nat_dec n)" "CHR ''['' \<notin> set (nat_dec n)" "CHR '']'' \<notin> set (nat_dec n)"
  "CHR ''-'' \<notin> set (nat_dec n)" "CHR ''+'' \<notin> set (nat_dec n)" "CHR ''.'' \<notin> set (nat_dec n)"
  "CHR ''%'' \<notin> set (nat_dec n)"
  using nat_dec_chars digit_char_neq by blast+

lemma itoa_not_in [simp]:
  "CHR '':'' \<notin> set (itoa i)" "CHR ''['' \<notin> set (itoa i)" "CHR '']'' \<notin> set (itoa i)"
  by (simp_all add: itoa_def)

lemma itoa_nonempty [simp]: "itoa i \<noteq> []"
  by (simp add: itoa_def)

lemma atoi_itoa: 
  assumes "- (2 ^ 63) \<le> i" "i < 2 ^ 63"
  shows "atoi (itoa i) = Inr i"
proof (cases "i < 0")
  case True
  with assms show ?thesis
    by (simp add: atoi_def itoa_def Let_def nat_dec_digits)
next
  case False
  have "hd (nat_dec n) \<in> set (nat_dec n)" for n by simp
  then have "hd (nat_dec n) \<noteq> CHR ''-''" "hd (nat_dec n) \<noteq> CHR ''+''" for n
    by (metis nat_dec_not_in(4,5))+
  with False assms show ?thesis
    by (simp add: atoi_def itoa_def Let_def nat_dec_digits)
qed

text \<open>The decimal form of a number below 256 (an address field) has one to three digits and no
  leading zero unless it is the number 0.\<close>

lemma nat_dec_small: "n < 10 \<Longrightarrow> nat_dec n = [char_of (48 + n)]"
  by (subst nat_dec.simps) simp

lemma nat_dec_step: "10 \<le> n \<Longrightarrow> nat_dec n = nat_dec (n div 10) @ [char_of (48 + n mod 10)]"
  by (subst nat_dec.simps) simp

lemma char_of_digits [simp]:
  "char_of (48::nat) = CHR ''0''" "char_of (49::nat) = CHR ''1''" "char_of (50::nat) = CHR ''2''"
  "char_of (51::nat) = CHR ''3''" "char_of (52::nat) = CHR ''4''" "char_of (53::nat) = CHR ''5''"
  "char_of (54::nat) = CHR ''6''" "char_of (55::nat) = CHR ''7''" "char_of (56::nat) = CHR ''8''"
  "char_of (57::nat) = CHR ''9''"
  by code_simp+

lemmas nat_dec_eval = nat_dec_step nat_dec_small itoa_def

end
