(* ===== verification/GoNet.thy ===== *)
theory GoNet
  imports GoStrings
begin

text \<open>
  The parts of Go's \<open>net\<close> and \<open>net/netip\<close> packages the program uses: \<open>SplitHostPort\<close>,
  \<open>JoinHostPort\<close>, the address parsers and printers, the predicates of \<open>net.IP\<close>, and
  \<open>net.UDPAddr\<close>. A \<open>net.IP\<close> is its byte slice, the empty list standing for nil.
\<close>

section \<open>Host and port\<close>

text \<open>The two parts of a string around its last colon.\<close>

definition split_last_colon :: "string \<Rightarrow> (string \<times> string) option" where
  "split_last_colon s =
     (if CHR '':'' \<in> set s
      then Some (rev (tl (dropWhile (\<lambda>c. c \<noteq> CHR '':'') (rev s))),
                 rev (takeWhile (\<lambda>c. c \<noteq> CHR '':'') (rev s)))
      else None)"

definition addr_error :: "string \<Rightarrow> string \<Rightarrow> go_error" where
  "addr_error addr why = errorf (''address '' @ addr @ '': '' @ why)"

definition split_host_port :: "string \<Rightarrow> go_error + string \<times> string" where
  "split_host_port hp =
     (case split_last_colon hp of
        None \<Rightarrow> Inl (addr_error hp ''missing port in address'')
      | Some (hostpart, port) \<Rightarrow>
          if hd hp = CHR ''['' then
            (let inner = takeWhile (\<lambda>c. c \<noteq> CHR '']'') (tl hp); fin = Suc (length inner) in
             if CHR '']'' \<notin> set hp then Inl (addr_error hp ''missing ']' in address'')
             else if Suc fin = length hp then Inl (addr_error hp ''missing port in address'')
             else if Suc fin \<noteq> length hostpart then
               (if hp ! Suc fin = CHR '':'' then Inl (addr_error hp ''too many colons in address'')
                else Inl (addr_error hp ''missing port in address''))
             else if CHR ''['' \<in> set (drop 1 hp) then Inl (addr_error hp ''unexpected '[' in address'')
             else if CHR '']'' \<in> set (drop (Suc fin) hp) then Inl (addr_error hp ''unexpected ']' in address'')
             else Inr (inner, port))
          else if CHR '':'' \<in> set hostpart then Inl (addr_error hp ''too many colons in address'')
          else if CHR ''['' \<in> set hp then Inl (addr_error hp ''unexpected '[' in address'')
          else if CHR '']'' \<in> set hp then Inl (addr_error hp ''unexpected ']' in address'')
          else Inr (hostpart, port))"

definition join_host_port :: "string \<Rightarrow> string \<Rightarrow> string" where
  "join_host_port host port =
     (if CHR '':'' \<in> set host then ''['' @ host @ '']:'' @ port else host @ '':'' @ port)"

lemma split_last_colon_append:
  "CHR '':'' \<notin> set port \<Longrightarrow> split_last_colon (host @ CHR '':'' # port) = Some (host, port)"
proof -
  assume no: "CHR '':'' \<notin> set port"
  have "takeWhile (\<lambda>c. c \<noteq> CHR '':'') (rev port @ CHR '':'' # rev host) = rev port"
    by (subst takeWhile_append2) (use no in auto)
  moreover have "dropWhile (\<lambda>c. c \<noteq> CHR '':'') (rev port @ CHR '':'' # rev host) = CHR '':'' # rev host"
    by (subst dropWhile_append2) (use no in auto)
  ultimately show ?thesis
    by (simp add: split_last_colon_def)
qed

lemma split_join_host_port:
  assumes "CHR ''['' \<notin> set host" "CHR '']'' \<notin> set host"
    and "CHR '':'' \<notin> set port" "CHR ''['' \<notin> set port" "CHR '']'' \<notin> set port"
  shows "split_host_port (join_host_port host port) = Inr (host, port)"
proof (cases "CHR '':'' \<in> set host")
  case True
  let ?hp = "''['' @ host @ '']:'' @ port"
  have last: "split_last_colon ?hp = Some (''['' @ host @ '']'', port)"
    using split_last_colon_append[OF assms(3), of "''['' @ host @ '']''"] by simp
  have inner: "takeWhile (\<lambda>c. c \<noteq> CHR '']'') (host @ CHR '']'' # CHR '':'' # port) = host"
    by (subst takeWhile_append2) (use assms(2) in auto)
  show ?thesis
    using True assms last
    by (simp add: join_host_port_def split_host_port_def Let_def inner)
next
  case False
  have "split_last_colon (host @ CHR '':'' # port) = Some (host, port)"
    using assms(3) by (rule split_last_colon_append)
  moreover have "hd (host @ CHR '':'' # port) \<noteq> CHR ''[''"
    using assms(1) by (cases host) auto
  ultimately show ?thesis
    using False assms by (simp add: join_host_port_def split_host_port_def)
qed

section \<open>Addresses: parsing\<close>

datatype netip = NoAddr | Addr4 "byte list" | Addr6 "byte list" string

fun v4_loop :: "string \<Rightarrow> nat \<Rightarrow> nat \<Rightarrow> byte list \<Rightarrow> byte list option" where
  "v4_loop [] val dl acc = (if length acc < 3 then None else Some (acc @ [word_of_nat val]))"
| "v4_loop (c # cs) val dl acc =
     (if is_digit c then
        (if dl = 1 \<and> val = 0 then None
         else if 255 < val * 10 + digit_val c then None
         else v4_loop cs (val * 10 + digit_val c) (Suc dl) acc)
      else if c = CHR ''.'' then
        (if dl = 0 \<or> cs = [] then None
         else if length acc = 3 then None
         else v4_loop cs 0 0 (acc @ [word_of_nat val]))
      else None)"

definition parse_v4_fields :: "string \<Rightarrow> byte list option" where
  "parse_v4_fields s = v4_loop s 0 0 []"

definition hex_val :: "char \<Rightarrow> nat option" where
  "hex_val c =
     (let n = of_char c :: nat in
      if 48 \<le> n \<and> n \<le> 57 then Some (n - 48)
      else if 97 \<le> n \<and> n \<le> 102 then Some (n - 87)
      else if 65 \<le> n \<and> n \<le> 70 then Some (n - 55)
      else None)"

definition hex_value :: "string \<Rightarrow> nat" where
  "hex_value hs = foldl (\<lambda>v c. v * 16 + the (hex_val c)) 0 hs"

definition v6_group :: "nat \<Rightarrow> byte list" where
  "v6_group n = [word_of_nat (n div 256), word_of_nat (n mod 256)]"

text \<open>
  The loop of \<open>parseIPv6\<close>: the rest of the text, the bytes so far and the place of the ellipsis.
  It ends with what is left of the text, or fails.
\<close>

function v6_loop :: "string \<Rightarrow> byte list \<Rightarrow> nat option \<Rightarrow> (string \<times> byte list \<times> nat option) option" where
  "v6_loop s ip ell =
     (if 16 \<le> length ip then Some (s, ip, ell)
      else let hs = takeWhile (\<lambda>c. hex_val c \<noteq> None) s;
               rest = dropWhile (\<lambda>c. hex_val c \<noteq> None) s;
               ip' = ip @ v6_group (hex_value hs)
      in if hs = [] \<or> 4 < length hs then None
      else case rest of
        [] \<Rightarrow> Some ([], ip', ell)
      | c # r \<Rightarrow>
          if c = CHR ''.'' then
            (if ell = None \<and> length ip \<noteq> 12 then None
             else if 16 < length ip + 4 then None
             else case parse_v4_fields s of None \<Rightarrow> None | Some b4 \<Rightarrow> Some ([], ip @ b4, ell))
          else if c \<noteq> CHR '':'' \<or> r = [] then None
          else if hd r = CHR '':'' then
            (if ell \<noteq> None then None
             else if tl r = [] then Some ([], ip', Some (length ip'))
             else v6_loop (tl r) ip' (Some (length ip')))
          else v6_loop r ip' ell)"
  by pat_completeness auto
termination
  by (relation "measure (\<lambda>(s, ip, ell). 16 - length ip)") (auto simp: v6_group_def)

declare v6_loop.simps [simp del]

definition v6_finish :: "string \<times> byte list \<times> nat option \<Rightarrow> byte list option" where
  "v6_finish r =
     (case r of (s, ip, ell) \<Rightarrow>
        if s \<noteq> [] then None
        else if length ip < 16 then
          (case ell of None \<Rightarrow> None
           | Some e \<Rightarrow> Some (take e ip @ replicate (16 - length ip) 0 @ drop e ip))
        else if ell \<noteq> None then None else Some ip)"

definition parse_v6 :: "string \<Rightarrow> netip option" where
  "parse_v6 inp =
     (let s = takeWhile (\<lambda>c. c \<noteq> CHR ''%'') inp;
          zone = drop (Suc (length s)) inp
      in if CHR ''%'' \<in> set inp \<and> zone = [] then None
      else if take 2 s = ''::'' then
        (if length s = 2 then Some (Addr6 (replicate 16 0) zone)
         else map_option (\<lambda>b. Addr6 b zone)
                (Option.bind (v6_loop (drop 2 s) [] (Some 0)) v6_finish))
      else map_option (\<lambda>b. Addr6 b zone) (Option.bind (v6_loop s [] None) v6_finish))"

text \<open>\<open>netip.ParseAddr\<close>: the first of \<open>.\<close>, \<open>:\<close>, \<open>%\<close> decides the family.\<close>

definition parse_addr :: "string \<Rightarrow> netip option" where
  "parse_addr s =
     (case find (\<lambda>c. c = CHR ''.'' \<or> c = CHR '':'' \<or> c = CHR ''%'') s of
        None \<Rightarrow> None
      | Some c \<Rightarrow>
          if c = CHR ''.'' then map_option Addr4 (parse_v4_fields s)
          else if c = CHR '':'' then parse_v6 s
          else None)"

text \<open>\<open>netip.ParseAddrPort\<close>; the program only uses the address.\<close>

definition parse_addr_port :: "string \<Rightarrow> (netip \<times> nat) option" where
  "parse_addr_port s =
     (case split_last_colon s of
        None \<Rightarrow> None
      | Some (ip, port) \<Rightarrow>
          if ip = [] \<or> port = [] then None
          else if hd ip = CHR ''['' \<and> (length ip < 2 \<or> last ip \<noteq> CHR '']'') then None
          else
            (let v6 = (hd ip = CHR ''['');
                 host = (if v6 then butlast (tl ip) else ip)
             in case parse_uint16 port of
                  None \<Rightarrow> None
                | Some p \<Rightarrow>
                    (case parse_addr host of
                       Some (Addr4 b) \<Rightarrow> if v6 then None else Some (Addr4 b, p)
                     | Some (Addr6 b z) \<Rightarrow> if v6 then Some (Addr6 b z, p) else None
                     | _ \<Rightarrow> None)))"

section \<open>Addresses: structure\<close>

definition v4_in_6_prefix :: "byte list" where
  "v4_in_6_prefix = replicate 10 0 @ [0xFF, 0xFF]"

definition is_4in6 :: "byte list \<Rightarrow> bool" where
  "is_4in6 b = (take 12 b = v4_in_6_prefix)"

fun addr_unmap :: "netip \<Rightarrow> netip" where
  "addr_unmap (Addr6 b z) = (if is_4in6 b then Addr4 (drop 12 b) else Addr6 b z)"
| "addr_unmap a = a"

fun addr_is_valid :: "netip \<Rightarrow> bool" where
  "addr_is_valid NoAddr = False"
| "addr_is_valid _ = True"

fun addr_is6 :: "netip \<Rightarrow> bool" where
  "addr_is6 (Addr6 b z) = True"
| "addr_is6 _ = False"

fun addr_bit_len :: "netip \<Rightarrow> nat" where
  "addr_bit_len NoAddr = 0"
| "addr_bit_len (Addr4 b) = 32"
| "addr_bit_len (Addr6 b z) = 128"

text \<open>\<open>net.ParseIP\<close>: the 16-byte form, or nil (the empty slice).\<close>

definition parse_ip :: "string \<Rightarrow> byte list" where
  "parse_ip s =
     (case parse_addr s of
        Some (Addr4 b) \<Rightarrow> v4_in_6_prefix @ b
      | Some (Addr6 b z) \<Rightarrow> if z = [] then b else []
      | _ \<Rightarrow> [])"

definition ip_to4 :: "byte list \<Rightarrow> byte list" where
  "ip_to4 ip = (if length ip = 4 then ip
                else if length ip = 16 \<and> take 12 ip = v4_in_6_prefix then drop 12 ip else [])"

definition ip_to16 :: "byte list \<Rightarrow> byte list" where
  "ip_to16 ip = (if length ip = 4 then v4_in_6_prefix @ ip else if length ip = 16 then ip else [])"

definition ip_equal :: "byte list \<Rightarrow> byte list \<Rightarrow> bool" where
  "ip_equal a b =
     (if length a = length b then a = b
      else if length a = 4 \<and> length b = 16 then take 12 b = v4_in_6_prefix \<and> a = drop 12 b
      else if length a = 16 \<and> length b = 4 then take 12 a = v4_in_6_prefix \<and> b = drop 12 a
      else False)"

definition ip_is_unspecified :: "byte list \<Rightarrow> bool" where
  "ip_is_unspecified ip = (ip_equal ip (v4_in_6_prefix @ [0, 0, 0, 0]) \<or> ip_equal ip (replicate 16 0))"

definition ip_is_loopback :: "byte list \<Rightarrow> bool" where
  "ip_is_loopback ip =
     (if ip_to4 ip \<noteq> [] then hd (ip_to4 ip) = 127 else ip_equal ip (replicate 15 0 @ [1]))"

section \<open>Addresses: printing\<close>

definition string4 :: "byte list \<Rightarrow> string" where
  "string4 b = str_join ''.'' (map (\<lambda>x. nat_dec (unat x)) b)"

definition hex_digit :: "nat \<Rightarrow> char" where
  "hex_digit n = (if n < 10 then char_of (48 + n) else char_of (87 + n))"

fun nat_hex :: "nat \<Rightarrow> string" where
  "nat_hex n = (if n < 16 then [hex_digit n] else nat_hex (n div 16) @ [hex_digit (n mod 16)])"

declare nat_hex.simps [simp del]

text \<open>The sixteen-bit groups of an address.\<close>

fun v6_groups :: "byte list \<Rightarrow> nat list" where
  "v6_groups (a # b # r) = (unat a * 256 + unat b) # v6_groups r"
| "v6_groups _ = []"

text \<open>The first longest run of at least two zero groups, as \<open>(start, end)\<close>.\<close>

definition zero_run :: "nat list \<Rightarrow> nat \<Rightarrow> nat" where
  "zero_run gs i = length (takeWhile (\<lambda>g. g = 0) (drop i gs))"

definition best_zero_run :: "nat list \<Rightarrow> (nat \<times> nat) option" where
  "best_zero_run gs =
     fold (\<lambda>i best. let l = zero_run gs i in
             if 2 \<le> l \<and> (case best of None \<Rightarrow> True | Some (s, e) \<Rightarrow> e - s < l)
             then Some (i, i + l) else best)
          [0 ..< 8] None"

definition string6 :: "byte list \<Rightarrow> string" where
  "string6 b =
     (let gs = v6_groups b; hexes = (\<lambda>xs. str_join '':'' (map nat_hex xs)) in
      case best_zero_run gs of
        None \<Rightarrow> hexes gs
      | Some (s, e) \<Rightarrow> hexes (take s gs) @ ''::'' @ hexes (drop e gs))"

text \<open>\<open>netip.Addr.String\<close>.\<close>

definition zone_suffix :: "string \<Rightarrow> string" where
  "zone_suffix z = (if z = [] then [] else CHR ''%'' # z)"

fun addr_string :: "netip \<Rightarrow> string" where
  "addr_string NoAddr = ''invalid IP''"
| "addr_string (Addr4 b) = string4 b"
| "addr_string (Addr6 b z) =
     (if is_4in6 b then ''::ffff:'' @ string4 (drop 12 b) else string6 b) @ zone_suffix z"

text \<open>\<open>net.IP.String\<close>.\<close>

definition hex_bytes :: "byte list \<Rightarrow> string" where
  "hex_bytes bs = concat (map (\<lambda>b. [hex_digit (unat b div 16), hex_digit (unat b mod 16)]) bs)"

definition ip_string :: "byte list \<Rightarrow> string" where
  "ip_string ip =
     (if ip = [] then ''<nil>''
      else if length ip \<noteq> 4 \<and> length ip \<noteq> 16 then CHR ''?'' # hex_bytes ip
      else if ip_to4 ip \<noteq> [] then string4 (ip_to4 ip)
      else string6 ip)"

text \<open>\<open>net.UDPAddr\<close> and its \<open>String\<close>.\<close>

record udp_addr =
  u_ip :: "byte list"
  u_port :: int
  u_zone :: string

definition udp_addr_string :: "udp_addr \<Rightarrow> string" where
  "udp_addr_string a =
     (let ip = (if u_ip a = [] then '''' else ip_string (u_ip a)) in
      if u_zone a \<noteq> [] then join_host_port (ip @ ''%'' @ u_zone a) (itoa (u_port a))
      else join_host_port ip (itoa (u_port a)))"

text \<open>\<open>netip.Prefix\<close>: \<open>PrefixFrom\<close> drops the zone.\<close>

datatype prefix4or6 = NetPrefix netip nat

fun prefix_from :: "netip \<Rightarrow> nat \<Rightarrow> prefix4or6" where
  "prefix_from (Addr6 b z) n = NetPrefix (Addr6 b []) n"
| "prefix_from a n = NetPrefix a n"

fun prefix_addr :: "prefix4or6 \<Rightarrow> netip" where
  "prefix_addr (NetPrefix a n) = a"

fun prefix_string :: "prefix4or6 \<Rightarrow> string" where
  "prefix_string (NetPrefix a n) =
     (if a = NoAddr \<or> addr_bit_len a < n then ''invalid Prefix''
      else addr_string a @ ''/'' @ nat_dec n)"

section \<open>Facts about addresses\<close>

lemma v4_loop_nat_dec:
  assumes "n < 256"
  shows "v4_loop (nat_dec n @ rest) 0 0 acc = v4_loop rest n (length (nat_dec n)) acc"
proof -
  consider "n < 10" | "10 \<le> n" "n < 100" | "100 \<le> n" by linarith
  then show ?thesis
  proof cases
    case 1
    then show ?thesis by (simp add: nat_dec_small)
  next
    case 2
    define d where "d = n div 10"
    define r where "r = n mod 10"
    have n: "n = d * 10 + r" "d < 10" "r < 10" "d \<noteq> 0"
      using 2 by (auto simp: d_def r_def)
    then have "nat_dec n = [char_of (48 + d), char_of (48 + r)]"
      using 2 nat_dec_step[of n] by (simp add: nat_dec_small d_def r_def)
    with n show ?thesis by simp
  next
    case 3
    define c where "c = n div 10 div 10"
    define d where "d = n div 10 mod 10"
    define r where "r = n mod 10"
    have cd: "c * 10 + d = n div 10" and "n div 10 * 10 + r = n"
      by (simp_all add: c_def d_def r_def)
    then have n: "n = (c * 10 + d) * 10 + r" by simp
    have bounds: "c < 10" "d < 10" "r < 10" "c \<noteq> 0"
      using 3 assms by (simp_all add: c_def d_def r_def flip: div_mult2_eq)
    then have "nat_dec n = [char_of (48 + c), char_of (48 + d), char_of (48 + r)]"
      using 3 nat_dec_step[of n] nat_dec_step[of "n div 10"]
      by (simp add: nat_dec_small c_def d_def r_def)
    moreover have "c * 10 + d \<le> 255" using cd assms by simp
    ultimately show ?thesis using n bounds assms by simp
  qed
qed

lemma length_4_list: "length b = 4 \<Longrightarrow> \<exists>w x y z. b = [w, x, y, z]"
  by (auto simp: numeral_eq_Suc length_Suc_conv)

lemma unat_byte_less [simp]: "unat (b :: byte) < 256"
  using unsigned_less[of b, where ?'a = nat] by simp

lemma not_is_digit [simp]: "\<not> is_digit CHR ''.''" "\<not> is_digit CHR '':''" "\<not> is_digit CHR ''%''"
  by (simp_all add: is_digit_def)

lemma parse_v4_string4: "length b = 4 \<Longrightarrow> parse_v4_fields (string4 b) = Some b"
proof -
  assume "length b = 4"
  then obtain w x y z where b: "b = [w, x, y, z]" by (auto dest: length_4_list)
  have last: "v4_loop (nat_dec n) 0 0 acc = v4_loop [] n (length (nat_dec n)) acc" if "n < 256" for n acc
    using v4_loop_nat_dec[OF that, of "[]"] by simp
  show ?thesis
    by (simp add: b parse_v4_fields_def string4_def v4_loop_nat_dec last)
qed

lemma find_after_digits:
  "list_all is_digit ds \<Longrightarrow> (\<And>c. is_digit c \<Longrightarrow> \<not> P c) \<Longrightarrow> P c \<Longrightarrow> find P (ds @ c # r) = Some c"
  by (induction ds) auto

lemma string4_split:
  "length b = 4 \<Longrightarrow> string4 b =
     nat_dec (unat (b ! 0)) @ CHR ''.'' # nat_dec (unat (b ! 1)) @ CHR ''.'' #
     nat_dec (unat (b ! 2)) @ CHR ''.'' # nat_dec (unat (b ! 3))"
  by (auto dest!: length_4_list simp: string4_def)

lemma parse_addr_string4:
  assumes "length b = 4"
  shows "parse_addr (string4 b) = Some (Addr4 b)"
proof -
  have "find (\<lambda>c. c = CHR ''.'' \<or> c = CHR '':'' \<or> c = CHR ''%'') (string4 b) = Some CHR ''.''"
    unfolding string4_split[OF assms]
    by (rule find_after_digits) (auto simp: nat_dec_digits)
  then show ?thesis
    by (simp add: parse_addr_def parse_v4_string4 assms)
qed

lemma parse_ip_string4: "length b = 4 \<Longrightarrow> parse_ip (string4 b) = v4_in_6_prefix @ b"
  by (simp add: parse_ip_def parse_addr_string4)

lemma length_v4_in_6_prefix [simp]: "length v4_in_6_prefix = 12"
  by (simp add: v4_in_6_prefix_def)

lemma ip_to4_mapped [simp]: "length b = 4 \<Longrightarrow> ip_to4 (v4_in_6_prefix @ b) = b"
  by (simp add: ip_to4_def)

lemma ip_to4_length: "ip_to4 ip \<noteq> [] \<Longrightarrow> length (ip_to4 ip) = 4"
  by (auto simp: ip_to4_def split: if_splits)

lemma ip_string4: "length b = 4 \<Longrightarrow> ip_string b = string4 b"
  by (auto simp: ip_string_def ip_to4_def)

subsection \<open>Printed addresses hold no brackets\<close>

lemma string4_chars: "length b = 4 \<Longrightarrow> c \<in> set (string4 b) \<Longrightarrow> is_digit c \<or> c = CHR ''.''"
  by (auto simp: string4_split dest: nat_dec_chars)

lemma hex_digit_hex_val: "n < 16 \<Longrightarrow> hex_val (hex_digit n) = Some n"
  by (auto simp: hex_val_def hex_digit_def Let_def)

lemma nat_hex_chars: "c \<in> set (nat_hex n) \<Longrightarrow> hex_val c \<noteq> None"
proof (induction n rule: nat_hex.induct)
  case (1 n)
  then show ?case
    by (subst (asm) nat_hex.simps) (auto simp: hex_digit_hex_val split: if_splits)
qed

lemma set_str_join: "set (str_join sep xs) \<subseteq> set sep \<union> \<Union> (set (map set xs))"
  by (induction sep xs rule: str_join.induct) auto

lemma string6_chars: "c \<in> set (string6 b) \<Longrightarrow> hex_val c \<noteq> None \<or> c = CHR '':''"
proof -
  have hexes: "hex_val d \<noteq> None \<or> d = CHR '':''" if "d \<in> set (str_join '':'' (map nat_hex xs))" for d xs
    using that set_str_join[of "'':''" "map nat_hex xs"] by (auto dest: nat_hex_chars)
  assume "c \<in> set (string6 b)"
  then show ?thesis
    by (auto simp: string6_def Let_def split: option.splits dest: hexes)
qed

lemma hex_val_punct [simp]:
  "hex_val CHR ''['' = None" "hex_val CHR '']'' = None" "hex_val CHR '':'' = None"
  "hex_val CHR ''.'' = None" "hex_val CHR ''%'' = None"
  by (simp_all add: hex_val_def Let_def)

lemma ip_string_no_brackets:
  assumes "length ip = 4 \<or> length ip = 16"
  shows "CHR ''['' \<notin> set (ip_string ip)" "CHR '']'' \<notin> set (ip_string ip)"
proof -
  have "string4 (ip_to4 ip) = ip_string ip" if "ip_to4 ip \<noteq> []"
    using that assms by (auto simp: ip_string_def)
  moreover have "string6 ip = ip_string ip" if "ip_to4 ip = []"
    using that assms by (auto simp: ip_string_def)
  ultimately show "CHR ''['' \<notin> set (ip_string ip)" "CHR '']'' \<notin> set (ip_string ip)"
    using string4_chars[OF ip_to4_length, of ip] string6_chars[of _ ip]
    by (cases "ip_to4 ip = []"; fastforce simp: is_digit_def)+
qed

lemma split_join_ip:
  "length ip = 4 \<or> length ip = 16 \<Longrightarrow>
   split_host_port (join_host_port (ip_string ip) (itoa p)) = Inr (ip_string ip, itoa p)"
  by (rule split_join_host_port) (simp_all add: ip_string_no_brackets)

subsection \<open>Lengths of parsed addresses\<close>

lemma v4_loop_length: "v4_loop s v d acc = Some b \<Longrightarrow> length acc \<le> 3 \<Longrightarrow> length b = 4"
  by (induction s v d acc rule: v4_loop.induct) (auto split: if_splits)

lemma parse_v4_length: "parse_v4_fields s = Some b \<Longrightarrow> length b = 4"
  by (auto simp: parse_v4_fields_def dest: v4_loop_length)

lemma v6_loop_length:
  "v6_loop s ip ell = Some (s', ip', ell') \<Longrightarrow> even (length ip) \<Longrightarrow> length ip \<le> 16 \<Longrightarrow>
   ell = None \<or> the ell \<le> length ip \<Longrightarrow>
   length ip' \<le> 16 \<and> (ell' = None \<or> the ell' \<le> length ip')"
proof (induction s ip ell arbitrary: s' ip' ell' rule: v6_loop.induct)
  case (1 s ip ell)
  show ?case
  proof (cases "16 \<le> length ip")
    case True
    with "1.prems" show ?thesis by (simp add: v6_loop.simps[of s ip ell])
  next
    case False
    then have "length ip + 2 \<le> 16"
      using \<open>even (length ip)\<close> by presburger
    then show ?thesis
      using "1.prems" "1.IH"(1)[OF False refl refl refl] "1.IH"(2)[OF False refl refl refl] False
      by (subst (asm) v6_loop.simps)
         (auto simp: Let_def v6_group_def dest: parse_v4_length
               split: if_splits list.splits option.splits)
  qed
qed

lemma v6_finish_length:
  "length ip \<le> 16 \<Longrightarrow> v6_finish (s, ip, ell) = Some b \<Longrightarrow> ell = None \<or> the ell \<le> length ip \<Longrightarrow> length b = 16"
  by (auto simp: v6_finish_def split: if_splits option.splits)

lemma parse_v6_length: "parse_v6 s = Some a \<Longrightarrow> \<exists>b z. a = Addr6 b z \<and> length b = 16"
  by (auto simp: parse_v6_def Let_def bind_eq_Some_conv split: if_splits
           intro!: v6_finish_length dest!: v6_loop_length)

lemma parse_ip_length: "parse_ip s \<noteq> [] \<Longrightarrow> length (parse_ip s) = 16"
  by (auto simp: parse_ip_def parse_addr_def split: option.splits if_splits netip.splits
           dest: parse_v4_length parse_v6_length)

text \<open>Printing concrete IPv4 endpoints by rewriting.\<close>

lemmas address_eval = udp_addr_string_def ip_string4 string4_def join_host_port_def nat_dec_eval

end
