(* ===== verification/Socks5_Wire.thy ===== *)
theory Socks5_Wire
  imports GoNet
begin

text \<open>
  The wire level of \<open>internal/socks5/server.go\<close>: method negotiation, user name and password
  authentication, request parsing, replies, and the UDP relay header. A TCP connection is what the
  peer will still send before end of file, what was written to the peer, and how many writes
  succeed before the connection breaks.
\<close>

section \<open>Constants and configuration\<close>

abbreviation (input) "socksVersion \<equiv> (5 :: byte)"
abbreviation (input) "authMethodNone \<equiv> (0 :: byte)"
abbreviation (input) "authMethodUserPass \<equiv> (2 :: byte)"
abbreviation (input) "authMethodRejected \<equiv> (0xFF :: byte)"
abbreviation (input) "commandConnect \<equiv> (1 :: byte)"
abbreviation (input) "commandUDPAssociate \<equiv> (3 :: byte)"
abbreviation (input) "addrTypeIPv4 \<equiv> (1 :: byte)"
abbreviation (input) "addrTypeDomain \<equiv> (3 :: byte)"
abbreviation (input) "addrTypeIPv6 \<equiv> (4 :: byte)"
abbreviation (input) "replySucceeded \<equiv> (0 :: byte)"
abbreviation (input) "replyGeneralFailure \<equiv> (1 :: byte)"
abbreviation (input) "replyCommandUnsupported \<equiv> (7 :: byte)"

record auth_config =
  auth_username :: string
  auth_password :: string

record server_config =
  listen_addr :: string
  public_host :: string
  public_port :: int
  allow_udp :: bool
  upstream_socks5_addr :: string
  srv_auth :: "auth_config option"
  udp_timeout :: int

section \<open>Connections\<close>

record conn =
  rx :: "byte list"
  tx :: "byte list"
  writes_left :: nat
  remote_ip :: "byte list"

definition read_exactly :: "nat \<Rightarrow> (conn, byte list) eff" where
  "read_exactly n c =
     (if n \<le> length (rx c) then (Inr (take n (rx c)), c\<lparr>rx := drop n (rx c)\<rparr>)
      else (Inl (errorf (if rx c = [] then ''EOF'' else ''unexpected EOF'')), c\<lparr>rx := []\<rparr>))"

definition conn_write :: "byte list \<Rightarrow> (conn, unit) eff" where
  "conn_write bs c =
     (case writes_left c of
        0 \<Rightarrow> (Inl (errorf ''write: broken pipe''), c)
      | Suc n \<Rightarrow> (Inr (), c\<lparr>tx := tx c @ bs, writes_left := n\<rparr>))"

fun contains_method :: "byte list \<Rightarrow> byte \<Rightarrow> bool" where
  "contains_method [] want = False"
| "contains_method (m # ms) want = (if m = want then True else contains_method ms want)"

definition split_host_port_int :: "string \<Rightarrow> string \<times> int" where
  "split_host_port_int addr =
     (case split_host_port addr of
        Inl _ \<Rightarrow> (''0.0.0.0'', 0)
      | Inr (host, port_text) \<Rightarrow>
          (case atoi port_text of Inl _ \<Rightarrow> (host, 0) | Inr port \<Rightarrow> (host, port)))"

section \<open>Authentication\<close>

definition verify_username_password :: "auth_config \<Rightarrow> (conn, unit) eff" where
  "verify_username_password a =
     andThen (read_exactly 1) (\<lambda>version.
     if version ! 0 \<noteq> 1
     then fail (errorf (''unsupported auth version '' @ nat_dec (unat (version ! 0))))
     else
     andThen (read_exactly 1) (\<lambda>user_len.
     andThen (read_exactly (unat (user_len ! 0))) (\<lambda>user.
     andThen (read_exactly 1) (\<lambda>pass_len.
     andThen (read_exactly (unat (pass_len ! 0))) (\<lambda>pass.
     let status = (if string_of_bytes user \<noteq> auth_username a \<or> string_of_bytes pass \<noteq> auth_password a
                   then 1 else 0 :: byte) in
     andThen (conn_write [1, status]) (\<lambda>_.
     if status \<noteq> 0 then fail (errorf ''invalid username or password'')
     else ret ()))))))"

definition negotiate_auth :: "server_config \<Rightarrow> (conn, unit) eff" where
  "negotiate_auth cfg =
     andThen (read_exactly 2) (\<lambda>head.
     if head ! 0 \<noteq> socksVersion
     then fail (errorf (''unsupported socks version '' @ nat_dec (unat (head ! 0))))
     else
     andThen (read_exactly (unat (head ! 1))) (\<lambda>methods.
     let required = (case srv_auth cfg of None \<Rightarrow> authMethodNone | Some _ \<Rightarrow> authMethodUserPass) in
     if \<not> contains_method methods required
     then andThen (ignoring (conn_write [socksVersion, authMethodRejected]))
            (\<lambda>_. fail (errorf ''no acceptable auth method''))
     else
     andThen (conn_write [socksVersion, required]) (\<lambda>_.
     case srv_auth cfg of
       None \<Rightarrow> ret ()
     | Some a \<Rightarrow> verify_username_password a)))"

section \<open>Requests and replies\<close>

definition read_address :: "byte \<Rightarrow> (conn, string) eff" where
  "read_address atyp =
     (if atyp = addrTypeIPv4 then
        andThen (read_exactly 4) (\<lambda>payload. ret (ip_string payload))
      else if atyp = addrTypeIPv6 then
        andThen (read_exactly 16) (\<lambda>payload. ret (ip_string payload))
      else if atyp = addrTypeDomain then
        andThen (read_exactly 1) (\<lambda>size.
        andThen (read_exactly (unat (size ! 0))) (\<lambda>payload. ret (string_of_bytes payload)))
      else fail (errorf (''unsupported address type '' @ nat_dec (unat atyp))))"

definition read_request :: "(conn, byte \<times> string) eff" where
  "read_request =
     andThen (read_exactly 4) (\<lambda>head.
     if head ! 0 \<noteq> socksVersion
     then fail (errorf (''unsupported socks version '' @ nat_dec (unat (head ! 0))))
     else
     andThen (read_address (head ! 3)) (\<lambda>address.
     andThen (read_exactly 2) (\<lambda>port_bytes.
     ret (head ! 1, join_host_port address (itoa (get_uint16 port_bytes))))))"

definition write_reply :: "byte \<Rightarrow> string \<Rightarrow> int \<Rightarrow> (conn, unit) eff" where
  "write_reply code host port =
     (let addr = (if parse_ip host = [] then parse_ip ''0.0.0.0'' else parse_ip host);
          host' = (if parse_ip host = [] then ''0.0.0.0'' else host);
          reply = [socksVersion, code, 0]
      in if ip_to4 addr \<noteq> [] then
           conn_write (reply @ [addrTypeIPv4] @ ip_to4 addr @ put_uint16 port)
         else if ip_to16 addr \<noteq> [] then
           conn_write (reply @ [addrTypeIPv6] @ ip_to16 addr @ put_uint16 port)
         else fail (errorf (''invalid reply host '' @ quoted host')))"

section \<open>The UDP relay header\<close>

text \<open>
  Slicing can panic. \<open>packet[lo:hi]\<close> needs \<open>lo <= hi <= cap(packet)\<close>, \<open>packet[lo:]\<close> needs
  \<open>lo <= len(packet)\<close>; the packet is a fresh copy whose capacity exceeds its length by some
  \<open>extra\<close> zero bytes that the allocator chose.
\<close>

datatype 'a go_result = GoOk 'a | GoErr go_error | GoPanic

definition slice_to :: "nat \<Rightarrow> byte list \<Rightarrow> nat \<Rightarrow> nat \<Rightarrow> byte list option" where
  "slice_to extra p lo hi =
     (if lo \<le> hi \<and> hi \<le> length p + extra
      then Some (take (hi - lo) (drop lo (p @ replicate extra 0))) else None)"

definition slice_from :: "byte list \<Rightarrow> nat \<Rightarrow> byte list option" where
  "slice_from p lo = (if lo \<le> length p then Some (drop lo p) else None)"

text \<open>The code after the address: the port at \<open>idx\<close>, the payload behind it.\<close>

definition parse_udp_tail :: "nat \<Rightarrow> byte list \<Rightarrow> string \<Rightarrow> nat \<Rightarrow> (string \<times> int \<times> byte list) go_result" where
  "parse_udp_tail extra packet host idx =
     (case slice_to extra packet idx (idx + 2) of
        None \<Rightarrow> GoPanic
      | Some port_bytes \<Rightarrow>
          (case slice_from packet (idx + 2) of
             None \<Rightarrow> GoPanic
           | Some payload \<Rightarrow> GoOk (host, get_uint16 port_bytes, payload)))"

definition parse_udp_packet :: "nat \<Rightarrow> byte list \<Rightarrow> (string \<times> int \<times> byte list) go_result" where
  "parse_udp_packet extra packet =
     (if length packet < 10 then GoErr (errorf ''udp packet too short'')
      else if packet ! 0 \<noteq> 0 \<or> packet ! 1 \<noteq> 0 \<or> packet ! 2 \<noteq> 0
      then GoErr (errorf ''invalid udp header'')
      else if packet ! 3 = addrTypeIPv4 then
        (case slice_to extra packet 4 (4 + 4) of
           None \<Rightarrow> GoPanic
         | Some b \<Rightarrow> parse_udp_tail extra packet (ip_string b) (4 + 4))
      else if packet ! 3 = addrTypeIPv6 then
        (case slice_to extra packet 4 (4 + 16) of
           None \<Rightarrow> GoPanic
         | Some b \<Rightarrow> parse_udp_tail extra packet (ip_string b) (4 + 16))
      else if packet ! 3 = addrTypeDomain then
        (let size = unat (packet ! 4) in
         case slice_to extra packet 5 (5 + size) of
           None \<Rightarrow> GoPanic
         | Some b \<Rightarrow> parse_udp_tail extra packet (string_of_bytes b) (5 + size))
      else GoErr (errorf (''unsupported udp address type '' @ nat_dec (unat (packet ! 3)))))"

definition build_udp_reply :: "string \<Rightarrow> int \<Rightarrow> byte list \<Rightarrow> go_error + byte list" where
  "build_udp_reply host port payload =
     (let addr = parse_ip host in
      if addr = [] then Inl (errorf (''invalid udp reply host '' @ quoted host))
      else if ip_to4 addr = [] then Inl (errorf ''only IPv4 udp replies are supported'')
      else Inr ([0, 0, 0, addrTypeIPv4] @ ip_to4 addr @ put_uint16 port @ payload))"

section \<open>Reading and writing\<close>

lemma read_exactly_Inr:
  "read_exactly n c = (Inr bs, c') \<longleftrightarrow>
     length bs = n \<and> rx c = bs @ rx c' \<and> c' = c\<lparr>rx := rx c'\<rparr>"
proof
  assume "read_exactly n c = (Inr bs, c')"
  then have "n \<le> length (rx c)" "bs = take n (rx c)" "c' = c\<lparr>rx := drop n (rx c)\<rparr>"
    by (auto simp: read_exactly_def split: if_splits)
  then show "length bs = n \<and> rx c = bs @ rx c' \<and> c' = c\<lparr>rx := rx c'\<rparr>"
    by simp
next
  assume "length bs = n \<and> rx c = bs @ rx c' \<and> c' = c\<lparr>rx := rx c'\<rparr>"
  then show "read_exactly n c = (Inr bs, c')"
    unfolding read_exactly_def by (metis append_eq_conv_conj le_add1 length_append)
qed

lemma read_exactly_append [simp]:
  "rx c = bs @ rest \<Longrightarrow> length bs = n \<Longrightarrow> read_exactly n c = (Inr bs, c\<lparr>rx := rest\<rparr>)"
  by (simp add: read_exactly_def)

lemma read_exactly_one [simp]:
  "rx c = b # rest \<Longrightarrow> read_exactly (Suc 0) c = (Inr [b], c\<lparr>rx := rest\<rparr>)"
  by (simp add: read_exactly_def)

lemma read_exactly_two [simp]:
  "rx c = a # b # rest \<Longrightarrow> read_exactly 2 c = (Inr [a, b], c\<lparr>rx := rest\<rparr>)"
  by (simp add: read_exactly_def)

lemma read_exactly_four [simp]:
  "rx c = a # b # d # e # rest \<Longrightarrow> read_exactly 4 c = (Inr [a, b, d, e], c\<lparr>rx := rest\<rparr>)"
  by (simp add: read_exactly_def)

lemma read_exactly_frame:
  "read_exactly n c = (r, c') \<Longrightarrow>
     tx c' = tx c \<and> writes_left c' = writes_left c \<and> remote_ip c' = remote_ip c"
  by (auto simp: read_exactly_def split: if_splits)

lemma read_exactly_short:
  "length (rx c) < n \<Longrightarrow>
   read_exactly n c = (Inl (errorf (if rx c = [] then ''EOF'' else ''unexpected EOF'')), c\<lparr>rx := []\<rparr>)"
  by (simp add: read_exactly_def)

lemma conn_write_Inr:
  "conn_write bs c = (Inr u, c') \<longleftrightarrow>
     0 < writes_left c \<and> c' = c\<lparr>tx := tx c @ bs, writes_left := writes_left c - 1\<rparr>"
  by (auto simp: conn_write_def split: nat.splits)

lemma conn_write_ok [simp]:
  "0 < writes_left c \<Longrightarrow>
   conn_write bs c = (Inr (), c\<lparr>tx := tx c @ bs, writes_left := writes_left c - 1\<rparr>)"
  by (simp add: conn_write_Inr)

lemma contains_method_iff: "contains_method ms want \<longleftrightarrow> want \<in> set ms"
  by (induction ms) auto

lemma length_1_list: "length bs = Suc 0 \<Longrightarrow> bs = [bs ! 0]"
  by (cases bs) auto

lemma length_2_list: "length bs = 2 \<Longrightarrow> bs = [bs ! 0, bs ! 1]"
  by (cases bs; cases "tl bs") auto

lemma word_of_nat_unat_length: "length bs = unat (w :: byte) \<Longrightarrow> word_of_nat (length bs) = w"
  by simp

lemmas read_write_iffs = andThen_Inr_iff read_exactly_Inr conn_write_Inr

section \<open>Authentication\<close>

text \<open>What a client sends to authenticate: RFC 1929, one length byte before each string.\<close>

definition user_pass_bytes :: "string \<Rightarrow> string \<Rightarrow> byte list" where
  "user_pass_bytes user pass =
     [1, word_of_nat (length user)] @ bytes_of_string user @
     [word_of_nat (length pass)] @ bytes_of_string pass"

lemma verify_Inr:
  assumes "verify_username_password a c = (Inr (), c')"
  shows "length (auth_username a) < 256 \<and> length (auth_password a) < 256 \<and>
         rx c = user_pass_bytes (auth_username a) (auth_password a) @ rx c' \<and>
         tx c' = tx c @ [1, 0]"
proof -
  from assms obtain version c1 ul c2 user c3 pl c4 pass c5 where
    r: "read_exactly 1 c = (Inr version, c1)" "version ! 0 = 1"
      "read_exactly 1 c1 = (Inr ul, c2)" "read_exactly (unat (ul ! 0)) c2 = (Inr user, c3)"
      "read_exactly 1 c3 = (Inr pl, c4)" "read_exactly (unat (pl ! 0)) c4 = (Inr pass, c5)"
    and ok: "string_of_bytes user = auth_username a" "string_of_bytes pass = auth_password a"
    and w: "tx c' = tx c5 @ [1, 0]" "rx c' = rx c5"
    by (auto simp: verify_username_password_def andThen_Inr_iff conn_write_Inr Let_def fail_def
             split: if_splits)
  have lists: "version = [1]" "ul = [ul ! 0]" "pl = [pl ! 0]"
    using r length_1_list[of version] length_1_list[of ul] length_1_list[of pl]
    by (auto simp: read_exactly_Inr)
  have lens: "length user = unat (ul ! 0)" "length pass = unat (pl ! 0)"
    using r by (simp_all add: read_exactly_Inr)
  have strs: "user = bytes_of_string (auth_username a)" "pass = bytes_of_string (auth_password a)"
    using ok by (metis bytes_of_string_of_bytes)+
  have "rx c = version @ ul @ user @ pl @ pass @ rx c5"
    using r by (simp add: read_exactly_Inr)
  moreover have "tx c5 = tx c"
    using r by (auto dest!: read_exactly_frame)
  ultimately show ?thesis
    using lists lens strs w
    by (auto simp: user_pass_bytes_def)
qed

lemma verify_eval:
  assumes "rx c = user_pass_bytes u p @ rest" "length u < 256" "length p < 256" "0 < writes_left c"
  shows "verify_username_password a c =
    (if u = auth_username a \<and> p = auth_password a
     then (Inr (), c\<lparr>rx := rest, tx := tx c @ [1, 0], writes_left := writes_left c - 1\<rparr>)
     else (Inl (errorf ''invalid username or password''),
           c\<lparr>rx := rest, tx := tx c @ [1, 1], writes_left := writes_left c - 1\<rparr>))"
  using assms
  by (simp add: verify_username_password_def user_pass_bytes_def andThen_def Let_def)

definition required_method :: "server_config \<Rightarrow> byte" where
  "required_method cfg = (case srv_auth cfg of None \<Rightarrow> authMethodNone | Some _ \<Rightarrow> authMethodUserPass)"

text \<open>The method selection message of RFC 1928.\<close>

definition greeting_bytes :: "byte list \<Rightarrow> byte list" where
  "greeting_bytes methods = [socksVersion, word_of_nat (length methods)] @ methods"

lemma negotiate_Inr:
  assumes "negotiate_auth cfg c = (Inr (), c')"
  shows "\<exists>methods c1. length methods < 256 \<and> required_method cfg \<in> set methods \<and>
           rx c = greeting_bytes methods @ rx c1 \<and> tx c1 = tx c @ [socksVersion, required_method cfg] \<and>
           (case srv_auth cfg of None \<Rightarrow> c' = c1
            | Some a \<Rightarrow> verify_username_password a c1 = (Inr (), c'))"
proof -
  from assms obtain head c1 methods c2 c3 where
    r: "read_exactly 2 c = (Inr head, c1)" "head ! 0 = socksVersion"
      "read_exactly (unat (head ! 1)) c1 = (Inr methods, c2)" "required_method cfg \<in> set methods"
      "conn_write [socksVersion, required_method cfg] c2 = (Inr (), c3)"
    and f: "case srv_auth cfg of None \<Rightarrow> c' = c3
            | Some a \<Rightarrow> verify_username_password a c3 = (Inr (), c')"
    by (auto simp: negotiate_auth_def andThen_Inr_iff Let_def fail_def ret_def required_method_def
                   contains_method_iff split: if_splits option.splits)
  have "head = [socksVersion, head ! 1]" "length methods = unat (head ! 1)"
    using r length_2_list[of head] by (auto simp: read_exactly_Inr)
  moreover have "tx c2 = tx c"
    using read_exactly_frame[OF r(1)] read_exactly_frame[OF r(3)] by simp
  ultimately show ?thesis
    using r f
    by (intro exI[of _ methods] exI[of _ c3])
       (auto simp: greeting_bytes_def read_exactly_Inr conn_write_Inr)
qed

lemma negotiate_eval:
  assumes "rx c = greeting_bytes methods @ rest" "length methods < 256" "0 < writes_left c"
  shows "negotiate_auth cfg c =
    (if required_method cfg \<in> set methods
     then (let c1 = c\<lparr>rx := rest, tx := tx c @ [socksVersion, required_method cfg],
                     writes_left := writes_left c - 1\<rparr>
           in case srv_auth cfg of None \<Rightarrow> (Inr (), c1) | Some a \<Rightarrow> verify_username_password a c1)
     else (Inl (errorf ''no acceptable auth method''),
           c\<lparr>rx := rest, tx := tx c @ [socksVersion, authMethodRejected],
             writes_left := writes_left c - 1\<rparr>))"
  using assms
  by (auto simp: negotiate_auth_def greeting_bytes_def andThen_def Let_def required_method_def
                 contains_method_iff ignoring_def split: option.split)

section \<open>Addresses, requests, replies\<close>

lemma read_address_v4: "read_address addrTypeIPv4 c = (Inr host, c') \<longleftrightarrow>
    (\<exists>b. read_exactly 4 c = (Inr b, c') \<and> host = ip_string b)"
  by (auto simp: read_address_def andThen_Inr_iff ret_def)

lemma reply_addr_cases:
  "ip_to4 a \<noteq> [] \<or> (ip_to4 a = [] \<and> ip_to16 a = a \<and> length a = 16)" if "length a = 16"
  using that by (auto simp: ip_to16_def)

lemma parse_ip_unspecified: "parse_ip ''0.0.0.0'' = v4_in_6_prefix @ [0, 0, 0, 0]"
proof -
  have "string4 [0, 0, 0, 0] = ''0.0.0.0''"
    by code_simp
  then show ?thesis
    using parse_ip_string4[of "[0, 0, 0, 0]"] by simp
qed

text \<open>The address bytes a reply carries: the parsed host, or \<open>0.0.0.0\<close> for a name.\<close>

definition reply_ip :: "string \<Rightarrow> byte list" where
  "reply_ip host = (if parse_ip host = [] then parse_ip ''0.0.0.0'' else parse_ip host)"

definition reply_bytes :: "byte \<Rightarrow> string \<Rightarrow> int \<Rightarrow> byte list" where
  "reply_bytes code host port =
     [socksVersion, code, 0] @
     (if ip_to4 (reply_ip host) \<noteq> [] then [addrTypeIPv4] @ ip_to4 (reply_ip host)
      else [addrTypeIPv6] @ reply_ip host) @ put_uint16 port"

lemma reply_ip_length [simp]: "length (reply_ip host) = 16"
  using parse_ip_length[of host] by (auto simp: reply_ip_def parse_ip_unspecified)

lemma write_reply_eq: "write_reply code host port = conn_write (reply_bytes code host port)"
  using reply_ip_length[of host]
  by (auto simp: write_reply_def reply_bytes_def reply_ip_def Let_def fun_eq_iff ip_to16_def)

lemma write_reply_never_invalid:
  "write_reply code host port c = (Inl e, c') \<Longrightarrow> e = errorf ''write: broken pipe'' \<and> c' = c"
  by (auto simp: write_reply_eq conn_write_def split: nat.splits)

section \<open>The UDP relay header\<close>

text \<open>The length of the header a packet announces, and the host it names.\<close>

definition udp_header_length :: "byte list \<Rightarrow> nat option" where
  "udp_header_length p =
     (if p ! 3 = addrTypeIPv4 then Some 10
      else if p ! 3 = addrTypeIPv6 then Some 22
      else if p ! 3 = addrTypeDomain then Some (7 + unat (p ! 4))
      else None)"

definition udp_host :: "byte list \<Rightarrow> string" where
  "udp_host p =
     (if p ! 3 = addrTypeIPv4 then ip_string (take 4 (drop 4 p))
      else if p ! 3 = addrTypeIPv6 then ip_string (take 16 (drop 4 p))
      else string_of_bytes (take (unat (p ! 4)) (drop 5 p)))"

definition udp_header_ok :: "byte list \<Rightarrow> bool" where
  "udp_header_ok p \<longleftrightarrow> 10 \<le> length p \<and> take 3 p = [0, 0, 0]"

lemma take_3_zero: "10 \<le> length p \<Longrightarrow> take 3 p = [0, 0, 0] \<longleftrightarrow> p ! 0 = 0 \<and> p ! 1 = 0 \<and> p ! 2 = (0::byte)"
  by (cases p; cases "tl p"; cases "tl (tl p)") (auto simp: numeral_eq_Suc)

lemma slice_to_within:
  "lo \<le> hi \<Longrightarrow> hi \<le> length p \<Longrightarrow> slice_to extra p lo hi = Some (take (hi - lo) (drop lo p))"
  by (simp add: slice_to_def)

lemma slice_from_iff: "slice_from p lo = (if lo \<le> length p then Some (drop lo p) else None)"
  by (simp add: slice_from_def)

lemma parse_udp_tail_eq:
  "parse_udp_tail extra p host idx =
     (if idx + 2 \<le> length p then GoOk (host, get_uint16 (drop idx p), drop (idx + 2) p) else GoPanic)"
proof (cases "idx + 2 \<le> length p")
  case True
  then have "get_uint16 (take 2 (drop idx p)) = get_uint16 (drop idx p)"
    by (cases "drop idx p"; cases "tl (drop idx p)") (auto simp: get_uint16_def)
  with True show ?thesis
    by (simp add: parse_udp_tail_def slice_to_within slice_from_iff)
next
  case False
  then show ?thesis
    by (simp add: parse_udp_tail_def slice_from_iff split: option.split)
qed

lemma parse_udp_packet_eq:
  assumes "udp_header_ok p" "udp_header_length p = Some h"
  shows "parse_udp_packet extra p =
    (if h \<le> length p then GoOk (udp_host p, get_uint16 (drop (h - 2) p), drop h p) else GoPanic)"
proof -
  have z: "p ! 0 = 0 \<and> p ! 1 = 0 \<and> p ! 2 = 0" "10 \<le> length p"
    using assms take_3_zero[of p] by (auto simp: udp_header_ok_def)
  consider "p ! 3 = addrTypeIPv4" "h = 10" | "p ! 3 = addrTypeIPv6" "h = 22"
    | "p ! 3 = addrTypeDomain" "h = 7 + unat (p ! 4)"
    using assms by (auto simp: udp_header_length_def split: if_splits)
  then show ?thesis
  proof cases
    case 1
    then show ?thesis
      using z by (simp add: parse_udp_packet_def slice_to_within parse_udp_tail_eq udp_host_def)
  next
    case 2
    then show ?thesis
      using z by (auto simp: parse_udp_packet_def slice_to_within parse_udp_tail_eq udp_host_def
                       split: option.split)
  next
    case 3
    then show ?thesis
      using z by (auto simp: parse_udp_packet_def Let_def slice_to_within parse_udp_tail_eq udp_host_def
                       split: option.split)
  qed
qed

lemma parse_udp_packet_refused:
  "\<not> udp_header_ok p \<Longrightarrow> \<exists>e. parse_udp_packet extra p = GoErr e"
  "udp_header_length p = None \<Longrightarrow> \<exists>e. parse_udp_packet extra p = GoErr e"
  using take_3_zero[of p]
  by (auto simp: parse_udp_packet_def udp_header_ok_def udp_header_length_def split: if_splits)

lemma build_udp_reply_Inr:
  "build_udp_reply host port payload = Inr pkt \<longleftrightarrow>
     ip_to4 (parse_ip host) \<noteq> [] \<and>
     pkt = [0, 0, 0, addrTypeIPv4] @ ip_to4 (parse_ip host) @ put_uint16 port @ payload"
  by (auto simp: build_udp_reply_def Let_def ip_to4_def)

lemma parse_udp_packet_v4:
  assumes "length ip = 4"
  shows "parse_udp_packet extra ([0, 0, 0, addrTypeIPv4] @ ip @ put_uint16 port @ payload) =
         GoOk (string4 ip, port mod 65536, payload)"
proof -
  let ?p = "[0, 0, 0, addrTypeIPv4] @ ip @ put_uint16 port @ payload"
  have ok: "udp_header_ok ?p" "udp_header_length ?p = Some 10"
    using assms by (simp_all add: udp_header_ok_def udp_header_length_def)
  have "drop 8 ?p = put_uint16 port @ payload" "drop 10 ?p = payload" "10 \<le> length ?p"
    using assms by simp_all
  moreover have "udp_host ?p = string4 ip"
    using assms by (simp add: udp_host_def ip_string4)
  ultimately show ?thesis
    using parse_udp_packet_eq[OF ok, of extra] by (simp add: get_put_uint16 del: append_Cons)
qed

end
