(* ===== verification/GoNet6.thy ===== *)
theory GoNet6
  imports GoNet
begin

text \<open>
  Printing and parsing an IP address are inverse: \<open>net.ParseIP(ip.String())\<close> is the address again,
  for IPv4 and for IPv6 with its compressed run of zero groups.
\<close>

section \<open>Hexadecimal groups\<close>

definition hexes :: "nat list \<Rightarrow> string" where
  "hexes xs = str_join '':'' (map nat_hex xs)"

lemma hexes_Nil [simp]: "hexes [] = []"
  by (simp add: hexes_def)

lemma hexes_single [simp]: "hexes [x] = nat_hex x"
  by (simp add: hexes_def)

lemma hexes_Cons: "ys \<noteq> [] \<Longrightarrow> hexes (x # ys) = nat_hex x @ CHR '':'' # hexes ys"
  by (cases ys) (auto simp: hexes_def)

lemma hex_value_snoc: "hex_value (hs @ [c]) = hex_value hs * 16 + the (hex_val c)"
  by (simp add: hex_value_def)

lemma hex_value_nat_hex [simp]: "hex_value (nat_hex n) = n"
proof (induction n rule: nat_hex.induct)
  case (1 n)
  show ?case
  proof (cases "n < 16")
    case True
    then show ?thesis by (subst nat_hex.simps) (simp add: hex_value_def hex_digit_hex_val)
  next
    case False
    with 1 show ?thesis by (subst nat_hex.simps) (simp add: hex_value_snoc hex_digit_hex_val)
  qed
qed

lemma nat_hex_nonempty [simp]: "nat_hex n \<noteq> []"
  by (subst nat_hex.simps) simp

lemma nat_hex_length: "n < 16 ^ Suc k \<Longrightarrow> length (nat_hex n) \<le> Suc k"
proof (induction k arbitrary: n)
  case 0
  then show ?case by (subst nat_hex.simps) simp
next
  case (Suc k)
  show ?case
  proof (cases "n < 16")
    case True
    then show ?thesis by (subst nat_hex.simps) simp
  next
    case False
    have "n div 16 < 16 ^ Suc k"
      using Suc.prems by (simp add: less_mult_imp_div_less mult.commute)
    then have "length (nat_hex (n div 16)) \<le> Suc k" by (rule Suc.IH)
    with False show ?thesis by (subst nat_hex.simps) simp
  qed
qed

lemma nat_hex_length4: "n < 65536 \<Longrightarrow> length (nat_hex n) \<le> 4"
  using nat_hex_length[of n 3] by simp

lemma hd_nat_hex: "hex_val (hd (nat_hex n)) \<noteq> None"
  by (rule nat_hex_chars[of _ n]) simp

lemma hexes_nonempty: "xs \<noteq> [] \<Longrightarrow> hexes xs \<noteq> []"
  by (cases xs; cases "tl xs") (auto simp: hexes_def)

lemma hd_hexes: "xs \<noteq> [] \<Longrightarrow> hex_val (hd (hexes xs)) \<noteq> None"
  using hd_nat_hex[of "hd xs"] by (cases xs; cases "tl xs") (auto simp: hexes_def)

lemma hd_hexes_colon: "xs \<noteq> [] \<Longrightarrow> hd (hexes xs) \<noteq> CHR '':''"
  using hd_hexes[of xs] by (metis hex_val_punct(3))

section \<open>The parser on printed groups\<close>

lemma takeWhile_nat_hex:
  "rest = [] \<or> hex_val (hd rest) = None \<Longrightarrow>
   takeWhile (\<lambda>c. hex_val c \<noteq> None) (nat_hex n @ rest) = nat_hex n \<and>
   dropWhile (\<lambda>c. hex_val c \<noteq> None) (nat_hex n @ rest) = rest"
  using nat_hex_chars[of _ n]
  by (cases rest) (auto simp: takeWhile_append2 dropWhile_append2 takeWhile_eq_all_conv)

lemma v6_loop_scan:
  assumes "length ip < 16" "n < 65536" "rest = [] \<or> hex_val (hd rest) = None"
  shows "v6_loop (nat_hex n @ rest) ip ell =
    (case rest of
       [] \<Rightarrow> Some ([], ip @ v6_group n, ell)
     | c # r \<Rightarrow>
         if c = CHR ''.'' then
           (if ell = None \<and> length ip \<noteq> 12 then None
            else if 16 < length ip + 4 then None
            else case parse_v4_fields (nat_hex n @ rest) of
                   None \<Rightarrow> None | Some b4 \<Rightarrow> Some ([], ip @ b4, ell))
         else if c \<noteq> CHR '':'' \<or> r = [] then None
         else if hd r = CHR '':'' then
           (if ell \<noteq> None then None
            else if tl r = [] then Some ([], ip @ v6_group n, Some (length (ip @ v6_group n)))
            else v6_loop (tl r) (ip @ v6_group n) (Some (length (ip @ v6_group n))))
         else v6_loop r (ip @ v6_group n) ell)"
proof -
  have tw: "takeWhile (\<lambda>c. hex_val c \<noteq> None) (nat_hex n @ rest) = nat_hex n"
    and dw: "dropWhile (\<lambda>c. hex_val c \<noteq> None) (nat_hex n @ rest) = rest"
    using takeWhile_nat_hex[OF assms(3)] by auto
  have "\<not> 16 \<le> length ip" "\<not> (nat_hex n = [] \<or> 4 < length (nat_hex n))"
    using assms nat_hex_length4[of n] by auto
  then show ?thesis
    unfolding v6_loop.simps[of "nat_hex n @ rest" ip ell] Let_def tw dw hex_value_nat_hex
    by (simp only: if_False)
qed

lemma v6_loop_last:
  assumes "length ip < 16" "n < 65536"
  shows "v6_loop (nat_hex n) ip ell = Some ([], ip @ v6_group n, ell)"
  using v6_loop_scan[OF assms, of "[]"] by simp

lemma v6_loop_group:
  assumes "length ip < 16" "n < 65536" "r \<noteq> []" "hd r \<noteq> CHR '':''"
  shows "v6_loop (nat_hex n @ CHR '':'' # r) ip ell = v6_loop r (ip @ v6_group n) ell"
  using v6_loop_scan[OF assms(1,2), of "CHR '':'' # r"] assms(3,4) by simp

lemma v6_loop_ellipsis:
  assumes "length ip < 16" "n < 65536"
  shows "v6_loop (nat_hex n @ CHR '':'' # CHR '':'' # r) ip None =
    (if r = [] then Some ([], ip @ v6_group n, Some (length ip + 2))
     else v6_loop r (ip @ v6_group n) (Some (length ip + 2)))"
  using v6_loop_scan[OF assms, of "CHR '':'' # CHR '':'' # r"] by (simp add: v6_group_def)

definition groups_bytes :: "nat list \<Rightarrow> byte list" where
  "groups_bytes xs = concat (map v6_group xs)"

lemma groups_bytes_simps [simp]:
  "groups_bytes [] = []" "groups_bytes (x # xs) = v6_group x @ groups_bytes xs"
  "groups_bytes (xs @ ys) = groups_bytes xs @ groups_bytes ys"
  by (simp_all add: groups_bytes_def)

lemma length_v6_group [simp]: "length (v6_group n) = 2"
  by (simp add: v6_group_def)

lemma length_groups_bytes [simp]: "length (groups_bytes xs) = 2 * length xs"
  by (induction xs) auto

lemma v6_loop_hexes:
  "xs \<noteq> [] \<Longrightarrow> \<forall>x \<in> set xs. x < 65536 \<Longrightarrow> length ip + 2 * length xs \<le> 16 \<Longrightarrow>
   v6_loop (hexes xs) ip ell = Some ([], ip @ groups_bytes xs, ell)"
proof (induction xs arbitrary: ip)
  case (Cons x xs)
  show ?case
  proof (cases "xs = []")
    case True
    with Cons.prems show ?thesis by (simp add: v6_loop_last)
  next
    case False
    with Cons show ?thesis
      by (simp add: hexes_Cons v6_loop_group hexes_nonempty hd_hexes_colon)
  qed
qed simp

lemma v6_loop_compressed:
  "xs \<noteq> [] \<Longrightarrow> \<forall>x \<in> set xs \<union> set ys. x < 65536 \<Longrightarrow> length ip + 2 * length xs + 2 * length ys < 16 \<Longrightarrow>
   v6_loop (hexes xs @ ''::'' @ hexes ys) ip None =
     Some ([], ip @ groups_bytes xs @ groups_bytes ys, Some (length ip + 2 * length xs))"
proof (induction xs arbitrary: ip)
  case (Cons x xs)
  show ?case
  proof (cases "xs = []")
    case True
    show ?thesis
    proof (cases "ys = []")
      case True
      with \<open>xs = []\<close> Cons.prems show ?thesis by (simp add: v6_loop_ellipsis)
    next
      case False
      with \<open>xs = []\<close> Cons.prems show ?thesis
        by (simp add: v6_loop_ellipsis hexes_nonempty v6_loop_hexes)
    qed
  next
    case False
    let ?r = "hexes xs @ ''::'' @ hexes ys"
    have "?r \<noteq> []" "hd ?r \<noteq> CHR '':''"
      using False by (simp_all add: hexes_nonempty hd_hexes_colon)
    then have "v6_loop (nat_hex x @ CHR '':'' # ?r) ip None = v6_loop ?r (ip @ v6_group x) None"
      using Cons.prems by (intro v6_loop_group) auto
    also have "\<dots> = Some ([], (ip @ v6_group x) @ groups_bytes xs @ groups_bytes ys,
                           Some (length (ip @ v6_group x) + 2 * length xs))"
      using Cons.prems False by (intro Cons.IH) auto
    finally show ?thesis
      using False by (simp add: hexes_Cons)
  qed
qed simp

section \<open>Groups and zero runs\<close>

lemma v6_group_of_bytes: "v6_group (unat a * 256 + unat b) = [a, b]"
proof -
  have "(unat a * 256 + unat b) div 256 = unat a" "(unat a * 256 + unat b) mod 256 = unat b"
    by simp_all
  then show ?thesis by (simp add: v6_group_def)
qed

lemma groups_bytes_v6_groups: "even (length b) \<Longrightarrow> groups_bytes (v6_groups b) = b"
  by (induction b rule: v6_groups.induct) (simp_all add: v6_group_of_bytes)

lemma length_v6_groups: "length (v6_groups b) = length b div 2"
  by (induction b rule: v6_groups.induct) simp_all

lemma v6_groups_bound: "g \<in> set (v6_groups b) \<Longrightarrow> g < 65536"
proof (induction b rule: v6_groups.induct)
  case (1 a b r)
  have "unat a * 256 + unat b < 65536"
    using unat_byte_less[of a] unat_byte_less[of b] by linarith
  with 1 show ?case by auto
qed simp_all

definition zero_segment :: "nat list \<Rightarrow> nat \<times> nat \<Rightarrow> bool" where
  "zero_segment gs r = (case r of (s, e) \<Rightarrow>
     s + 2 \<le> e \<and> e \<le> length gs \<and> take (e - s) (drop s gs) = replicate (e - s) 0)"

lemma zero_run_segment: "2 \<le> zero_run gs i \<Longrightarrow> i \<le> length gs \<Longrightarrow> zero_segment gs (i, i + zero_run gs i)"
proof -
  assume r: "2 \<le> zero_run gs i" "i \<le> length gs"
  have "take (zero_run gs i) (drop i gs) = takeWhile (\<lambda>g. g = 0) (drop i gs)"
    by (simp add: zero_run_def flip: takeWhile_eq_take)
  also have "\<dots> = replicate (zero_run gs i) 0"
    unfolding zero_run_def by (rule replicate_length_same[symmetric]) (auto dest: set_takeWhileD)
  moreover have "zero_run gs i \<le> length gs - i"
    unfolding zero_run_def using length_takeWhile_le[of _ "drop i gs"] by simp
  ultimately show ?thesis using r by (simp add: zero_segment_def)
qed

lemma best_zero_run_segment:
  assumes "length gs = 8" "best_zero_run gs = Some r"
  shows "zero_segment gs r"
proof -
  let ?f = "\<lambda>i best. let l = zero_run gs i in
             if 2 \<le> l \<and> (case best of None \<Rightarrow> True | Some (s, e) \<Rightarrow> e - s < l)
             then Some (i, i + l) else best"
  have "fold ?f is best = Some r \<Longrightarrow> \<forall>i \<in> set is. i \<le> 8 \<Longrightarrow>
        best = None \<or> zero_segment gs (the best) \<Longrightarrow> zero_segment gs r" for "is" best
  proof (induction "is" arbitrary: best)
    case (Cons i "is")
    have "?f i best = None \<or> zero_segment gs (the (?f i best))"
      using Cons.prems zero_run_segment[of gs i] assms(1) by (auto simp: Let_def)
    then show ?case
      using Cons.IH[of "?f i best"] Cons.prems by simp
  qed auto
  from this[of "[0 ..< 8]" None] assms show ?thesis
    by (auto simp: best_zero_run_def)
qed

lemma groups_bytes_zero: "groups_bytes (replicate n 0) = replicate (2 * n) 0"
  by (induction n) (auto simp: v6_group_def)

section \<open>The round trip\<close>

lemma string6_no_percent: "CHR ''%'' \<notin> set (string6 b)"
  using string6_chars[of "CHR ''%''" b] by auto

lemma parse_v6_plain:
  "CHR ''%'' \<notin> set s \<Longrightarrow> parse_v6 s =
     (if take 2 s = ''::'' then
        (if length s = 2 then Some (Addr6 (replicate 16 0) [])
         else map_option (\<lambda>b. Addr6 b []) (Option.bind (v6_loop (drop 2 s) [] (Some 0)) v6_finish))
      else map_option (\<lambda>b. Addr6 b []) (Option.bind (v6_loop s [] None) v6_finish))"
proof -
  assume no: "CHR ''%'' \<notin> set s"
  then have tw: "takeWhile (\<lambda>c. c \<noteq> CHR ''%'') s = s"
    by (auto simp: takeWhile_eq_all_conv)
  have zone: "drop (Suc (length s)) s = []" by simp
  show ?thesis unfolding parse_v6_def Let_def tw zone using no by simp
qed

lemma take2_hd: "hd s \<noteq> CHR '':'' \<Longrightarrow> take 2 s \<noteq> ''::''"
  by (cases s) auto

lemma parse_v6_string6:
  assumes "length b = 16"
  shows "parse_v6 (string6 b) = Some (Addr6 b [])"
proof -
  define gs where "gs = v6_groups b"
  have gs: "length gs = 8" "\<forall>g \<in> set gs. g < 65536" "groups_bytes gs = b"
    using assms v6_groups_bound[of _ b]
    by (auto simp: gs_def length_v6_groups groups_bytes_v6_groups)
  have no: "CHR ''%'' \<notin> set (string6 b)" by (rule string6_no_percent)
  show ?thesis
  proof (cases "best_zero_run gs")
    case None
    then have str: "string6 b = hexes gs"
      by (simp add: string6_def gs_def hexes_def Let_def)
    have "gs \<noteq> []" using gs by auto
    then have "take 2 (hexes gs) \<noteq> ''::''"
      by (intro take2_hd hd_hexes_colon)
    moreover have "v6_loop (hexes gs) [] None = Some ([], b, None)"
      using gs \<open>gs \<noteq> []\<close> by (subst v6_loop_hexes) auto
    ultimately show ?thesis
      using no assms by (simp add: str parse_v6_plain v6_finish_def)
  next
    case (Some r)
    obtain s e where r: "r = (s, e)" by (cases r)
    define xs ys where "xs = take s gs" and "ys = drop e gs"
    have seg: "s + 2 \<le> e" "e \<le> 8" "take (e - s) (drop s gs) = replicate (e - s) 0"
      using best_zero_run_segment[OF gs(1) Some] gs by (auto simp: r zero_segment_def)
    have "gs = xs @ take (e - s) (drop s gs) @ ys"
    proof -
      have "drop (e - s) (drop s gs) = ys" using seg(1) by (simp add: ys_def)
      then show ?thesis unfolding xs_def by (metis append_take_drop_id)
    qed
    then have b: "b = groups_bytes xs @ replicate (2 * (e - s)) 0 @ groups_bytes ys"
      using gs(3) seg(3) by (metis groups_bytes_simps(3) groups_bytes_zero)
    have len: "length xs = s" "length ys = 8 - e" and bnd: "\<forall>x \<in> set xs \<union> set ys. x < 65536"
      using gs seg by (auto simp: xs_def ys_def dest: in_set_takeD in_set_dropD)
    have str: "string6 b = hexes xs @ ''::'' @ hexes ys"
      using Some by (simp add: string6_def gs_def[symmetric] hexes_def Let_def r xs_def ys_def)
    have zeros: "16 - (2 * s + 2 * (8 - e)) = 2 * (e - s)"
      using seg by simp
    show ?thesis
    proof (cases "xs = []")
      case True
      show ?thesis
      proof (cases "ys = []")
        case True
        then have "string6 b = ''::''" "b = replicate 16 0"
          using str b len seg \<open>xs = []\<close> by simp_all
        then show ?thesis using no by (simp add: parse_v6_plain)
      next
        case False
        then have "v6_loop (hexes ys) [] (Some 0) = Some ([], groups_bytes ys, Some 0)"
          using bnd len by (subst v6_loop_hexes) auto
        then show ?thesis
          using no str \<open>xs = []\<close> b len seg False zeros
          by (simp add: parse_v6_plain v6_finish_def hexes_nonempty)
      qed
    next
      case False
      have "take 2 (hexes xs @ ''::'' @ hexes ys) \<noteq> ''::''"
        using False by (intro take2_hd) (simp add: hexes_nonempty hd_hexes_colon)
      moreover have "v6_loop (hexes xs @ ''::'' @ hexes ys) [] None =
          Some ([], groups_bytes xs @ groups_bytes ys, Some (2 * s))"
        using v6_loop_compressed[OF False bnd, of "[]"] len seg by simp
      ultimately show ?thesis
        using no str b len zeros seg by (simp add: parse_v6_plain v6_finish_def)
    qed
  qed
qed

lemma find_first_colon:
  "\<forall>c \<in> set s. hex_val c \<noteq> None \<or> c = CHR '':'' \<Longrightarrow> CHR '':'' \<in> set s \<Longrightarrow>
   find (\<lambda>c. c = CHR ''.'' \<or> c = CHR '':'' \<or> c = CHR ''%'') s = Some CHR '':''"
  by (induction s) auto

lemma string6_has_colon: "length b = 16 \<Longrightarrow> CHR '':'' \<in> set (string6 b)"
proof -
  assume "length b = 16"
  then have "length (v6_groups b) = 8" by (simp add: length_v6_groups)
  then obtain x y r where "v6_groups b = x # y # r"
    by (cases "v6_groups b"; cases "tl (v6_groups b)") auto
  then show ?thesis by (auto simp: string6_def Let_def split: option.split)
qed

lemma parse_addr_string6: "length b = 16 \<Longrightarrow> parse_addr (string6 b) = Some (Addr6 b [])"
  using string6_chars[of _ b] string6_has_colon[of b]
  by (simp add: parse_addr_def find_first_colon parse_v6_string6)

text \<open>\<open>net.ParseIP\<close> inverts \<open>IP.String\<close> on both families, up to the 16-byte form.\<close>

lemma parse_ip_string: "length ip = 4 \<or> length ip = 16 \<Longrightarrow> parse_ip (ip_string ip) = ip_to16 ip"
proof -
  assume len: "length ip = 4 \<or> length ip = 16"
  show ?thesis
  proof (cases "ip_to4 ip = []")
    case True
    with len have "length ip = 16" "ip_string ip = string6 ip"
      by (auto simp: ip_to4_def ip_string_def split: if_splits)
    then show ?thesis by (simp add: parse_ip_def parse_addr_string6 ip_to16_def)
  next
    case False
    then have "length (ip_to4 ip) = 4" by (rule ip_to4_length)
    moreover have "ip_string ip = string4 (ip_to4 ip)"
      using len False by (auto simp: ip_string_def)
    moreover have "v4_in_6_prefix @ ip_to4 ip = ip_to16 ip"
      using len False by (auto simp: ip_to4_def ip_to16_def split: if_splits) (metis append_take_drop_id)
    ultimately show ?thesis by (simp add: parse_ip_string4)
  qed
qed

text \<open>An address whose printed form parses to an IPv4 address is printed in dotted form.\<close>

lemma string4_of_printed:
  assumes "ip_to4 (parse_ip (ip_string ip)) \<noteq> []"
  shows "string4 (ip_to4 (parse_ip (ip_string ip))) = ip_string ip"
proof -
  have "length ip = 4 \<or> length ip = 16"
  proof (rule ccontr)
    assume len: "\<not> (length ip = 4 \<or> length ip = 16)"
    have "parse_addr (CHR ''?'' # s) = None \<or> CHR ''.'' \<in> set s \<or> CHR '':'' \<in> set s" for s
      by (auto simp: parse_addr_def find_Some_iff split: option.splits) (metis in_set_conv_nth)+
    moreover have "hex_val c \<noteq> None" if "c \<in> set (hex_bytes ip)" for c
    proof -
      have "\<exists>b :: byte. c = hex_digit (unat b div 16) \<or> c = hex_digit (unat b mod 16)"
        using that by (auto simp: hex_bytes_def)
      then obtain b :: byte where "c = hex_digit (unat b div 16) \<or> c = hex_digit (unat b mod 16)" ..
      moreover have "unat b div 16 < 16" using unat_byte_less[of b] by (simp add: less_mult_imp_div_less del: unat_byte_less)
      ultimately show ?thesis by (auto simp: hex_digit_hex_val)
    qed
    then have "CHR ''.'' \<notin> set (hex_bytes ip)" "CHR '':'' \<notin> set (hex_bytes ip)"
      by (metis hex_val_punct)+
    ultimately have "parse_addr (CHR ''?'' # hex_bytes ip) = None" by blast
    moreover have "parse_addr ''<nil>'' = None" by (simp add: parse_addr_def)
    ultimately have "parse_ip (ip_string ip) = []"
      using len by (auto simp: ip_string_def parse_ip_def)
    then show False using assms by (simp add: ip_to4_def)
  qed
  then have p: "parse_ip (ip_string ip) = ip_to16 ip" and
    "ip_to4 (ip_to16 ip) = ip_to4 ip" "ip_to4 ip \<noteq> [] \<Longrightarrow> ip_string ip = string4 (ip_to4 ip)"
    using parse_ip_string[of ip] by (auto simp: ip_to16_def ip_to4_def ip_string_def)
  then show ?thesis using assms by simp
qed

end
