(* ===== verification/Socks5_Client.thy ===== *)
theory Socks5_Client
  imports Socks5_Wire GoNet6
begin

text \<open>
  The SOCKS5 client of \<open>internal/socks5/config.go\<close> (\<open>Dialer\<close>): greeting, authentication and the
  CONNECT request. The TCP dialer, the deadline calls and Close are the operating system's, given
  as a record of functions on the outside state.
\<close>

section \<open>The dialer\<close>

record dialer =
  server_addr :: string
  dialer_auth :: "auth_config option"
  dialer_timeout :: int

text \<open>Go's \<open>%v\<close> of a byte slice.\<close>

definition show_bytes :: "byte list \<Rightarrow> string" where
  "show_bytes bs = ''['' @ str_join '' '' (map (\<lambda>b. nat_dec (unat b)) bs) @ '']''"

definition client_handshake :: "auth_config option \<Rightarrow> (conn, unit) eff" where
  "client_handshake auth =
     (case auth of
        None \<Rightarrow>
          andThen (conn_write [socksVersion, 1, authMethodNone]) (\<lambda>_.
          andThen (read_exactly 2) (\<lambda>reply.
          if reply ! 0 \<noteq> socksVersion \<or> reply ! 1 \<noteq> authMethodNone
          then fail (errorf (''unexpected socks5 greeting reply '' @ show_bytes reply))
          else ret ()))
      | Some a \<Rightarrow>
          andThen (conn_write [socksVersion, 1, authMethodUserPass]) (\<lambda>_.
          andThen (read_exactly 2) (\<lambda>reply.
          if reply ! 0 \<noteq> socksVersion \<or> reply ! 1 \<noteq> authMethodUserPass
          then fail (errorf (''unexpected auth greeting reply '' @ show_bytes reply))
          else
          let user = bytes_of_string (auth_username a);
              pass = bytes_of_string (auth_password a);
              req = [1, word_of_nat (length user)] @ user @ [word_of_nat (length pass)] @ pass
          in andThen (conn_write req) (\<lambda>_.
             andThen (read_exactly 2) (\<lambda>auth_reply.
             if auth_reply ! 0 \<noteq> 1 \<or> auth_reply ! 1 \<noteq> 0
             then fail (errorf (''unexpected auth reply '' @ show_bytes auth_reply))
             else ret ())))))"

text \<open>The request: version, command and reserved byte, the address in its shortest form, the port.\<close>

definition connect_address :: "string \<Rightarrow> byte list" where
  "connect_address host =
     (let ip = parse_ip host in
      if ip \<noteq> [] then
        (if ip_to4 ip \<noteq> [] then [addrTypeIPv4] @ ip_to4 ip else [addrTypeIPv6] @ ip_to16 ip)
      else [addrTypeDomain, word_of_nat (length host)] @ bytes_of_string host)"

definition connect_request :: "string \<Rightarrow> int \<Rightarrow> byte list" where
  "connect_request host port =
     [socksVersion, commandConnect, 0] @ connect_address host @ put_uint16 port"

definition read_bound_address :: "byte \<Rightarrow> (conn, unit) eff" where
  "read_bound_address atyp =
     (if atyp = addrTypeIPv4 then andThen (read_exactly 4) (\<lambda>_. ret ())
      else if atyp = addrTypeIPv6 then andThen (read_exactly 16) (\<lambda>_. ret ())
      else if atyp = addrTypeDomain then
        andThen (read_exactly 1) (\<lambda>len. andThen (read_exactly (unat (len ! 0))) (\<lambda>_. ret ()))
      else fail (errorf (''unexpected reply address type '' @ nat_dec (unat atyp))))"

definition client_connect :: "string \<Rightarrow> (conn, unit) eff" where
  "client_connect address =
     (case split_host_port address of
        Inl e \<Rightarrow> fail e
      | Inr (host, port_text) \<Rightarrow>
          (case atoi port_text of
             Inl e \<Rightarrow> fail e
           | Inr port \<Rightarrow>
               andThen (conn_write (connect_request host port)) (\<lambda>_.
               andThen (read_exactly 4) (\<lambda>head.
               if head ! 0 \<noteq> socksVersion \<or> head ! 1 \<noteq> replySucceeded
               then fail (errorf (''unexpected connect reply '' @ show_bytes head))
               else
               andThen (read_bound_address (head ! 3)) (\<lambda>_.
               andThen (read_exactly 2) (\<lambda>_. ret ()))))))"

text \<open>
  \<open>Dialer.DialContext\<close>. \<open>net_dial\<close> opens the TCP connection, \<open>net_set_deadline\<close> arms the deadline
  that many nanoseconds from now or, with None, clears it, \<open>net_close\<close> closes the connection.
\<close>

record 'w net_env =
  net_dial :: "string \<Rightarrow> ('w, conn) eff"
  net_set_deadline :: "conn \<Rightarrow> int option \<Rightarrow> ('w, unit) eff"
  net_close :: "conn \<Rightarrow> ('w, unit) eff"

definition dial_context :: "'w net_env \<Rightarrow> dialer \<Rightarrow> string \<Rightarrow> string \<Rightarrow> ('w, conn) eff" where
  "dial_context env d network address =
     (if network \<noteq> ''tcp'' then fail (errorf (''unsupported network '' @ quoted network))
      else
      let timeout = (if dialer_timeout d \<le> 0 then 10 * 1000000000 else dialer_timeout d) in
      andThen (net_dial env (server_addr d)) (\<lambda>c.
      attempt (net_set_deadline env c (Some timeout)) (\<lambda>r.
      case r of
        Inl e \<Rightarrow> andThen (ignoring (net_close env c)) (\<lambda>_. fail e)
      | Inr _ \<Rightarrow>
          (case client_handshake (dialer_auth d) c of
             (Inl e, c1) \<Rightarrow> andThen (ignoring (net_close env c1)) (\<lambda>_. fail e)
           | (Inr _, c1) \<Rightarrow>
               (case client_connect address c1 of
                  (Inl e, c2) \<Rightarrow> andThen (ignoring (net_close env c2)) (\<lambda>_. fail e)
                | (Inr _, c2) \<Rightarrow>
                    andThen (ignoring (net_set_deadline env c2 None)) (\<lambda>_. ret c2))))))"

section \<open>The transcript of a session\<close>

text \<open>What client and server exchange when both hold the same credentials.\<close>

definition client_transcript :: "auth_config option \<Rightarrow> string \<Rightarrow> int \<Rightarrow> byte list" where
  "client_transcript auth host port =
     (case auth of
        None \<Rightarrow> greeting_bytes [authMethodNone]
      | Some a \<Rightarrow> greeting_bytes [authMethodUserPass] @ user_pass_bytes (auth_username a) (auth_password a))
     @ connect_request host port"

definition server_transcript :: "auth_config option \<Rightarrow> string \<Rightarrow> int \<Rightarrow> byte list" where
  "server_transcript auth host port =
     (case auth of None \<Rightarrow> [socksVersion, authMethodNone]
      | Some a \<Rightarrow> [socksVersion, authMethodUserPass, 1, 0])
     @ reply_bytes replySucceeded host port"

definition credentials_fit :: "auth_config option \<Rightarrow> bool" where
  "credentials_fit auth =
     (case auth of None \<Rightarrow> True | Some a \<Rightarrow> length (auth_username a) < 256 \<and> length (auth_password a) < 256)"

text \<open>The name the server hands to its dialer: an IP literal comes back in its printed form.\<close>

definition canonical_host :: "string \<Rightarrow> string" where
  "canonical_host host = (if parse_ip host = [] then host else ip_string (parse_ip host))"

lemma ip_string_to16: "length ip = 4 \<Longrightarrow> ip_string (v4_in_6_prefix @ ip) = ip_string ip"
  by (subst (1 2) ip_string_def) (auto simp: ip_to4_def)

lemma canonical_host_printed:
  assumes "length ip = 4 \<or> length ip = 16"
  shows "canonical_host (ip_string ip) = ip_string ip"
proof -
  have "ip_string (ip_to16 ip) = ip_string ip" "ip_to16 ip \<noteq> []"
    using assms ip_string_to16[of ip] by (auto simp: ip_to16_def)
  then show ?thesis
    by (simp add: canonical_host_def parse_ip_string[OF assms])
qed

lemma ip_string_to4: "length ip = 16 \<Longrightarrow> ip_to4 ip \<noteq> [] \<Longrightarrow> ip_string (ip_to4 ip) = ip_string ip"
  using ip_to4_length[of ip] ip_string4[of "ip_to4 ip"] by (auto simp: ip_string_def)

lemma read_address_connect:
  assumes "rx c = tl (connect_address host) @ rest" "parse_ip host \<noteq> [] \<or> length host < 256"
  shows "read_address (hd (connect_address host)) c = (Inr (canonical_host host), c\<lparr>rx := rest\<rparr>)"
proof (cases "parse_ip host = []")
  case True
  with assms show ?thesis
    by (simp add: connect_address_def Let_def read_address_def andThen_def canonical_host_def)
next
  case False
  then have len: "length (parse_ip host) = 16" by (rule parse_ip_length)
  show ?thesis
  proof (cases "ip_to4 (parse_ip host) = []")
    case True
    with False len assms show ?thesis
      by (simp add: connect_address_def Let_def read_address_def andThen_def canonical_host_def ip_to16_def)
  next
    case v4: False
    with False len assms ip_to4_length[OF v4] show ?thesis
      by (simp add: connect_address_def Let_def read_address_def andThen_def canonical_host_def ip_string_to4)
  qed
qed

lemma connect_address_Cons: "connect_address host = hd (connect_address host) # tl (connect_address host)"
  by (simp add: connect_address_def Let_def)

lemma read_request_connect:
  assumes "rx c = connect_request host port @ rest" "parse_ip host \<noteq> [] \<or> length host < 256"
  shows "read_request c =
    (Inr (commandConnect, join_host_port (canonical_host host) (itoa (port mod 65536))), c\<lparr>rx := rest\<rparr>)"
proof -
  let ?atyp = "hd (connect_address host)"
  let ?c1 = "c\<lparr>rx := tl (connect_address host) @ put_uint16 port @ rest\<rparr>"
  have "rx c = socksVersion # commandConnect # 0 # ?atyp # tl (connect_address host) @ put_uint16 port @ rest"
    using assms(1) connect_address_Cons[of host] by (simp add: connect_request_def)
  then have "read_exactly 4 c = (Inr [socksVersion, commandConnect, 0, ?atyp], ?c1)" by simp
  moreover have "read_address ?atyp ?c1 = (Inr (canonical_host host), c\<lparr>rx := put_uint16 port @ rest\<rparr>)"
    using read_address_connect[of ?c1 host "put_uint16 port @ rest"] assms(2) by simp
  moreover have "read_exactly 2 (c\<lparr>rx := put_uint16 port @ rest\<rparr>) = (Inr (put_uint16 port), c\<lparr>rx := rest\<rparr>)"
    by simp
  moreover have "get_uint16 (put_uint16 port) = port mod 65536"
    using get_put_uint16[of port "[]"] by simp
  ultimately show ?thesis by (simp add: read_request_def)
qed

lemma client_handshake_eval:
  assumes "rx c = (case auth of None \<Rightarrow> [socksVersion, authMethodNone]
                   | Some a \<Rightarrow> [socksVersion, authMethodUserPass, 1, 0]) @ rest"
    and "2 \<le> writes_left c"
  shows "\<exists>c'. client_handshake auth c = (Inr (), c') \<and> rx c' = rest \<and>
    writes_left c - 2 \<le> writes_left c' \<and>
    tx c' = tx c @
      (case auth of None \<Rightarrow> greeting_bytes [authMethodNone]
       | Some a \<Rightarrow> greeting_bytes [authMethodUserPass] @ user_pass_bytes (auth_username a) (auth_password a))"
proof (cases auth)
  case None
  with assms show ?thesis
    by (simp add: client_handshake_def andThen_def greeting_bytes_def)
next
  case (Some a)
  with assms show ?thesis
    by (simp add: client_handshake_def andThen_def greeting_bytes_def user_pass_bytes_def Let_def)
qed

lemma read_bound_address_eval:
  assumes "rx c = ip @ rest" "length ip = 4 \<and> atyp = addrTypeIPv4 \<or> length ip = 16 \<and> atyp = addrTypeIPv6"
  shows "read_bound_address atyp c = (Inr (), c\<lparr>rx := rest\<rparr>)"
  using assms by (auto simp: read_bound_address_def andThen_def)

lemma client_connect_eval:
  assumes "split_host_port address = Inr (host, port_text)" "atoi port_text = Inr port"
    and "rx c = reply_bytes replySucceeded bhost bport @ rest" "0 < writes_left c"
  shows "client_connect address c =
    (Inr (), c\<lparr>rx := rest, tx := tx c @ connect_request host port, writes_left := writes_left c - 1\<rparr>)"
proof -
  define c0 where "c0 = c\<lparr>tx := tx c @ connect_request host port, writes_left := writes_left c - 1\<rparr>"
  define ip where "ip = (if ip_to4 (reply_ip bhost) \<noteq> [] then ip_to4 (reply_ip bhost) else reply_ip bhost)"
  define atyp where "atyp = (if ip_to4 (reply_ip bhost) \<noteq> [] then addrTypeIPv4 else addrTypeIPv6)"
  have lens: "length ip = 4 \<and> atyp = addrTypeIPv4 \<or> length ip = 16 \<and> atyp = addrTypeIPv6"
    using ip_to4_length[of "reply_ip bhost"] by (auto simp: ip_def atyp_def)
  have "rx c0 = socksVersion # replySucceeded # 0 # atyp # ip @ put_uint16 bport @ rest"
    using assms(3) by (auto simp: c0_def reply_bytes_def ip_def atyp_def)
  then have "read_exactly 4 c0 = (Inr [socksVersion, replySucceeded, 0, atyp],
      c0\<lparr>rx := ip @ put_uint16 bport @ rest\<rparr>)" by simp
  moreover have "read_bound_address atyp (c0\<lparr>rx := ip @ put_uint16 bport @ rest\<rparr>) =
      (Inr (), c0\<lparr>rx := put_uint16 bport @ rest\<rparr>)"
    using read_bound_address_eval[of "c0\<lparr>rx := ip @ put_uint16 bport @ rest\<rparr>" ip "put_uint16 bport @ rest" atyp]
      lens by simp
  moreover have "read_exactly 2 (c0\<lparr>rx := put_uint16 bport @ rest\<rparr>) = (Inr (put_uint16 bport), c0\<lparr>rx := rest\<rparr>)"
    by simp
  moreover have "conn_write (connect_request host port) c = (Inr (), c0)"
    using assms(4) by (simp add: c0_def)
  ultimately show ?thesis
    using assms(1,2) by (simp add: client_connect_def) (simp add: c0_def)
qed

text \<open>Dialer.DialContext never leaks a connection: when it fails, either the TCP dial itself
  failed and nothing else was done, or the last thing it did was to close the dialled connection;
  when it succeeds, the handshake and the CONNECT exchange succeeded in this order on the dialled
  connection, which it returns with the deadline cleared as its last act.\<close>

theorem dial_context_outcomes:
  assumes "dial_context env d network address w = (r, w')"
  shows "case r of
     Inl e \<Rightarrow> (network \<noteq> ''tcp'' \<and> w' = w) \<or> net_dial env (server_addr d) w = (Inl e, w') \<or>
       (\<exists>c0 c v. fst (net_dial env (server_addr d) w) = Inr c0 \<and> w' = snd (net_close env c v))
   | Inr c2 \<Rightarrow> network = ''tcp'' \<and> (\<exists>c0 w0 c1 v.
       net_dial env (server_addr d) w = (Inr c0, w0) \<and>
       client_handshake (dialer_auth d) c0 = (Inr (), c1) \<and>
       client_connect address c1 = (Inr (), c2) \<and> w' = snd (net_set_deadline env c2 None v))"
  using assms
  by (auto simp: dial_context_def Let_def andThen_def attempt_def ignoring_def fail_def ret_def
           split: if_splits prod.splits sum.splits)

lemma dial_context_outcomes_witness:
  "let r = dial_context \<lparr>net_dial = \<lambda>a n. (Inr \<lparr>rx = [4, 0], tx = [], writes_left = 9, remote_ip = []\<rparr>, Suc n),
        net_set_deadline = \<lambda>c d n. (Inr (), n), net_close = \<lambda>c n. (Inr (), n + 100)\<rparr>
      \<lparr>server_addr = ''p:1'', dialer_auth = None, dialer_timeout = 0\<rparr> ''tcp'' ''a:1'' (0::nat)
   in (\<exists>e. fst r = Inl e) \<and> 100 \<le> snd r"
proof -
  let ?env = "\<lparr>net_dial = \<lambda>a n. (Inr \<lparr>rx = [4, 0], tx = [], writes_left = 9, remote_ip = []\<rparr>, Suc n),
        net_set_deadline = \<lambda>c d n. (Inr (), n), net_close = \<lambda>c n. (Inr (), n + 100)\<rparr>"
  let ?d = "\<lparr>server_addr = ''p:1'', dialer_auth = None, dialer_timeout = 0\<rparr>"
  let ?r = "dial_context ?env ?d ''tcp'' ''a:1'' (0::nat)"
  have err: "\<exists>e. fst ?r = Inl e"
    by (simp add: dial_context_def Let_def andThen_def attempt_def ignoring_def client_handshake_def fail_def)
  then obtain e where e: "?r = (Inl e, snd ?r)" by (metis prod.collapse)
  have "\<exists>c v. snd ?r = snd (net_close ?env c v)"
    using dial_context_outcomes[OF e] by auto
  then have "100 \<le> snd ?r" by auto
  with err show ?thesis unfolding Let_def by (rule conjI)
qed

end
