(* ===== verification/Socks5_Assoc.thy ===== *)
theory Socks5_Assoc
  imports GoNet "HOL-Library.AList" "HOL-Library.Multiset"
begin

text \<open>
  The UDP associations of \<open>internal/socks5/server.go\<close>: the map from the printed client address to
  the association, and its mutex-protected operations. An association is shared by reference
  (adoption rewrites its client address in place), so the model has an explicit store: a pointer is
  an index into the list of allocated associations. The map is an association list; its order is
  the iteration order, which Go leaves open.
\<close>

record association =
  client_addr :: "udp_addr option"
  assoc_conn :: nat

record assoc_table =
  heap :: "association list"
  assocs :: "(string \<times> nat) list"

definition empty_table :: assoc_table where
  "empty_table = \<lparr>heap = [], assocs = []\<rparr>"

section \<open>Operations\<close>

definition store_association :: "udp_addr \<Rightarrow> nat \<Rightarrow> assoc_table \<Rightarrow> assoc_table" where
  "store_association addr p t = t\<lparr>assocs := AList.update (udp_addr_string addr) p (assocs t)\<rparr>"

definition delete_association :: "udp_addr \<Rightarrow> assoc_table \<Rightarrow> assoc_table" where
  "delete_association addr t = t\<lparr>assocs := AList.delete (udp_addr_string addr) (assocs t)\<rparr>"

definition lookup_association :: "udp_addr \<Rightarrow> assoc_table \<Rightarrow> nat option" where
  "lookup_association addr t = map_of (assocs t) (udp_addr_string addr)"

text \<open>\<open>&association{...}\<close> followed by \<open>storeAssociation\<close>, as \<open>handleUDPAssociate\<close> does.\<close>

definition new_association :: "udp_addr \<Rightarrow> nat \<Rightarrow> assoc_table \<Rightarrow> nat \<times> assoc_table" where
  "new_association addr c t =
     (let p = length (heap t)
      in (p, store_association addr p
               (t\<lparr>heap := heap t @ [\<lparr>client_addr = Some addr, assoc_conn = c\<rparr>]\<rparr>)))"

definition clone_udp_addr :: "udp_addr \<Rightarrow> udp_addr" where
  "clone_udp_addr a = \<lparr>u_ip = u_ip a, u_port = u_port a, u_zone = u_zone a\<rparr>"

definition adopt_association_locked :: "string \<Rightarrow> nat \<Rightarrow> udp_addr \<Rightarrow> assoc_table \<Rightarrow> assoc_table" where
  "adopt_association_locked key p addr t =
     (let cloned = clone_udp_addr addr in
      t\<lparr>heap := (heap t)[p := (heap t ! p)\<lparr>client_addr := Some cloned\<rparr>],
        assocs := AList.update (udp_addr_string cloned) p (AList.delete key (assocs t))\<rparr>)"

text \<open>The two \<open>continue\<close> guards of the loop, negated.\<close>

definition source_matches :: "udp_addr option \<Rightarrow> udp_addr \<Rightarrow> bool" where
  "source_matches ca addr =
     (case ca of
        None \<Rightarrow> False
      | Some a \<Rightarrow>
          u_port a = u_port addr \<and>
          \<not> (u_ip a \<noteq> [] \<and> \<not> ip_is_loopback (u_ip a) \<and> \<not> ip_is_unspecified (u_ip a)
             \<and> \<not> ip_equal (u_ip a) (u_ip addr)))"

fun scan_matching :: "association list \<Rightarrow> udp_addr \<Rightarrow> (string \<times> nat) option \<Rightarrow> (string \<times> nat) list
    \<Rightarrow> (string \<times> nat) option" where
  "scan_matching h addr m [] = m"
| "scan_matching h addr m ((key, p) # rest) =
     (if \<not> source_matches (client_addr (h ! p)) addr then scan_matching h addr m rest
      else if m \<noteq> None then None
      else scan_matching h addr (Some (key, p)) rest)"

definition adopt_matching_source_port :: "udp_addr \<Rightarrow> assoc_table \<Rightarrow> nat option \<times> assoc_table" where
  "adopt_matching_source_port addr t =
     (case lookup_association addr t of
        Some p \<Rightarrow> (Some p, t)
      | None \<Rightarrow>
          (case scan_matching (heap t) addr None (assocs t) of
             None \<Rightarrow> (None, t)
           | Some (key, p) \<Rightarrow> (Some p, adopt_association_locked key p addr t)))"

definition adopt_sole_association :: "udp_addr \<Rightarrow> assoc_table \<Rightarrow> nat option \<times> assoc_table" where
  "adopt_sole_association addr t =
     (case lookup_association addr t of
        Some p \<Rightarrow> (Some p, t)
      | None \<Rightarrow>
          (case assocs t of
             [(key, p)] \<Rightarrow> (Some p, adopt_association_locked key p addr t)
           | _ \<Rightarrow> (None, t)))"

definition association_for_source :: "udp_addr \<Rightarrow> assoc_table \<Rightarrow> nat option \<times> assoc_table" where
  "association_for_source addr t =
     (case lookup_association addr t of
        Some p \<Rightarrow> (Some p, t)
      | None \<Rightarrow>
          (case adopt_matching_source_port addr t of
             (Some p, t') \<Rightarrow> (Some p, t')
           | (None, t') \<Rightarrow> adopt_sole_association addr t'))"

text \<open>\<open>Server.Close\<close> empties the map.\<close>

definition clear_associations :: "assoc_table \<Rightarrow> assoc_table" where
  "clear_associations t = t\<lparr>assocs := []\<rparr>"

section \<open>The invariant\<close>

text \<open>
  Keys are distinct, every pointer is allocated, and every association is filed under the printed
  form of the client address it currently holds.
\<close>

definition table_inv :: "assoc_table \<Rightarrow> bool" where
  "table_inv t \<longleftrightarrow>
     distinct (map fst (assocs t)) \<and>
     (\<forall>(k, p) \<in> set (assocs t). p < length (heap t) \<and>
        (\<exists>a. client_addr (heap t ! p) = Some a \<and> udp_addr_string a = k))"

lemma table_invD:
  assumes "table_inv t" "(k, p) \<in> set (assocs t)"
  shows "p < length (heap t)" "\<exists>a. client_addr (heap t ! p) = Some a \<and> udp_addr_string a = k"
  using assms by (auto simp: table_inv_def)

lemma clone_string [simp]: "udp_addr_string (clone_udp_addr a) = udp_addr_string a"
  by (simp add: udp_addr_string_def clone_udp_addr_def)

lemma clone_id: "clone_udp_addr a = a"
  by (simp add: clone_udp_addr_def)

lemma table_inv_empty [simp]: "table_inv empty_table"
  by (simp add: table_inv_def empty_table_def)

lemma set_AList_update:
  "distinct (map fst al) \<Longrightarrow> set (AList.update k v al) = {(k, v)} \<union> {x \<in> set al. fst x \<noteq> k}"
  by (induction al) (auto simp: image_iff)

lemma set_AList_delete: "set (AList.delete k al) = {x \<in> set al. fst x \<noteq> k}"
  by (auto simp: AList.delete_eq)

lemma table_inv_new: "table_inv t \<Longrightarrow> table_inv (snd (new_association a c t))"
  unfolding table_inv_def
  by (auto simp: new_association_def store_association_def Let_def distinct_update set_AList_update
                 nth_append split: prod.splits)

lemma table_inv_delete: "table_inv t \<Longrightarrow> table_inv (delete_association a t)"
  by (auto simp: table_inv_def delete_association_def distinct_delete set_AList_delete)

lemma table_inv_clear: "table_inv (clear_associations t)"
  by (simp add: table_inv_def clear_associations_def)

text \<open>One pointer is never filed twice.\<close>

lemma table_inv_pointer_unique:
  "table_inv t \<Longrightarrow> (k, p) \<in> set (assocs t) \<Longrightarrow> (k', p) \<in> set (assocs t) \<Longrightarrow> k = k'"
  by (metis table_invD(2) option.inject)

lemma table_inv_adopt:
  assumes "table_inv t" "(key, p) \<in> set (assocs t)"
  shows "table_inv (adopt_association_locked key p addr t)"
proof -
  have p: "p < length (heap t)" using assms by (rule table_invD)
  have other: "q \<noteq> p" if "(k, q) \<in> set (assocs t)" "k \<noteq> key" for k q
    using table_inv_pointer_unique[OF assms(1) assms(2)] that by blast
  have "distinct (map fst (AList.delete key (assocs t)))"
    using assms(1) by (simp add: table_inv_def distinct_delete)
  then show ?thesis
    using assms(1) p other
    by (auto simp: table_inv_def adopt_association_locked_def Let_def distinct_update
          set_AList_update set_AList_delete nth_list_update)
qed

lemma scan_matching_mem:
  "scan_matching h addr m al = Some x \<Longrightarrow> m = Some x \<or> (x \<in> set al \<and> source_matches (client_addr (h ! snd x)) addr)"
  by (induction h addr m al rule: scan_matching.induct) (auto split: if_splits)

lemma table_inv_adopt_port: "table_inv t \<Longrightarrow> table_inv (snd (adopt_matching_source_port addr t))"
  by (auto simp: adopt_matching_source_port_def intro!: table_inv_adopt
           dest!: scan_matching_mem split: option.split prod.split)

lemma table_inv_adopt_sole: "table_inv t \<Longrightarrow> table_inv (snd (adopt_sole_association addr t))"
  by (auto simp: adopt_sole_association_def intro!: table_inv_adopt split: option.split list.split)

lemma table_inv_for_source: "table_inv t \<Longrightarrow> table_inv (snd (association_for_source addr t))"
  using table_inv_adopt_port[of t addr]
  by (auto simp: association_for_source_def intro: table_inv_adopt_sole split: option.split prod.split)

section \<open>Lookup after each operation\<close>

lemma lookup_store [simp]:
  "lookup_association a (store_association b p t) =
     (if udp_addr_string a = udp_addr_string b then Some p else lookup_association a t)"
  by (simp add: lookup_association_def store_association_def update_conv)

lemma lookup_delete [simp]:
  "lookup_association a (delete_association b t) =
     (if udp_addr_string a = udp_addr_string b then None else lookup_association a t)"
  by (simp add: lookup_association_def delete_association_def delete_conv)

lemma lookup_adopt:
  "lookup_association a (adopt_association_locked key p addr t) =
     (if udp_addr_string a = udp_addr_string addr then Some p
      else if udp_addr_string a = key then None
      else lookup_association a t)"
  by (simp add: lookup_association_def adopt_association_locked_def Let_def update_conv delete_conv)

lemma lookup_new:
  "lookup_association a (snd (new_association b c t)) =
     (if udp_addr_string a = udp_addr_string b then Some (length (heap t)) else lookup_association a t)"
  by (simp add: new_association_def Let_def) (simp add: lookup_association_def)

lemma lookup_mem: "lookup_association a t = Some p \<Longrightarrow> (udp_addr_string a, p) \<in> set (assocs t)"
  by (auto simp: lookup_association_def dest: map_of_SomeD)

section \<open>The choice of an association\<close>

text \<open>The loop returns the only matching entry, or nothing: the iteration order does not matter.\<close>

definition entry_matches :: "association list \<Rightarrow> udp_addr \<Rightarrow> string \<times> nat \<Rightarrow> bool" where
  "entry_matches h addr = (\<lambda>e. source_matches (client_addr (h ! snd e)) addr)"

lemma scan_matching_found:
  "scan_matching h addr (Some x) al = (if filter (entry_matches h addr) al = [] then Some x else None)"
  by (induction al) (auto simp: entry_matches_def)

definition only_one :: "'a list \<Rightarrow> 'a option" where
  "only_one xs = (case xs of [x] \<Rightarrow> Some x | _ \<Rightarrow> None)"

lemma only_one_Some: "only_one xs = Some x \<longleftrightarrow> xs = [x]"
  by (auto simp: only_one_def split: list.splits)

lemma only_one_perm: "mset xs = mset ys \<Longrightarrow> only_one xs = only_one ys"
proof -
  assume eq: "mset xs = mset ys"
  have "xs = [x] \<longleftrightarrow> ys = [x]" for x
    using eq by (metis mset_single_iff mset_single_iff_right mset.simps(1,2) add_mset_add_single)
  then have "only_one xs = Some x \<longleftrightarrow> only_one ys = Some x" for x
    by (simp add: only_one_Some)
  then show ?thesis by (metis not_None_eq)
qed

lemma scan_matching_eq: "scan_matching h addr None al = only_one (filter (entry_matches h addr) al)"
  by (induction al) (auto simp: entry_matches_def scan_matching_found only_one_def split: list.splits)

lemma scan_matching_perm:
  "mset al = mset al' \<Longrightarrow> scan_matching h addr None al = scan_matching h addr None al'"
  unfolding scan_matching_eq by (rule only_one_perm) (simp add: mset_filter)

lemma map_of_perm:
  "distinct (map fst al) \<Longrightarrow> mset al = mset al' \<Longrightarrow> map_of al = map_of al'"
proof -
  assume d: "distinct (map fst al)" and eq: "mset al = mset al'"
  have "distinct (map fst al')" "set al = set al'"
    using d eq by (metis mset_eq_imp_distinct_iff mset_map, metis mset_eq_setD)
  then have "map_of al k = Some v \<longleftrightarrow> map_of al' k = Some v" for k v
    using d by (simp add: map_of_eq_Some_iff)
  then show ?thesis by (metis not_None_eq ext)
qed

text \<open>What \<open>associationForSource\<close> returns and leaves, in one equation.\<close>

lemma adopt_sole_eq:
  "adopt_sole_association addr t =
     (case lookup_association addr t of
        Some p \<Rightarrow> (Some p, t)
      | None \<Rightarrow>
          (case only_one (assocs t) of
             Some (key, p) \<Rightarrow> (Some p, adopt_association_locked key p addr t)
           | None \<Rightarrow> (None, t)))"
  by (simp add: adopt_sole_association_def only_one_def split: option.split list.split prod.split)

lemma association_for_source_eq:
  "association_for_source addr t =
     (case lookup_association addr t of
        Some p \<Rightarrow> (Some p, t)
      | None \<Rightarrow>
          (case only_one (filter (entry_matches (heap t) addr) (assocs t)) of
             Some (key, p) \<Rightarrow> (Some p, adopt_association_locked key p addr t)
           | None \<Rightarrow>
               (case only_one (assocs t) of
                  Some (key, p) \<Rightarrow> (Some p, adopt_association_locked key p addr t)
                | None \<Rightarrow> (None, t))))"
proof (cases "lookup_association addr t")
  case (Some p)
  then show ?thesis by (simp add: association_for_source_def)
next
  case None
  then show ?thesis
    by (cases "only_one (filter (entry_matches (heap t) addr) (assocs t))")
       (auto simp: association_for_source_def adopt_matching_source_port_def adopt_sole_eq scan_matching_eq)
qed

lemma association_for_source_cases:
  assumes "association_for_source addr t = (Some p, t')"
  obtains (known) "lookup_association addr t = Some p" "t' = t"
  | (adopted) key where "lookup_association addr t = None" "(key, p) \<in> set (assocs t)"
      "t' = adopt_association_locked key p addr t"
      "source_matches (client_addr (heap t ! p)) addr \<or> assocs t = [(key, p)]"
proof (cases "lookup_association addr t")
  case (Some q)
  then have "q = p" "t' = t" using assms by (simp_all add: association_for_source_eq)
  with Some known show ?thesis by blast
next
  case None
  show ?thesis
  proof (cases "only_one (filter (entry_matches (heap t) addr) (assocs t))")
    case None': (Some e)
    obtain key q where e: "e = (key, q)" by (cases e)
    then have "(key, q) \<in> set (filter (entry_matches (heap t) addr) (assocs t))"
      using None' by (simp add: only_one_Some)
    then have "(key, q) \<in> set (assocs t)" "source_matches (client_addr (heap t ! q)) addr"
      by (simp_all add: entry_matches_def)
    moreover have "q = p" "t' = adopt_association_locked key q addr t"
      using None assms None' e by (auto simp: association_for_source_eq)
    ultimately show ?thesis
      using adopted[of key] None by blast
  next
    case no_match: None
    then obtain key where "only_one (assocs t) = Some (key, p)"
        "t' = adopt_association_locked key p addr t"
      using assms None by (auto simp: association_for_source_eq split: option.splits)
    then show ?thesis
      using adopted[of key] None by (auto simp only: only_one_Some list.set_intros)
  qed
qed

lemma association_for_source_None: "association_for_source addr t = (None, t') \<Longrightarrow> t' = t"
  by (auto simp: association_for_source_eq split: option.splits)

lemma adopt_client_addr:
  "table_inv t \<Longrightarrow> (key, p) \<in> set (assocs t) \<Longrightarrow>
   client_addr (heap (adopt_association_locked key p addr t) ! p) = Some addr"
  by (auto simp: adopt_association_locked_def Let_def clone_id dest: table_invD(1))

lemma association_for_source_client:
  assumes "table_inv t" "association_for_source src t = (Some p, t')"
  shows "\<exists>a. client_addr (heap t' ! p) = Some a \<and> udp_addr_string a = udp_addr_string src"
  using assms(2)
proof (cases rule: association_for_source_cases)
  case known
  then show ?thesis using assms(1) by (auto dest: lookup_mem table_invD(2))
next
  case (adopted key)
  then show ?thesis using adopt_client_addr[OF assms(1)] by simp
qed

section \<open>The map as an interface\<close>

text \<open>
  What the handlers rely on: a keyed map. \<open>handleUDPAssociate\<close> stores its entry on entry and deletes
  it when the control connection ends; the lemmas are about that bracket.
\<close>

locale keyed_store =
  fixes key :: "'a \<Rightarrow> 'k"
    and find_at :: "'a \<Rightarrow> 't \<Rightarrow> 'v option"
    and put_at :: "'a \<Rightarrow> 'v \<Rightarrow> 't \<Rightarrow> 't"
    and del_at :: "'a \<Rightarrow> 't \<Rightarrow> 't"
  assumes find_put: "find_at b (put_at a v t) = (if key b = key a then Some v else find_at b t)"
    and find_del: "find_at b (del_at a t) = (if key b = key a then None else find_at b t)"
begin

lemmas store_laws = find_put find_del

lemma bracket_removes: "find_at b (del_at a (put_at a v t)) = find_at b (del_at a t)"
  by (simp add: store_laws)

lemma last_put_wins: "find_at b (put_at a v (put_at a v' t)) = find_at b (put_at a v t)"
  by (simp add: store_laws)

lemma del_other: "key b \<noteq> key a \<Longrightarrow> find_at b (del_at a t) = find_at b t"
  by (simp add: store_laws)

lemma del_after_put_other:
  "key a \<noteq> key c \<Longrightarrow> find_at b (del_at a (put_at c v t)) = find_at b (put_at c v (del_at a t))"
  by (simp add: store_laws)

end

interpretation assoc_map: keyed_store udp_addr_string lookup_association store_association delete_association
  by unfold_locales simp_all

section \<open>Every sequence of locked operations\<close>

text \<open>
  The mutex makes each operation atomic; connection handlers, packet handlers and Close interleave
  in any order and with any arguments.
\<close>

inductive table_step :: "assoc_table \<Rightarrow> assoc_table \<Rightarrow> bool" where
  associate: "table_step t (snd (new_association a c t))"
| finish: "table_step t (delete_association a t)"
| adopt_port: "table_step t (snd (adopt_matching_source_port src t))"
| adopt_sole: "table_step t (snd (adopt_sole_association src t))"
| close: "table_step t (clear_associations t)"

inductive table_reachable :: "assoc_table \<Rightarrow> bool" where
  start: "table_reachable empty_table"
| step: "table_reachable t \<Longrightarrow> table_step t t' \<Longrightarrow> table_reachable t'"

inductive_cases table_step_cases: "table_step t t'"

lemma table_step_inv: "table_step t t' \<Longrightarrow> table_inv t \<Longrightarrow> table_inv t'"
  by (induction rule: table_step.induct)
     (auto intro: table_inv_new table_inv_delete table_inv_adopt_port table_inv_adopt_sole table_inv_clear)

text \<open>C31: In every state the UDP association map can reach, whatever the interleaving of handlers,
  packets and Close: keys are distinct, every pointer is allocated, and every association is filed
  under the printed form of the client address it currently holds.\<close>

theorem association_map_invariant:
  assumes "table_reachable t"
  shows "distinct (map fst (assocs t)) \<and>
    (\<forall>(k, p) \<in> set (assocs t). p < length (heap t) \<and>
       (\<exists>a. client_addr (heap t ! p) = Some a \<and> udp_addr_string a = k))"
proof -
  from assms have "table_inv t"
    by (induction rule: table_reachable.induct) (auto intro: table_step_inv)
  then show ?thesis by (simp add: table_inv_def)
qed

abbreviation (input) sample_addr :: "byte \<Rightarrow> int \<Rightarrow> udp_addr" where
  "sample_addr b port \<equiv> \<lparr>u_ip = [10, 0, 0, b], u_port = port, u_zone = []\<rparr>"

lemmas table_eval = new_association_def store_association_def empty_table_def lookup_association_def
  association_for_source_eq only_one_def

lemma association_map_invariant_witness:
  "distinct (map fst (assocs (snd (new_association (sample_addr 2 53000) 0 empty_table))))"
  using association_map_invariant[OF table_reachable.step[OF table_reachable.start table_step.associate]]
  by blast

section \<open>Choosing an association\<close>

text \<open>The choice of the association for a packet is sticky and answers its sender: once
  associationForSource has returned an association, the same source finds the same association at
  once and without a further change, the association belongs to the same control connection as
  before, and the client address that replies go to prints as the packet's source address.\<close>

theorem association_choice_sticky:
  assumes "table_inv t" "association_for_source src t = (Some p, t')"
  shows "lookup_association src t' = Some p \<and> association_for_source src t' = (Some p, t') \<and>
         assoc_conn (heap t' ! p) = assoc_conn (heap t ! p) \<and>
         (\<exists>a. client_addr (heap t' ! p) = Some a \<and> udp_addr_string a = udp_addr_string src)"
proof -
  have "lookup_association src t' = Some p \<and> assoc_conn (heap t' ! p) = assoc_conn (heap t ! p)"
    using assms(2)
  proof (cases rule: association_for_source_cases)
    case known
    then show ?thesis by simp
  next
    case (adopted key)
    then have "p < length (heap t)" using assms(1) by (auto dest: table_invD)
    with adopted show ?thesis
      by (simp add: lookup_adopt) (simp add: adopt_association_locked_def Let_def)
  qed
  then show ?thesis
    using association_for_source_client[OF assms] by (simp add: association_for_source_eq)
qed

lemma association_choice_sticky_witness:
  "lookup_association (sample_addr 9 7)
     (snd (association_for_source (sample_addr 9 7) (snd (new_association (sample_addr 2 53000) 0 empty_table))))
   = Some 0"
proof -
  let ?t = "snd (new_association (sample_addr 2 53000) 0 empty_table)"
  have "table_inv ?t" by (intro table_inv_new) simp
  moreover have "fst (association_for_source (sample_addr 9 7) ?t) = Some 0"
    by (simp add: table_eval address_eval)
  ultimately show ?thesis
    using association_choice_sticky[of ?t "sample_addr 9 7" 0] by (metis prod.collapse)
qed

text \<open>C36: The iteration order of the Go map, which the language leaves open, does not matter: for two
  tables with the same entries in any order, associationForSource returns the same association,
  leaves the same allocated associations and leaves maps with the same contents.\<close>

theorem association_choice_order_independent:
  assumes "distinct (map fst (assocs t))" "mset (assocs t) = mset (assocs u)" "heap t = heap u"
  shows "fst (association_for_source src t) = fst (association_for_source src u) \<and>
         heap (snd (association_for_source src t)) = heap (snd (association_for_source src u)) \<and>
         (\<forall>b. lookup_association b (snd (association_for_source src t)) =
              lookup_association b (snd (association_for_source src u)))"
proof -
  have look: "lookup_association b t = lookup_association b u" for b
    using map_of_perm[OF assms(1,2)] by (simp add: lookup_association_def)
  have one: "only_one (assocs t) = only_one (assocs u)"
    using assms(2) by (rule only_one_perm)
  have some: "only_one (filter (entry_matches (heap t) src) (assocs t)) =
              only_one (filter (entry_matches (heap u) src) (assocs u))"
    using assms(2,3) by (intro only_one_perm) (simp add: mset_filter)
  have adopt: "heap (adopt_association_locked key p src t) = heap (adopt_association_locked key p src u)"
      "lookup_association b (adopt_association_locked key p src t) =
       lookup_association b (adopt_association_locked key p src u)" for key p b
    using assms(3) look by (simp_all add: lookup_adopt) (simp add: adopt_association_locked_def Let_def)
  show ?thesis
    using look assms(3) adopt unfolding association_for_source_eq one some
    by (auto split: option.split)
qed

lemma association_choice_order_independent_witness:
  "\<exists>t u. assocs t \<noteq> assocs u \<and>
     fst (association_for_source (sample_addr 2 53000) t) = fst (association_for_source (sample_addr 2 53000) u)"
proof -
  let ?h = "[\<lparr>client_addr = Some (sample_addr 2 53000), assoc_conn = 0\<rparr>,
             \<lparr>client_addr = Some (sample_addr 3 53000), assoc_conn = 1\<rparr>]"
  let ?t = "\<lparr>heap = ?h, assocs = [(''a'', 0), (''b'', 1)]\<rparr>"
  let ?u = "\<lparr>heap = ?h, assocs = [(''b'', 1), (''a'', 0)]\<rparr>"
  have "fst (association_for_source (sample_addr 2 53000) ?t) =
        fst (association_for_source (sample_addr 2 53000) ?u)"
    using association_choice_order_independent[of ?t ?u "sample_addr 2 53000"] by simp
  moreover have "assocs ?t \<noteq> assocs ?u" by simp
  ultimately show ?thesis by blast
qed

text \<open>C11: Serving a packet touches no other client: every other association is found under the same
  address as before and is unchanged, and as soon as two clients are associated, the association
  given to an unknown source has the source's port and a client IP that is absent, loopback,
  unspecified or equal to the source's IP.\<close>

theorem association_choice_isolated:
  assumes "table_inv t" "association_for_source src t = (Some p, t')"
  shows "(\<forall>b q. lookup_association b t = Some q \<and> q \<noteq> p \<longrightarrow>
            lookup_association b t' = Some q \<and> heap t' ! q = heap t ! q) \<and>
         (lookup_association src t = None \<and> 2 \<le> length (assocs t) \<longrightarrow>
            (\<exists>a. client_addr (heap t ! p) = Some a \<and> u_port a = u_port src \<and>
               (u_ip a = [] \<or> ip_is_loopback (u_ip a) \<or> ip_is_unspecified (u_ip a) \<or>
                ip_equal (u_ip a) (u_ip src))))"
  using assms(2)
proof (cases rule: association_for_source_cases)
  case known
  then show ?thesis by simp
next
  case (adopted key)
  have "udp_addr_string b \<noteq> key" if "lookup_association b t = Some q" "q \<noteq> p" for b q
  proof
    assume "udp_addr_string b = key"
    then have "map_of (assocs t) key = Some q" using that by (simp add: lookup_association_def)
    moreover have "map_of (assocs t) key = Some p"
      using assms(1) adopted(2) by (simp add: table_inv_def)
    ultimately show False using that by simp
  qed
  moreover have "udp_addr_string b \<noteq> udp_addr_string src" if "lookup_association b t = Some q" for b q
    using that adopted(1) by (auto simp: lookup_association_def)
  ultimately have "\<forall>b q. lookup_association b t = Some q \<and> q \<noteq> p \<longrightarrow>
      lookup_association b t' = Some q \<and> heap t' ! q = heap t ! q"
    unfolding adopted(3)
    by (simp add: lookup_adopt) (auto simp: adopt_association_locked_def Let_def nth_list_update)
  moreover have "source_matches (client_addr (heap t ! p)) src" if "2 \<le> length (assocs t)"
    using adopted(4) that by auto
  ultimately show ?thesis
    by (auto simp: source_matches_def split: option.splits)
qed

lemma association_choice_isolated_witness:
  "lookup_association (sample_addr 3 700)
     (snd (association_for_source (sample_addr 2 53000)
       (snd (new_association (sample_addr 3 700) 1 (snd (new_association (sample_addr 2 53000) 0 empty_table))))))
   = Some 1"
proof -
  let ?t = "snd (new_association (sample_addr 3 700) 1 (snd (new_association (sample_addr 2 53000) 0 empty_table)))"
  have "table_inv ?t" by (intro table_inv_new) simp
  moreover have "association_for_source (sample_addr 2 53000) ?t = (Some 0, ?t)"
    by (simp add: table_eval address_eval)
  moreover have "lookup_association (sample_addr 3 700) ?t = Some 1"
    by (simp add: table_eval address_eval)
  ultimately show ?thesis
    using association_choice_isolated[of ?t "sample_addr 2 53000" 0 ?t] by simp
qed

section \<open>The end of an association\<close>

text \<open>A UDP association that was never adopted ends with its control connection: storing it on
  entry and deleting it on return leaves nothing under its address and every other client's entry
  as it was.\<close>

theorem association_bracket:
  "lookup_association b (delete_association a (snd (new_association a c t))) =
     (if udp_addr_string b = udp_addr_string a then None else lookup_association b t)"
proof -
  have "lookup_association b (t\<lparr>heap := h\<rparr>) = lookup_association b t" for h
    by (simp add: lookup_association_def)
  then show ?thesis
    by (simp add: new_association_def Let_def assoc_map.bracket_removes assoc_map.find_del)
qed

text \<open>A UDP association outlives its control connection once it has been adopted: if the first
  packet comes from an address that prints differently from the one the client declared, the
  handler's deferred delete removes the declared key only, and the packet's source still finds the
  association after the handler has returned.\<close>

theorem adopted_association_outlives_handler:
  assumes "udp_addr_string src \<noteq> udp_addr_string declared"
  shows "let t1 = snd (new_association declared c empty_table);
             t2 = snd (association_for_source src t1);
             t3 = delete_association declared t2
         in lookup_association src t3 = Some 0 \<and> fst (association_for_source src t3) = Some 0"
proof -
  let ?t1 = "snd (new_association declared c empty_table)"
  have t1: "assocs ?t1 = [(udp_addr_string declared, 0)]"
    by (simp add: new_association_def store_association_def empty_table_def Let_def)
  then have "lookup_association src ?t1 = None"
    using assms by (simp add: lookup_association_def)
  then obtain key where "association_for_source src ?t1 = (Some 0, adopt_association_locked key 0 src ?t1)"
    using t1 by (auto simp: association_for_source_eq only_one_def split: option.splits)
  then have "lookup_association src (delete_association declared (snd (association_for_source src ?t1))) = Some 0"
    using assms by (simp add: lookup_adopt)
  then show ?thesis by (simp add: Let_def association_for_source_eq)
qed

lemma adopted_association_outlives_handler_witness:
  "lookup_association (sample_addr 9 7)
     (delete_association (sample_addr 2 53000)
       (snd (association_for_source (sample_addr 9 7)
         (snd (new_association (sample_addr 2 53000) 0 empty_table))))) = Some 0"
proof -
  have "udp_addr_string (sample_addr 9 7) \<noteq> udp_addr_string (sample_addr 2 53000)"
    by (simp add: address_eval)
  from adopted_association_outlives_handler[OF this, of 0] show ?thesis by (simp add: Let_def)
qed

end
