(* ===== verification/Socks5_Server.thy ===== *)
theory Socks5_Server
  imports Socks5_Client Socks5_Assoc
begin

text \<open>
  The server of \<open>internal/socks5/server.go\<close>: start and close, the handler of one TCP connection with
  its CONNECT and UDP ASSOCIATE branches, and the handler of one UDP packet. Sockets and name resolution are
  the operating system's, given as records of functions.

  A handler runs up to the point where it starts to relay (\<open>Socks5_Relay\<close>) or to wait for the end of an
  association's control connection (\<open>finish_udp_associate\<close>). How handlers interleave is the subject of
  \<open>Socks5_Assoc\<close>, for the association map they share, and of \<open>Socks5_Loops\<close>.
\<close>

section \<open>The server\<close>

record server =
  srv_cfg :: server_config
  tcp_ln :: "udp_addr option"
  udp_ln :: "udp_addr option"
  srv_done :: bool
  srv_table :: assoc_table

definition new_server :: "server_config \<Rightarrow> server" where
  "new_server cfg = \<lparr>srv_cfg = cfg, tcp_ln = None, udp_ln = None, srv_done = False, srv_table = empty_table\<rparr>"

text \<open>A listener is the address it is bound to (\<open>ln.Addr()\<close>; TCP and UDP addresses have the same form).\<close>

record 'w listen_env =
  resolve_tcp :: "string \<Rightarrow> ('w, udp_addr) eff"
  listen_tcp :: "udp_addr \<Rightarrow> ('w, udp_addr) eff"
  listen_udp :: "udp_addr \<Rightarrow> ('w, udp_addr) eff"
  close_tcp :: "udp_addr \<Rightarrow> ('w, unit) eff"
  close_udp :: "udp_addr \<Rightarrow> ('w, unit) eff"
  close_conn :: "nat \<Rightarrow> ('w, unit) eff"

text \<open>\<open>Start\<close> records the TCP listener before it tries UDP, and closes it again (but leaves it recorded)
  when UDP cannot be bound. The two loops it starts accept connections and packets for the handlers
  below.\<close>

definition server_start :: "'w listen_env \<Rightarrow> server \<Rightarrow> 'w \<Rightarrow> (go_error option \<times> server) \<times> 'w" where
  "server_start env s w =
     (if listen_addr (srv_cfg s) = '''' then ((Some (errorf ''listen address is required''), s), w)
      else
      case wrapping ''resolve tcp listen addr'' (resolve_tcp env (listen_addr (srv_cfg s))) w of
        (Inl e, w1) \<Rightarrow> ((Some e, s), w1)
      | (Inr tcp_addr, w1) \<Rightarrow>
      (case wrapping ''listen tcp'' (listen_tcp env tcp_addr) w1 of
        (Inl e, w2) \<Rightarrow> ((Some e, s), w2)
      | (Inr tcp, w2) \<Rightarrow>
      let s1 = s\<lparr>tcp_ln := Some tcp\<rparr> in
      if \<not> allow_udp (srv_cfg s1) then ((None, s1), w2)
      else
      let udp_listen_ip = (if u_ip tcp = [] then parse_ip ''0.0.0.0'' else u_ip tcp) in
      (case listen_udp env \<lparr>u_ip = udp_listen_ip, u_port = u_port tcp, u_zone = ''''\<rparr> w2 of
        (Inl e, w3) \<Rightarrow> ((Some (wrap ''listen udp'' e), s1), snd (close_tcp env tcp w3))
      | (Inr udp, w3) \<Rightarrow> ((None, s1\<lparr>udp_ln := Some udp\<rparr>), w3))))"

text \<open>\<open>Close\<close> runs its body once; it returns the first of the two listeners' close errors, closes the
  control connection of every association and empties the map. \<open>TCPAddr\<close> is the bound address.\<close>

definition close_listener :: "(udp_addr \<Rightarrow> ('w, unit) eff) \<Rightarrow> udp_addr option \<Rightarrow> 'w \<Rightarrow> go_error option \<times> 'w" where
  "close_listener f ln w =
     (case ln of None \<Rightarrow> (None, w)
      | Some a \<Rightarrow> (case f a w of (Inl e, w') \<Rightarrow> (Some e, w') | (Inr _, w') \<Rightarrow> (None, w')))"

definition server_close :: "'w listen_env \<Rightarrow> server \<Rightarrow> 'w \<Rightarrow> (go_error option \<times> server) \<times> 'w" where
  "server_close env s w =
     (if srv_done s then ((None, s), w)
      else
      let (tcp_err, w1) = close_listener (close_tcp env) (tcp_ln s) w;
          (udp_err, w2) = close_listener (close_udp env) (udp_ln s) w1;
          err = (if tcp_err = None then udp_err else tcp_err);
          w3 = snd (for_each (\<lambda>entry. ignoring (close_conn env (assoc_conn (heap (srv_table s) ! snd entry))))
                      (assocs (srv_table s)) w2)
      in ((err, s\<lparr>srv_done := True, srv_table := clear_associations (srv_table s)\<rparr>), w3))"

definition tcp_addr_string :: "server \<Rightarrow> string" where
  "tcp_addr_string s = (case tcp_ln s of None \<Rightarrow> '''' | Some a \<Rightarrow> udp_addr_string a)"

definition server_public_host :: "server \<Rightarrow> string" where
  "server_public_host s =
     (if public_host (srv_cfg s) \<noteq> '''' then public_host (srv_cfg s)
      else let host = fst (split_host_port_int (udp_addr_string (the (tcp_ln s))))
           in if host = '''' \<or> host = ''0.0.0.0'' \<or> host = ''::'' then ''127.0.0.1'' else host)"

definition server_public_port :: "server \<Rightarrow> int" where
  "server_public_port s =
     (if 0 < public_port (srv_cfg s) then public_port (srv_cfg s)
      else case udp_ln s of
        Some u \<Rightarrow> u_port u
      | None \<Rightarrow> (case tcp_ln s of Some t \<Rightarrow> u_port t | None \<Rightarrow> 0))"

section \<open>The handler of a TCP connection\<close>

text \<open>How a handler leaves the connection: closed, relaying with an upstream connection, or holding
  a UDP association under the client address it captured.\<close>

datatype session = Closed | Relaying conn | Associated udp_addr nat

text \<open>\<open>dial\<close> is the configured \<open>DialContext\<close> or the system's dialer; it yields the upstream
  connection and its printed local address.\<close>

definition handle_connect :: "(string \<Rightarrow> ('w, conn \<times> string) eff) \<Rightarrow> string \<Rightarrow> conn \<Rightarrow> 'w \<Rightarrow> (session \<times> conn) \<times> 'w" where
  "handle_connect dial target c w =
     (case dial target w of
        (Inl _, w') \<Rightarrow> ((Closed, snd (write_reply replyGeneralFailure ''0.0.0.0'' 0 c)), w')
      | (Inr (upstream, local), w') \<Rightarrow>
          (case split_host_port_int local of (local_host, local_port) \<Rightarrow>
             (case write_reply replySucceeded local_host local_port c of
                (Inl _, c') \<Rightarrow> ((Closed, c'), w')
              | (Inr _, c') \<Rightarrow> ((Relaying upstream, c'), w'))))"

text \<open>The client address of an association: the announced one, or the TCP peer's IP where the
  announced IP is missing, unspecified or loopback. The peer address is always a TCP address here.\<close>

definition associate_client_addr :: "conn \<Rightarrow> string \<Rightarrow> udp_addr" where
  "associate_client_addr c target =
     (let (host, port) = split_host_port_int target;
          client_ip = parse_ip host;
          client_ip' = (if client_ip = [] \<or> ip_is_unspecified client_ip \<or> ip_is_loopback client_ip
                        then remote_ip c else client_ip);
          client_ip'' = (if client_ip' = [] then remote_ip c else client_ip')
      in \<lparr>u_ip = client_ip'', u_port = port, u_zone = ''''\<rparr>)"

text \<open>The deferred \<open>deleteAssociation(clientAddr)\<close>, with the address the handler captured.\<close>

definition finish_udp_associate :: "udp_addr \<Rightarrow> server \<Rightarrow> server" where
  "finish_udp_associate addr s = s\<lparr>srv_table := delete_association addr (srv_table s)\<rparr>"

text \<open>\<open>handleUDPAssociate\<close> in two parts, before and after the point at which other goroutines see the stored
  association: filing it, then writing the reply and, should that fail, the deferred deletion.\<close>

definition file_association :: "nat \<Rightarrow> string \<Rightarrow> conn \<Rightarrow> server \<Rightarrow> udp_addr \<times> nat \<times> server" where
  "file_association cid target c s =
     (let addr = associate_client_addr c target;
          (p, t) = new_association addr cid (srv_table s)
      in (addr, p, s\<lparr>srv_table := t\<rparr>))"

definition answer_association :: "udp_addr \<Rightarrow> nat \<Rightarrow> conn \<Rightarrow> server \<Rightarrow> (session \<times> conn) \<times> server" where
  "answer_association addr p c s =
     (case write_reply replySucceeded (server_public_host s) (server_public_port s) c of
        (Inl _, c') \<Rightarrow> ((Closed, c'), finish_udp_associate addr s)
      | (Inr _, c') \<Rightarrow> ((Associated addr p, c'), s))"

definition handle_udp_associate :: "nat \<Rightarrow> string \<Rightarrow> conn \<Rightarrow> server \<Rightarrow> (session \<times> conn) \<times> server" where
  "handle_udp_associate cid target c s =
     (case file_association cid target c s of (addr, p, s1) \<Rightarrow> answer_association addr p c s1)"

definition handle_conn :: "(string \<Rightarrow> ('w, conn \<times> string) eff) \<Rightarrow> nat \<Rightarrow> server \<Rightarrow> conn \<Rightarrow> 'w
    \<Rightarrow> (session \<times> conn) \<times> server \<times> 'w" where
  "handle_conn dial cid s c w =
     (case negotiate_auth (srv_cfg s) c of
        (Inl _, c1) \<Rightarrow> ((Closed, c1), s, w)
      | (Inr _, c1) \<Rightarrow>
          (case read_request c1 of
             (Inl _, c2) \<Rightarrow> ((Closed, c2), s, w)
           | (Inr (cmd, target), c2) \<Rightarrow>
               if cmd = commandConnect then
                 (case handle_connect dial target c2 w of (r, w') \<Rightarrow> (r, s, w'))
               else if cmd = commandUDPAssociate then
                 (if \<not> allow_udp (srv_cfg s) \<or> udp_ln s = None then
                    ((Closed, snd (write_reply replyCommandUnsupported ''0.0.0.0'' 0 c2)), s, w)
                  else (case handle_udp_associate cid target c2 s of (r, s') \<Rightarrow> (r, s', w)))
               else ((Closed, snd (write_reply replyCommandUnsupported ''0.0.0.0'' 0 c2)), s, w)))"

section \<open>The handler of a UDP packet\<close>

record ('w, 's) udp_env =
  udp_resolve :: "string \<Rightarrow> ('w, udp_addr) eff"
  udp_dial :: "udp_addr \<Rightarrow> ('w, 's) eff"
  udp_set_deadline :: "'s \<Rightarrow> int \<Rightarrow> ('w, unit) eff"
  udp_write :: "'s \<Rightarrow> byte list \<Rightarrow> ('w, unit) eff"
  udp_read :: "'s \<Rightarrow> ('w, byte list) eff"
  udp_close :: "'s \<Rightarrow> ('w, unit) eff"
  udp_write_to :: "byte list \<Rightarrow> udp_addr option \<Rightarrow> ('w, unit) eff"

text \<open>What became of the packet; a panic in the handler's goroutine ends the whole process.\<close>

datatype packet_fate = Dropped | Failed go_error | Answered | Panicked

text \<open>The exchange with the target, from the dial to the reply; the remote socket is closed on
  return (\<open>defer\<close>).\<close>

definition udp_exchange :: "('w, 's) udp_env \<Rightarrow> server_config \<Rightarrow> udp_addr \<Rightarrow> byte list \<Rightarrow> udp_addr option
    \<Rightarrow> ('w, unit) eff" where
  "udp_exchange env cfg target payload client =
     andThen (udp_dial env target) (\<lambda>sock.
     attempt
      (let timeout = (if udp_timeout cfg \<le> 0 then 5 * 1000000000 else udp_timeout cfg) in
       andThen (ignoring (udp_set_deadline env sock timeout)) (\<lambda>_.
       andThen (udp_write env sock payload) (\<lambda>_.
       andThen (udp_read env sock) (\<lambda>reply.
       case build_udp_reply (ip_string (u_ip target)) (u_port target) reply of
         Inl e \<Rightarrow> fail e
       | Inr response \<Rightarrow> udp_write_to env response client))))
      (\<lambda>r. andThen (ignoring (udp_close env sock)) (\<lambda>_. case r of Inl e \<Rightarrow> fail e | Inr _ \<Rightarrow> ret ())))"

text \<open>\<open>handleUDPPacket\<close> after the look-up of the association: the packet is parsed, its target resolved and the
  exchange runs; the reply goes to the association's client address.\<close>

definition relay_packet :: "('w, 's) udp_env \<Rightarrow> nat \<Rightarrow> server \<Rightarrow> nat \<Rightarrow> byte list \<Rightarrow> 'w \<Rightarrow> packet_fate \<times> 'w" where
  "relay_packet env extra s p packet w =
     (case parse_udp_packet extra packet of
        GoPanic \<Rightarrow> (Panicked, w)
      | GoErr e \<Rightarrow> (Failed e, w)
      | GoOk (host, port, payload) \<Rightarrow>
          (case andThen (udp_resolve env (join_host_port host (itoa port)))
                 (\<lambda>target. udp_exchange env (srv_cfg s) target payload (client_addr (heap (srv_table s) ! p))) w of
             (Inl e, w') \<Rightarrow> (Failed e, w')
           | (Inr _, w') \<Rightarrow> (Answered, w')))"

definition handle_udp_packet :: "('w, 's) udp_env \<Rightarrow> nat \<Rightarrow> server \<Rightarrow> udp_addr \<Rightarrow> byte list \<Rightarrow> 'w
    \<Rightarrow> packet_fate \<times> server \<times> 'w" where
  "handle_udp_packet env extra s src packet w =
     (case association_for_source src (srv_table s) of (found, t) \<Rightarrow>
      let s' = s\<lparr>srv_table := t\<rparr> in
      case found of
        None \<Rightarrow> (Dropped, s', w)
      | Some p \<Rightarrow> (case relay_packet env extra s' p packet w of (fate, w') \<Rightarrow> (fate, s', w')))"

section \<open>Sessions\<close>

lemma server_side_session:
  assumes addr: "0 \<le> port" "port < 65536" "parse_ip host \<noteq> [] \<or> length host < 256"
    and creds: "credentials_fit (srv_auth (srv_cfg s))"
    and dial: "dial (join_host_port (canonical_host host) (itoa port)) w = (Inr (upstream, local), w')"
    and bound: "split_host_port_int local = (bhost, bport)"
    and wires: "rx c = client_transcript (srv_auth (srv_cfg s)) host port @ data" "3 \<le> writes_left c"
  shows "\<exists>c'. handle_conn dial cid s c w = ((Relaying upstream, c'), s, w') \<and> rx c' = data \<and>
            tx c' = tx c @ server_transcript (srv_auth (srv_cfg s)) bhost bport"
proof -
  define auth where "auth = srv_auth (srv_cfg s)"
  have port: "port mod 65536 = port" using addr(1,2) by simp
  obtain c1 where c1: "negotiate_auth (srv_cfg s) c = (Inr (), c1)"
      "rx c1 = connect_request host port @ data" "0 < writes_left c1"
      "tx c1 = tx c @ (case auth of None \<Rightarrow> [socksVersion, authMethodNone]
                       | Some a \<Rightarrow> [socksVersion, authMethodUserPass, 1, 0])"
  proof (cases auth)
    case None
    then show ?thesis
      using that wires negotiate_eval[of c "[authMethodNone]" "connect_request host port @ data" "srv_cfg s"]
      by (simp add: client_transcript_def auth_def required_method_def Let_def)
  next
    case (Some a)
    let ?c1 = "c\<lparr>rx := user_pass_bytes (auth_username a) (auth_password a) @ connect_request host port @ data,
                 tx := tx c @ [socksVersion, authMethodUserPass], writes_left := writes_left c - 1\<rparr>"
    have "verify_username_password a ?c1 = (Inr (),
        ?c1\<lparr>rx := connect_request host port @ data, tx := tx ?c1 @ [1, 0], writes_left := writes_left ?c1 - 1\<rparr>)"
      using verify_eval[of ?c1 "auth_username a" "auth_password a" "connect_request host port @ data" a]
        creds Some wires(2) by (simp add: credentials_fit_def auth_def)
    then show ?thesis
      using that Some wires
        negotiate_eval[of c "[authMethodUserPass]"
          "user_pass_bytes (auth_username a) (auth_password a) @ connect_request host port @ data" "srv_cfg s"]
      by (simp add: client_transcript_def auth_def required_method_def Let_def)
  qed
  have "read_request c1 = (Inr (commandConnect, join_host_port (canonical_host host) (itoa port)), c1\<lparr>rx := data\<rparr>)"
    using read_request_connect[OF c1(2) addr(3)] by (simp add: port)
  then show ?thesis
    using c1 dial bound
    by (simp add: handle_conn_def handle_connect_def write_reply_eq server_transcript_def auth_def[symmetric])
qed

lemma client_side_session:
  assumes addr: "split_host_port address = Inr (host, port_text)" "atoi port_text = Inr port"
    and wires: "rx k = server_transcript auth bhost bport @ data" "3 \<le> writes_left k"
  shows "\<exists>k'. andThen (client_handshake auth) (\<lambda>_. client_connect address) k = (Inr (), k') \<and>
            rx k' = data \<and> tx k' = tx k @ client_transcript auth host port"
proof -
  have "rx k = (case auth of None \<Rightarrow> [socksVersion, authMethodNone]
      | Some a \<Rightarrow> [socksVersion, authMethodUserPass, 1, 0]) @ reply_bytes replySucceeded bhost bport @ data"
    using wires(1) by (simp add: server_transcript_def)
  then obtain k1 where k1: "client_handshake auth k = (Inr (), k1)"
      "rx k1 = reply_bytes replySucceeded bhost bport @ data" "0 < writes_left k1"
      "tx k1 = tx k @ (case auth of None \<Rightarrow> greeting_bytes [authMethodNone]
        | Some a \<Rightarrow> greeting_bytes [authMethodUserPass] @ user_pass_bytes (auth_username a) (auth_password a))"
    using client_handshake_eval[of k auth] wires(2) by fastforce
  show ?thesis
    using k1 client_connect_eval[OF addr(1,2) k1(2,3)]
    by (simp add: client_transcript_def)
qed

text \<open>C2: A dialer and a server with the same credentials, if these fit the wire format (fewer than 256 bytes each),
  and with a host that is an IP literal or a name of fewer than 256 bytes, understand each other: if the client reads
  what the server writes and the server reads what the client writes, the client's handshake and
  CONNECT succeed, and the server dials exactly the host and port the client asked for (an IP
  literal in its printed form) and relays to it; the exchange consumes neither side's data.\<close>

theorem dialer_server_session:
  assumes addr: "split_host_port address = Inr (host, port_text)" "atoi port_text = Inr port"
      "0 \<le> port" "port < 65536" "parse_ip host \<noteq> [] \<or> length host < 256"
    and creds: "credentials_fit (srv_auth (srv_cfg s))"
    and dial: "dial (join_host_port (canonical_host host) (itoa port)) w = (Inr (upstream, local), w')"
    and bound: "split_host_port_int local = (bhost, bport)"
    and wires: "rx c = client_transcript (srv_auth (srv_cfg s)) host port @ data"
      "rx k = server_transcript (srv_auth (srv_cfg s)) bhost bport @ data'"
      "3 \<le> writes_left c" "3 \<le> writes_left k"
  shows "(\<exists>c'. handle_conn dial cid s c w = ((Relaying upstream, c'), s, w') \<and> rx c' = data \<and>
            tx c' = tx c @ server_transcript (srv_auth (srv_cfg s)) bhost bport) \<and>
         (\<exists>k'. andThen (client_handshake (srv_auth (srv_cfg s))) (\<lambda>_. client_connect address) k = (Inr (), k') \<and>
            rx k' = data' \<and> tx k' = tx k @ client_transcript (srv_auth (srv_cfg s)) host port)"
  using server_side_session[where cid = cid and dial = dial and w = w, OF addr(3-5) creds dial bound wires(1,3)] client_side_session[OF addr(1,2) wires(2,4)]
  by blast

text \<open>A connection whose peer sends the given bytes, and a server configuration, for examples.\<close>

definition sample_conn :: "byte list \<Rightarrow> conn" where
  "sample_conn bs = \<lparr>rx = bs, tx = [], writes_left = 9, remote_ip = [10, 0, 0, 9]\<rparr>"

definition sample_auth :: auth_config where
  "sample_auth = \<lparr>auth_username = ''u'', auth_password = ''pw''\<rparr>"

definition sample_server :: "auth_config option \<Rightarrow> bool \<Rightarrow> server" where
  "sample_server auth udp =
     \<lparr>srv_cfg = \<lparr>listen_addr = '':1080'', public_host = '''', public_port = 1080, allow_udp = udp,
                upstream_socks5_addr = '''', srv_auth = auth, udp_timeout = 0\<rparr>,
      tcp_ln = Some (sample_addr 1 1080), udp_ln = (if udp then Some (sample_addr 1 1080) else None),
      srv_done = False, srv_table = empty_table\<rparr>"

definition sample_dial :: "string \<Rightarrow> (string list, conn \<times> string) eff" where
  "sample_dial target log = (Inr (sample_conn [7], ''10.0.0.1:5''), log @ [target])"

lemmas sample_defs = sample_conn_def sample_auth_def sample_server_def sample_dial_def

lemma split_sample: "split_host_port ''a:80'' = Inr (''a'', ''80'')" "atoi ''80'' = Inr 80"
    "split_host_port_int ''10.0.0.1:5'' = (''10.0.0.1'', 5)" "parse_ip ''a'' = []" "itoa 80 = ''80''"
  by (code_simp)+

lemma dialer_server_session_witness:
  "\<exists>c'. handle_conn sample_dial 0 (sample_server (Some sample_auth) True)
     (sample_conn (client_transcript (Some sample_auth) ''a'' 80 @ [1, 2])) [] =
     ((Relaying (sample_conn [7]), c'), sample_server (Some sample_auth) True, [''a:80'']) \<and> rx c' = [1, 2]"
proof -
  let ?s = "sample_server (Some sample_auth) True"
  let ?c = "sample_conn (client_transcript (Some sample_auth) ''a'' 80 @ [1, 2])"
  let ?k = "sample_conn (server_transcript (Some sample_auth) ''10.0.0.1'' 5 @ [])"
  have auth: "srv_auth (srv_cfg ?s) = Some sample_auth" by (simp add: sample_server_def)
  have creds: "credentials_fit (srv_auth (srv_cfg ?s))"
    unfolding auth by (simp add: credentials_fit_def sample_auth_def)
  have dial: "sample_dial (join_host_port (canonical_host ''a'') (itoa 80)) [] =
      (Inr (sample_conn [7], ''10.0.0.1:5''), [''a:80''])"
    by (simp add: sample_dial_def canonical_host_def split_sample join_host_port_def)
  have wires: "rx ?c = client_transcript (srv_auth (srv_cfg ?s)) ''a'' 80 @ [1, 2]"
      "rx ?k = server_transcript (srv_auth (srv_cfg ?s)) ''10.0.0.1'' 5 @ []"
      "3 \<le> writes_left ?c" "3 \<le> writes_left ?k"
    unfolding auth by (simp_all add: sample_conn_def)
  have range: "0 \<le> (80 :: int)" "(80 :: int) < 65536" and name: "parse_ip ''a'' \<noteq> [] \<or> length ''a'' < 256"
    by simp_all
  from dialer_server_session[where s = ?s and c = ?c and k = ?k and dial = sample_dial and w = "[]"
      and cid = 0 and data = "[1, 2]" and data' = "[]",
      OF split_sample(1,2) range name creds dial split_sample(3) wires]
  show ?thesis by blast
qed

section \<open>Access control\<close>

lemma negotiate_authorised:
  assumes "srv_auth cfg = Some a" "negotiate_auth cfg c = (Inr (), c1)"
  shows "length (auth_username a) < 256 \<and> length (auth_password a) < 256 \<and>
    (\<exists>methods. length methods < 256 \<and> authMethodUserPass \<in> set methods \<and>
       rx c = greeting_bytes methods @ user_pass_bytes (auth_username a) (auth_password a) @ rx c1)"
proof -
  obtain methods c0 where "length methods < 256" "required_method cfg \<in> set methods"
      "rx c = greeting_bytes methods @ rx c0" "verify_username_password a c0 = (Inr (), c1)"
    using negotiate_Inr[OF assms(2)] assms(1) by auto
  with verify_Inr[of a c0 c1] assms(1) show ?thesis
    by (auto simp: required_method_def)
qed

lemma handle_conn_refused:
  "negotiate_auth (srv_cfg s) c = (Inl e, c1) \<Longrightarrow> handle_conn dial cid s c w = ((Closed, c1), s, w)"
  by (simp add: handle_conn_def)

text \<open>Without the configured credentials nothing happens: when the server requires a user name and
  password, a connection that gets a relay or an association, or that makes the server dial or touch
  its association map, began with a greeting that offers the user/password method followed by exactly
  the configured user name and password.\<close>

theorem access_requires_credentials:
  assumes "srv_auth (srv_cfg s) = Some a"
    and "handle_conn dial cid s c w = ((sess, c'), s', w')"
    and "sess \<noteq> Closed \<or> s' \<noteq> s \<or> w' \<noteq> w"
  shows "\<exists>methods rest. authMethodUserPass \<in> set methods \<and>
    rx c = greeting_bytes methods @ user_pass_bytes (auth_username a) (auth_password a) @ rest"
proof (cases "negotiate_auth (srv_cfg s) c")
  case (Pair r c1)
  show ?thesis
  proof (cases r)
    case (Inl e)
    with Pair assms(2,3) show ?thesis by (simp add: handle_conn_refused)
  next
    case (Inr u)
    with Pair negotiate_authorised[OF assms(1), of c c1] show ?thesis by auto
  qed
qed

lemma access_requires_credentials_witness:
  "\<exists>methods rest. authMethodUserPass \<in> set methods \<and>
     client_transcript (Some sample_auth) ''a'' 80 @ [1, 2] =
       greeting_bytes methods @ user_pass_bytes ''u'' ''pw'' @ rest"
proof -
  let ?s = "sample_server (Some sample_auth) True"
  let ?c = "sample_conn (client_transcript (Some sample_auth) ''a'' 80 @ [1, 2])"
  have auth: "srv_auth (srv_cfg ?s) = Some sample_auth" by (simp add: sample_server_def)
  obtain sess c' s' w' where run: "handle_conn sample_dial 0 ?s ?c [] = ((sess, c'), s', w')"
    by (metis prod.collapse)
  have "w' \<noteq> []"
  proof -
    have "\<exists>c1. negotiate_auth (srv_cfg ?s) ?c = (Inr (), c1) \<and> rx c1 = connect_request ''a'' 80 @ [1, 2]"
      by (simp add: negotiate_auth_def verify_username_password_def sample_defs client_transcript_def
            greeting_bytes_def user_pass_bytes_def andThen_def Let_def)
    then obtain c1 where c1: "negotiate_auth (srv_cfg ?s) ?c = (Inr (), c1)"
      "rx c1 = connect_request ''a'' 80 @ [1, 2]" by blast
    from read_request_connect[OF c1(2)] c1(1) run show ?thesis
      by (auto simp: handle_conn_def handle_connect_def sample_dial_def split: prod.splits sum.splits)
  qed
  then show ?thesis
    using access_requires_credentials[OF auth run] by (simp add: sample_conn_def sample_auth_def)
qed

text \<open>C37: A user name or password of 256 bytes or more locks everyone out: the wire format has one
  length byte, so whatever a client sends, the connection is closed without a relay, an association,
  a dial or a change of the server.\<close>

theorem long_credentials_lock_out:
  assumes "srv_auth (srv_cfg s) = Some a"
    and "256 \<le> length (auth_username a) \<or> 256 \<le> length (auth_password a)"
  shows "\<exists>c'. handle_conn dial cid s c w = ((Closed, c'), s, w)"
proof (cases "negotiate_auth (srv_cfg s) c")
  case (Pair r c1)
  then show ?thesis
    using negotiate_authorised[OF assms(1), of c c1] assms(2)
    by (cases r) (auto dest: handle_conn_refused)
qed

lemma long_credentials_lock_out_witness:
  "\<exists>c'. handle_conn sample_dial 0
     (sample_server (Some \<lparr>auth_username = replicate 256 CHR ''u'', auth_password = ''p''\<rparr>) True)
     (sample_conn [5, 1, 2]) [] = ((Closed, c'),
     sample_server (Some \<lparr>auth_username = replicate 256 CHR ''u'', auth_password = ''p''\<rparr>) True, [])"
  by (rule long_credentials_lock_out[where a = "\<lparr>auth_username = replicate 256 CHR ''u'', auth_password = ''p''\<rparr>"])
     (simp_all add: sample_server_def)

section \<open>Dispatch\<close>

text \<open>After a successful negotiation and request, the command decides: CONNECT goes to the dialer,
  UDP ASSOCIATE is served only with UDP enabled and a UDP listener, and every other command, like UDP
  ASSOCIATE without UDP, is answered with reply code 7 and bound address 0.0.0.0:0 (if the write
  succeeds) and closed, leaving the server and the outside world as they were.\<close>

theorem command_dispatch:
  assumes "negotiate_auth (srv_cfg s) c = (Inr (), c1)" "read_request c1 = (Inr (cmd, target), c2)"
    and "0 < writes_left c2"
  shows "if cmd = commandConnect
         then (\<exists>r w'. handle_conn dial cid s c w = (r, s, w') \<and> handle_connect dial target c2 w = (r, w'))
         else if cmd = commandUDPAssociate \<and> allow_udp (srv_cfg s) \<and> udp_ln s \<noteq> None
         then (\<exists>r s'. handle_conn dial cid s c w = (r, s', w) \<and> handle_udp_associate cid target c2 s = (r, s'))
         else (\<exists>c'. handle_conn dial cid s c w = ((Closed, c'), s, w) \<and>
                tx c' = tx c2 @ [socksVersion, replyCommandUnsupported, 0, addrTypeIPv4, 0, 0, 0, 0, 0, 0])"
proof -
  have "reply_bytes replyCommandUnsupported ''0.0.0.0'' 0 =
      [socksVersion, replyCommandUnsupported, 0, addrTypeIPv4, 0, 0, 0, 0, 0, 0]"
    by (simp add: reply_bytes_def reply_ip_def parse_ip_unspecified put_uint16_def)
  then show ?thesis
    using assms by (auto simp: handle_conn_def write_reply_eq split: prod.split)
qed

lemma command_dispatch_witness:
  "\<exists>c'. handle_conn sample_dial 0 (sample_server None False) (sample_conn [5, 1, 0, 5, 3, 0, 1, 0, 0, 0, 0, 0, 0]) []
     = ((Closed, c'), sample_server None False, []) \<and>
     tx c' = [5, 0, 5, 7, 0, 1, 0, 0, 0, 0, 0, 0]"
proof -
  let ?s = "sample_server None False"
  let ?c = "sample_conn [5, 1, 0, 5, 3, 0, 1, 0, 0, 0, 0, 0, 0]"
  let ?c1 = "?c\<lparr>rx := [5, 3, 0, 1, 0, 0, 0, 0, 0, 0], tx := [5, 0], writes_left := 8\<rparr>"
  have n: "negotiate_auth (srv_cfg ?s) ?c = (Inr (), ?c1)"
    by (simp add: negotiate_auth_def sample_defs andThen_def Let_def)
  have "\<exists>t. read_request ?c1 = (Inr (3, t), ?c1\<lparr>rx := []\<rparr>)"
    by (simp add: read_request_def read_address_def sample_defs andThen_def)
  then obtain t where r: "read_request ?c1 = (Inr (3, t), ?c1\<lparr>rx := []\<rparr>)" by blast
  have "0 < writes_left (?c1\<lparr>rx := []\<rparr>)" by simp
  from command_dispatch[where s = ?s and dial = sample_dial and cid = 0 and w = "[]", OF n r this]
  show ?thesis by (simp add: sample_server_def)
qed

section \<open>UDP associations\<close>

text \<open>A UDP ASSOCIATE files its association under the client address it announced, except that a
  missing, unspecified or loopback IP is replaced by the TCP peer's; the client is told the server's
  public host and port (a host that is not an IP literal is announced as 0.0.0.0), other clients'
  entries stay, and if the reply cannot be written the entry is gone again.\<close>

theorem udp_associate_result:
  assumes "handle_udp_associate cid target c s = ((sess, c'), s')"
  shows "let addr = associate_client_addr c target in
    (u_port addr = snd (split_host_port_int target)) \<and>
    (if 0 < writes_left c
     then sess = Associated addr (length (heap (srv_table s))) \<and>
          tx c' = tx c @ reply_bytes replySucceeded (server_public_host s) (server_public_port s) \<and>
          lookup_association addr (srv_table s') = Some (length (heap (srv_table s))) \<and>
          client_addr (heap (srv_table s') ! length (heap (srv_table s))) = Some addr
     else sess = Closed \<and> c' = c \<and> lookup_association addr (srv_table s') = None) \<and>
    (\<forall>b. udp_addr_string b \<noteq> udp_addr_string addr \<longrightarrow>
         lookup_association b (srv_table s') = lookup_association b (srv_table s))"
proof -
  define addr where "addr = associate_client_addr c target"
  define t where "t = snd (new_association addr cid (srv_table s))"
  have new: "new_association addr cid (srv_table s) = (length (heap (srv_table s)), t)"
    by (simp add: t_def new_association_def Let_def)
  have pub: "server_public_host (s\<lparr>srv_table := t\<rparr>) = server_public_host s"
      "server_public_port (s\<lparr>srv_table := t\<rparr>) = server_public_port s"
    by (simp_all add: server_public_host_def server_public_port_def split: option.split)
  have look: "lookup_association b t =
      (if udp_addr_string b = udp_addr_string addr then Some (length (heap (srv_table s)))
       else lookup_association b (srv_table s))" for b
    by (simp add: t_def lookup_new)
  have stored: "client_addr (heap t ! length (heap (srv_table s))) = Some addr"
    by (simp add: t_def new_association_def store_association_def Let_def)
  have port: "u_port addr = snd (split_host_port_int target)"
    by (simp add: addr_def associate_client_addr_def Let_def split: prod.split)
  have "handle_udp_associate cid target c s =
      (if 0 < writes_left c
       then ((Associated addr (length (heap (srv_table s))),
              c\<lparr>tx := tx c @ reply_bytes replySucceeded (server_public_host s) (server_public_port s),
                writes_left := writes_left c - 1\<rparr>), s\<lparr>srv_table := t\<rparr>)
       else ((Closed, c), s\<lparr>srv_table := delete_association addr t\<rparr>))"
    by (simp add: handle_udp_associate_def file_association_def answer_association_def Let_def addr_def[symmetric] new pub write_reply_eq
          finish_udp_associate_def conn_write_def split: nat.split)
  with assms show ?thesis
    using port stored unfolding Let_def addr_def[symmetric]
    by (auto simp: look split: if_splits)
qed

lemma udp_associate_result_witness:
  "\<exists>sess c' s'. handle_udp_associate 0 ''0.0.0.0:700'' (sample_conn []) (sample_server None True) = ((sess, c'), s') \<and>
     lookup_association (associate_client_addr (sample_conn []) ''0.0.0.0:700'') (srv_table s') = Some 0"
proof -
  obtain sess c' s' where run:
    "handle_udp_associate 0 ''0.0.0.0:700'' (sample_conn []) (sample_server None True) = ((sess, c'), s')"
    by (metis prod.collapse)
  have "heap (srv_table (sample_server None True)) = []" "0 < writes_left (sample_conn [])"
    by (simp_all add: sample_defs empty_table_def)
  with udp_associate_result[OF run] run show ?thesis by (simp add: Let_def)
qed

section \<open>UDP packets\<close>

lemma handle_udp_packet_found:
  "association_for_source src (srv_table s) = (Some p, t) \<Longrightarrow> handle_udp_packet env extra s src packet w =
     (case parse_udp_packet extra packet of
        GoPanic \<Rightarrow> (Panicked, s\<lparr>srv_table := t\<rparr>, w)
      | GoErr e \<Rightarrow> (Failed e, s\<lparr>srv_table := t\<rparr>, w)
      | GoOk (host, port, payload) \<Rightarrow>
          (case andThen (udp_resolve env (join_host_port host (itoa port)))
                 (\<lambda>target. udp_exchange env (srv_cfg s) target payload (client_addr (heap t ! p))) w of
             (Inl e, w') \<Rightarrow> (Failed e, s\<lparr>srv_table := t\<rparr>, w')
           | (Inr _, w') \<Rightarrow> (Answered, s\<lparr>srv_table := t\<rparr>, w')))"
  by (simp add: handle_udp_packet_def relay_packet_def Let_def split: go_result.split sum.split prod.split)

lemma handle_udp_packet_unknown:
  "association_for_source src (srv_table s) = (None, t) \<Longrightarrow>
   handle_udp_packet env extra s src packet w = (Dropped, s\<lparr>srv_table := t\<rparr>, w)"
  by (simp add: handle_udp_packet_def Let_def)

text \<open>C29: The packet handler panics, and with it the whole process, exactly when the packet's source
  has or adopts an association and the packet's header is well formed but announces a longer address
  than the packet holds (an IPv6 address in fewer than 22 bytes, a name that runs past the end).\<close>

theorem udp_packet_panics_iff:
  "fst (handle_udp_packet env extra s src packet w) = Panicked \<longleftrightarrow>
     fst (association_for_source src (srv_table s)) \<noteq> None \<and> udp_header_ok packet \<and>
     (\<exists>h. udp_header_length packet = Some h \<and> length packet < h)"
proof (cases "association_for_source src (srv_table s)")
  case (Pair found t)
  have panic: "parse_udp_packet extra packet = GoPanic \<longleftrightarrow>
      udp_header_ok packet \<and> (\<exists>h. udp_header_length packet = Some h \<and> length packet < h)"
  proof (cases "udp_header_ok packet \<and> udp_header_length packet \<noteq> None")
    case True
    then obtain h where "udp_header_ok packet" "udp_header_length packet = Some h" by blast
    then show ?thesis by (simp add: parse_udp_packet_eq not_le)
  next
    case False
    then show ?thesis using parse_udp_packet_refused[of packet extra] by auto
  qed
  show ?thesis
  proof (cases found)
    case None
    with Pair show ?thesis by (simp add: handle_udp_packet_unknown)
  next
    case (Some p)
    with Pair have "fst (handle_udp_packet env extra s src packet w) = Panicked \<longleftrightarrow>
        parse_udp_packet extra packet = GoPanic"
      by (auto simp: handle_udp_packet_found split: go_result.split prod.split sum.split)
    with Pair Some panic show ?thesis by simp
  qed
qed

text \<open>Packets from unknown sources have no effect: when there is no association to find or adopt,
  the packet is dropped, the server stays as it was and nothing is resolved, dialled or sent; a packet
  is dropped in no other case.\<close>

theorem udp_unknown_source_dropped:
  "if fst (association_for_source src (srv_table s)) = None
   then handle_udp_packet env extra s src packet w = (Dropped, s, w)
   else fst (handle_udp_packet env extra s src packet w) \<noteq> Dropped"
proof (cases "association_for_source src (srv_table s)")
  case (Pair found t)
  show ?thesis
  proof (cases found)
    case None
    with Pair have "t = srv_table s" by (auto dest: association_for_source_None)
    with None Pair show ?thesis by (simp add: handle_udp_packet_unknown)
  next
    case (Some p)
    with Pair show ?thesis
      by (auto simp: handle_udp_packet_found split: go_result.split prod.split sum.split)
  qed
qed

lemma attempt_Inr_iff: "attempt m f w = (Inr y, w') \<longleftrightarrow> (\<exists>r v. m w = (r, v) \<and> f r v = (Inr y, w'))"
  by (auto simp: attempt_def split: prod.splits)

lemma udp_exchange_Inr:
  assumes "udp_exchange env cfg target payload client w = (Inr (), w')"
  obtains sock w1 w2 w3 reply w4 where
    "udp_dial env target w = (Inr sock, w1)" "udp_write env sock payload w2 = (Inr (), w3)"
    "udp_read env sock w3 = (Inr reply, w4)" "ip_to4 (parse_ip (ip_string (u_ip target))) \<noteq> []"
    "fst (udp_write_to env ([0, 0, 0, addrTypeIPv4] @ ip_to4 (parse_ip (ip_string (u_ip target)))
             @ put_uint16 (u_port target) @ reply) client w4) = Inr ()"
proof -
  define payload_io where "payload_io sock =
      (let timeout = (if udp_timeout cfg \<le> 0 then 5 * 1000000000 else udp_timeout cfg) in
       andThen (ignoring (udp_set_deadline env sock timeout)) (\<lambda>_.
       andThen (udp_write env sock payload) (\<lambda>_.
       andThen (udp_read env sock) (\<lambda>reply.
       case build_udp_reply (ip_string (u_ip target)) (u_port target) reply of
         Inl e \<Rightarrow> fail e
       | Inr response \<Rightarrow> udp_write_to env response client))))" for sock
  obtain sock w1 where sock: "udp_dial env target w = (Inr sock, w1)"
    "attempt (payload_io sock)
       (\<lambda>r. andThen (ignoring (udp_close env sock)) (\<lambda>_. case r of Inl e \<Rightarrow> fail e | Inr _ \<Rightarrow> ret ())) w1
     = (Inr (), w')"
    using assms unfolding udp_exchange_def payload_io_def[symmetric] andThen_Inr_iff by blast
  then obtain r v where r: "payload_io sock w1 = (r, v)"
    "andThen (ignoring (udp_close env sock)) (\<lambda>_. case r of Inl e \<Rightarrow> fail e | Inr _ \<Rightarrow> ret ()) v = (Inr (), w')"
    by (auto simp: attempt_Inr_iff)
  then have "r = Inr ()" by (cases r) (auto simp: andThen_Inr_iff)
  with r(1) obtain w2 w3 reply w4 where io: "udp_write env sock payload w2 = (Inr (), w3)"
    "udp_read env sock w3 = (Inr reply, w4)"
    "(case build_udp_reply (ip_string (u_ip target)) (u_port target) reply of
         Inl e \<Rightarrow> fail e | Inr response \<Rightarrow> udp_write_to env response client) w4 = (Inr (), v)"
    by (auto simp: payload_io_def Let_def andThen_Inr_iff)
  then obtain response where "build_udp_reply (ip_string (u_ip target)) (u_port target) reply = Inr response"
    "udp_write_to env response client w4 = (Inr (), v)"
    by (cases "build_udp_reply (ip_string (u_ip target)) (u_port target) reply") auto
  with sock io that show ?thesis by (simp add: build_udp_reply_Inr)
qed

text \<open>C17: An answered packet was relayed faithfully: the payload behind the header was written to the
  address the header's host and port resolve to, and what came back was sent to a client address that
  prints as the packet's source, in a packet that parses back to that target's IPv4 address, its port
  (modulo 65536) and exactly the bytes read.\<close>

theorem udp_answer_faithful:
  assumes "table_inv (srv_table s)"
    and "handle_udp_packet env extra s src packet w = (Answered, s', w')"
  shows "\<exists>host port payload target sock reply client response v1 v2 v3 v4 v5.
    parse_udp_packet extra packet = GoOk (host, port, payload) \<and>
    udp_resolve env (join_host_port host (itoa port)) w = (Inr target, v1) \<and>
    udp_dial env target v1 = (Inr sock, v2) \<and>
    (\<exists>v. udp_write env sock payload v = (Inr (), v3)) \<and> udp_read env sock v3 = (Inr reply, v4) \<and>
    udp_write_to env response (Some client) v4 = (Inr (), v5) \<and>
    udp_addr_string client = udp_addr_string src \<and>
    parse_udp_packet extra response = GoOk (ip_string (u_ip target), u_port target mod 65536, reply)"
proof (cases "association_for_source src (srv_table s)")
  case (Pair found t)
  with assms(2) obtain p where found: "association_for_source src (srv_table s) = (Some p, t)"
    by (cases found) (auto simp: handle_udp_packet_unknown)
  obtain client where client: "client_addr (heap t ! p) = Some client"
      "udp_addr_string client = udp_addr_string src"
    using association_for_source_client[OF assms(1) found] by blast
  obtain host port payload where parsed: "parse_udp_packet extra packet = GoOk (host, port, payload)"
    using assms(2) by (auto simp: handle_udp_packet_found[OF found] split: go_result.splits)
  obtain target v1 where target: "udp_resolve env (join_host_port host (itoa port)) w = (Inr target, v1)"
      "udp_exchange env (srv_cfg s) target payload (Some client) v1 = (Inr (), w')"
    using assms(2) parsed client
    by (auto simp: handle_udp_packet_found[OF found] andThen_Inr_iff split: prod.splits sum.splits)
  let ?ip = "ip_to4 (parse_ip (ip_string (u_ip target)))"
  obtain sock v2 v v3 reply v4 where ex: "udp_dial env target v1 = (Inr sock, v2)"
      "udp_write env sock payload v = (Inr (), v3)" "udp_read env sock v3 = (Inr reply, v4)" "?ip \<noteq> []"
      "fst (udp_write_to env ([0, 0, 0, addrTypeIPv4] @ ?ip @ put_uint16 (u_port target) @ reply)
              (Some client) v4) = Inr ()"
    using udp_exchange_Inr[OF target(2)] by metis
  let ?response = "[0, 0, 0, addrTypeIPv4] @ ?ip @ put_uint16 (u_port target) @ reply"
  have "parse_udp_packet extra ?response = GoOk (string4 ?ip, u_port target mod 65536, reply)"
    using ip_to4_length[OF ex(4)] by (rule parse_udp_packet_v4)
  moreover have "string4 ?ip = ip_string (u_ip target)"
    using ex(4) by (rule string4_of_printed)
  ultimately have "parse_udp_packet extra ?response = GoOk (ip_string (u_ip target), u_port target mod 65536, reply)"
    by simp
  moreover obtain v5 where "udp_write_to env ?response (Some client) v4 = (Inr (), v5)"
    using ex(5) by (metis prod.collapse)
  ultimately show ?thesis
    using parsed target(1) ex(1-3) client(2) by blast
qed

definition sample_udp :: "(byte list list, unit) udp_env" where
  "sample_udp = \<lparr>udp_resolve = \<lambda>_. ret \<lparr>u_ip = [192, 0, 2, 7], u_port = 53, u_zone = []\<rparr>,
     udp_dial = \<lambda>_. ret (), udp_set_deadline = \<lambda>_ _. ret (),
     udp_write = \<lambda>_ bs. modify (\<lambda>w. w @ [bs]), udp_read = \<lambda>_. ret [9, 9],
     udp_close = \<lambda>_. ret (), udp_write_to = \<lambda>bs _. modify (\<lambda>w. w @ [bs])\<rparr>"

abbreviation (input) sample_query :: "byte list" where
  "sample_query \<equiv> [0, 0, 0, 1, 192, 0, 2, 7, 0, 53, 1, 2, 3]"

definition sample_udp_server :: server where
  "sample_udp_server = (sample_server None True)
     \<lparr>srv_table := snd (new_association (sample_addr 2 53000) 0 empty_table)\<rparr>"

lemma udp_unknown_source_dropped_witness:
  "handle_udp_packet sample_udp 3 (sample_server None True) (sample_addr 2 53000) sample_query [] =
     (Dropped, sample_server None True, [])"
proof -
  have "fst (association_for_source (sample_addr 2 53000) (srv_table (sample_server None True))) = None"
    by (simp add: sample_server_def table_eval)
  then show ?thesis
    using udp_unknown_source_dropped[of "sample_addr 2 53000" "sample_server None True" sample_udp 3 sample_query "[]"]
    by simp
qed

lemma sample_query_answered:
  "\<exists>s' w'. handle_udp_packet sample_udp 3 sample_udp_server (sample_addr 2 53000) sample_query [] = (Answered, s', w')"
proof -
  let ?t = "snd (new_association (sample_addr 2 53000) 0 empty_table)"
  have found: "association_for_source (sample_addr 2 53000) (srv_table sample_udp_server) = (Some 0, ?t)"
    by (simp add: sample_udp_server_def table_eval address_eval)
  have len: "length [192, 0, 2, 7 :: byte] = 4" by simp
  have query: "sample_query = [0, 0, 0, addrTypeIPv4] @ [192, 0, 2, 7] @ put_uint16 53 @ [1, 2, 3]"
    by (simp add: put_uint16_def)
  have "parse_udp_packet 3 sample_query = GoOk (string4 [192, 0, 2, 7], 53, [1, 2, 3])"
    unfolding query parse_udp_packet_v4[OF len] by simp
  moreover have "parse_ip (ip_string [192, 0, 2, 7]) = ip_to16 [192, 0, 2, 7]"
    by (rule parse_ip_string) simp
  then have "build_udp_reply (ip_string [192, 0, 2, 7]) 53 [9, 9] =
      Inr ([0, 0, 0, addrTypeIPv4] @ [192, 0, 2, 7] @ put_uint16 53 @ [9, 9])"
    by (simp add: build_udp_reply_Inr ip_to16_def ip_to4_def v4_in_6_prefix_def)
  ultimately show ?thesis
    by (simp add: handle_udp_packet_found[OF found] udp_exchange_def sample_udp_def eff_simps Let_def ignoring_def)
qed

lemma udp_answer_faithful_witness:
  "\<exists>s' w' target response.
     handle_udp_packet sample_udp 3 sample_udp_server (sample_addr 2 53000) sample_query [] = (Answered, s', w') \<and>
     udp_resolve sample_udp (join_host_port ''192.0.2.7'' (itoa 53)) [] = (Inr target, []) \<and>
     parse_udp_packet 3 response = GoOk (ip_string (u_ip target), u_port target mod 65536, [9, 9])"
proof -
  obtain s' w' where run: "handle_udp_packet sample_udp 3 sample_udp_server (sample_addr 2 53000) sample_query [] = (Answered, s', w')"
    using sample_query_answered by blast
  have "table_inv (srv_table sample_udp_server)"
    by (simp add: sample_udp_server_def table_inv_new table_inv_empty)
  from udp_answer_faithful[OF this run] show ?thesis
    using run by (fastforce simp: sample_udp_def)
qed

text \<open>IPv6 targets are never answered over UDP: whatever the target returns, the exchange ends in an
  error and the client gets nothing, although the payload may already have been sent.\<close>

theorem udp_ipv6_never_answered:
  assumes "ip_to4 (u_ip target) = []" "length (u_ip target) = 16"
  shows "\<exists>e. fst (udp_exchange env cfg target payload client w) = Inl e"
proof (cases "udp_exchange env cfg target payload client w")
  case (Pair r w')
  show ?thesis
  proof (cases r)
    case (Inr u)
    then have "ip_to4 (parse_ip (ip_string (u_ip target))) \<noteq> []"
      using Pair udp_exchange_Inr[of env cfg target payload client w w'] by fastforce
    moreover have "parse_ip (ip_string (u_ip target)) = u_ip target"
      using assms parse_ip_string[of "u_ip target"] by (simp add: ip_to16_def)
    ultimately show ?thesis using assms by simp
  qed (use Pair in simp)
qed

lemma udp_ipv6_never_answered_witness:
  "\<exists>e. fst (udp_exchange sample_udp (srv_cfg (sample_server None True))
     \<lparr>u_ip = [32, 1, 13, 184, 0, 0, 0, 0, 0, 0, 0, 0, 0, 0, 0, 1], u_port = 53, u_zone = []\<rparr> [1, 2] (Some (sample_addr 2 53000)) []) = Inl e"
  by (rule udp_ipv6_never_answered) (simp_all add: ip_to4_def v4_in_6_prefix_def)

end
