(* ===== verification/Socks5_Relay.thy ===== *)
theory Socks5_Relay
  imports Socks5_Wire
begin

text \<open>
  The relay of a CONNECT session in \<open>internal/socks5/server.go\<close>: the end of \<open>handleConnect\<close> and
  \<open>proxyCopy\<close>. Two goroutines copy, one per direction; each alternates between a read, which waits for
  bytes or the end of its source, and a write of what it read. The handler waits for the first of them to
  signal, returns and thereby closes both connections; the other goroutine goes on until its next read or
  write fails. What the peers do, sending bytes, ending their side or breaking the connection, are steps
  of their own, so a silent peer is a run in which they do not happen. \<open>arrived\<close> is history: all a peer
  has sent since the relay began.
\<close>

section \<open>The copying goroutines\<close>

datatype side = Client | Upstream

text \<open>Between two reads, with a chunk read but not yet written, or signalled with the result of \<open>io.Copy\<close>.\<close>

datatype phase = Reading | Writing "byte list" | Ended "go_error option"

record copier =
  copy_dst :: side
  copy_src :: side
  copy_phase :: phase

record relay =
  ends :: "side \<Rightarrow> conn"
  peer_ended :: "side \<Rightarrow> bool"
  broken :: "side \<Rightarrow> bool"
  arrived :: "side \<Rightarrow> byte list"
  copiers :: "copier list"
  relay_over :: bool

definition proxy_copy :: "side \<Rightarrow> side \<Rightarrow> copier" where
  "proxy_copy dst src = \<lparr>copy_dst = dst, copy_src = src, copy_phase = Reading\<rparr>"

definition start_relay :: "conn \<Rightarrow> conn \<Rightarrow> relay" where
  "start_relay client upstream =
     \<lparr>ends = (\<lambda>s. case s of Client \<Rightarrow> client | Upstream \<Rightarrow> upstream),
      peer_ended = (\<lambda>_. False), broken = (\<lambda>_. False),
      arrived = (\<lambda>s. case s of Client \<Rightarrow> rx client | Upstream \<Rightarrow> rx upstream),
      copiers = [proxy_copy Upstream Client, proxy_copy Client Upstream], relay_over = False\<rparr>"

fun has_ended :: "copier \<Rightarrow> bool" where
  "has_ended \<lparr>copy_dst = _, copy_src = _, copy_phase = ph\<rparr> = (case ph of Ended _ \<Rightarrow> True | _ \<Rightarrow> False)"

text \<open>\<open><-copyDone\<close> goes on as soon as one of the goroutines has signalled.\<close>

definition signalled :: "relay \<Rightarrow> bool" where
  "signalled r \<longleftrightarrow> list_ex has_ended (copiers r)"

definition has_copier :: "relay \<Rightarrow> nat \<Rightarrow> side \<Rightarrow> side \<Rightarrow> phase \<Rightarrow> bool" where
  "has_copier r k dst src ph \<longleftrightarrow>
     k < length (copiers r) \<and> copiers r ! k = \<lparr>copy_dst = dst, copy_src = src, copy_phase = ph\<rparr>"

abbreviation (input) set_phase :: "nat \<Rightarrow> phase \<Rightarrow> relay \<Rightarrow> relay" where
  "set_phase k ph r \<equiv> r\<lparr>copiers := (copiers r)[k := (copiers r ! k)\<lparr>copy_phase := ph\<rparr>]\<rparr>"

abbreviation (input) set_end :: "side \<Rightarrow> conn \<Rightarrow> relay \<Rightarrow> relay" where
  "set_end s c r \<equiv> r\<lparr>ends := (ends r)(s := c)\<rparr>"

text \<open>The first three rules are the peers', the last the handler's. A read of a broken or closed connection
  fails, a write to one may first get a part of its chunk through.\<close>

inductive relay_step :: "relay \<Rightarrow> relay \<Rightarrow> bool" where
  arrival: "\<not> peer_ended r s \<Longrightarrow> relay_step r
     ((set_end s ((ends r s)\<lparr>rx := rx (ends r s) @ bs\<rparr>) r)\<lparr>arrived := (arrived r)(s := arrived r s @ bs)\<rparr>)"
| peer_ends: "relay_step r (r\<lparr>peer_ended := (peer_ended r)(s := True)\<rparr>)"
| breaks: "relay_step r (r\<lparr>broken := (broken r)(s := True)\<rparr>)"
| read: "has_copier r k dst src Reading \<Longrightarrow> \<not> relay_over r \<Longrightarrow> rx (ends r src) = bs @ rest \<Longrightarrow> bs \<noteq> [] \<Longrightarrow>
     relay_step r (set_end src ((ends r src)\<lparr>rx := rest\<rparr>) (set_phase k (Writing bs) r))"
| read_end: "has_copier r k dst src Reading \<Longrightarrow> \<not> relay_over r \<Longrightarrow> rx (ends r src) = [] \<Longrightarrow> peer_ended r src \<Longrightarrow>
     relay_step r (set_phase k (Ended None) r)"
| read_fails: "has_copier r k dst src Reading \<Longrightarrow> broken r src \<or> relay_over r \<Longrightarrow>
     relay_step r (set_phase k (Ended (Some e)) r)"
| wrote: "has_copier r k dst src (Writing bs) \<Longrightarrow> \<not> relay_over r \<Longrightarrow> conn_write bs (ends r dst) = (Inr (), c) \<Longrightarrow>
     relay_step r (set_end dst c (set_phase k Reading r))"
| write_fails: "has_copier r k dst src (Writing (out @ kept)) \<Longrightarrow>
     broken r dst \<or> relay_over r \<or> writes_left (ends r dst) = 0 \<Longrightarrow>
     relay_step r (set_end dst ((ends r dst)\<lparr>tx := tx (ends r dst) @ out\<rparr>) (set_phase k (Ended (Some e)) r))"
| returns: "\<not> relay_over r \<Longrightarrow> signalled r \<Longrightarrow> relay_step r (r\<lparr>relay_over := True\<rparr>)"

inductive_cases relay_stepE: "relay_step r r'"

section \<open>What has been forwarded\<close>

text \<open>Of the bytes that arrived at one side, some were written to the other, some are unread, and between
  them lies what the goroutine holds; one that saw the end of its source holds nothing and left nothing.\<close>

definition flow :: "relay \<Rightarrow> relay \<Rightarrow> side \<Rightarrow> side \<Rightarrow> phase \<Rightarrow> bool" where
  "flow r0 r src dst ph \<longleftrightarrow> (\<exists>moved held.
     tx (ends r dst) = tx (ends r0 dst) @ moved \<and> arrived r src = moved @ held @ rx (ends r src) \<and>
     (case ph of
        Reading \<Rightarrow> held = []
      | Writing bs \<Rightarrow> held = bs
      | Ended None \<Rightarrow> held = [] \<and> rx (ends r src) = [] \<and> peer_ended r src
      | Ended (Some _) \<Rightarrow> True))"

definition failed :: "relay \<Rightarrow> bool" where
  "failed r \<longleftrightarrow> (\<exists>s. broken r s \<or> writes_left (ends r s) = 0)"

lemma failed_mono:
  "failed r \<Longrightarrow> (\<And>s. broken r s \<Longrightarrow> broken r' s) \<Longrightarrow> (\<And>s. writes_left (ends r' s) \<le> writes_left (ends r s)) \<Longrightarrow> failed r'"
  unfolding failed_def by (metis le_zero_eq)

definition relay_inv :: "relay \<Rightarrow> relay \<Rightarrow> phase \<Rightarrow> phase \<Rightarrow> bool" where
  "relay_inv r0 r p q \<longleftrightarrow>
     copiers r = [\<lparr>copy_dst = Upstream, copy_src = Client, copy_phase = p\<rparr>,
                  \<lparr>copy_dst = Client, copy_src = Upstream, copy_phase = q\<rparr>] \<and>
     flow r0 r Client Upstream p \<and> flow r0 r Upstream Client q \<and>
     (\<forall>e. Ended (Some e) \<in> {p, q} \<longrightarrow> failed r \<or> relay_over r) \<and>
     (relay_over r \<longrightarrow> Ended None \<in> {p, q} \<or> failed r)"

lemma side_other: "(s \<noteq> Client) = (s = Upstream)" "(s \<noteq> Upstream) = (s = Client)"
  by (cases s; simp)+

lemma relay_inv_start: "relay_inv (start_relay c u) (start_relay c u) Reading Reading"
  by (simp add: relay_inv_def start_relay_def proxy_copy_def flow_def)

lemma has_copier_cases:
  assumes "relay_inv r0 r p q" "has_copier r k dst src ph"
  obtains (up) "k = 0" "dst = Upstream" "src = Client" "ph = p" | (down) "k = 1" "dst = Client" "src = Upstream" "ph = q"
  using assms by (auto simp: relay_inv_def has_copier_def less_Suc_eq)

lemma flow_other:
  "flow r0 r src dst ph \<Longrightarrow> tx (ends r' dst) = tx (ends r dst) \<Longrightarrow> rx (ends r' src) = rx (ends r src) \<Longrightarrow>
   arrived r' src = arrived r src \<Longrightarrow> (peer_ended r src \<Longrightarrow> peer_ended r' src) \<Longrightarrow> flow r0 r' src dst ph"
  by (auto simp: flow_def split: phase.splits option.splits)

lemma flow_arrival:
  "flow r0 r src dst ph \<Longrightarrow> \<not> peer_ended r src \<Longrightarrow> tx (ends r' dst) = tx (ends r dst) \<Longrightarrow>
   rx (ends r' src) = rx (ends r src) @ bs \<Longrightarrow> arrived r' src = arrived r src @ bs \<Longrightarrow> flow r0 r' src dst ph"
  by (auto simp: flow_def split: phase.splits option.splits)

lemma flow_read:
  "flow r0 r src dst Reading \<Longrightarrow> rx (ends r src) = bs @ rest \<Longrightarrow> tx (ends r' dst) = tx (ends r dst) \<Longrightarrow>
   rx (ends r' src) = rest \<Longrightarrow> arrived r' src = arrived r src \<Longrightarrow> flow r0 r' src dst (Writing bs)"
  by (auto simp: flow_def)

lemma flow_write:
  "flow r0 r src dst (Writing bs) \<Longrightarrow> tx (ends r' dst) = tx (ends r dst) @ bs \<Longrightarrow>
   rx (ends r' src) = rx (ends r src) \<Longrightarrow> arrived r' src = arrived r src \<Longrightarrow> flow r0 r' src dst Reading"
  by (auto simp: flow_def)

lemma flow_end:
  "flow r0 r src dst Reading \<Longrightarrow> tx (ends r' dst) = tx (ends r dst) \<Longrightarrow> rx (ends r src) = [] \<Longrightarrow>
   rx (ends r' src) = [] \<Longrightarrow> arrived r' src = arrived r src \<Longrightarrow> peer_ended r' src \<Longrightarrow> flow r0 r' src dst (Ended None)"
  by (auto simp: flow_def)

lemma flow_fail:
  "flow r0 r src dst ph \<Longrightarrow> ph = Reading \<and> out = [] \<or> ph = Writing (out @ kept) \<Longrightarrow> tx (ends r' dst) = tx (ends r dst) @ out \<Longrightarrow>
   rx (ends r' src) = rx (ends r src) \<Longrightarrow> arrived r' src = arrived r src \<Longrightarrow> flow r0 r' src dst (Ended (Some e))"
  by (auto simp: flow_def)

text \<open>The invariant, by the copier that moves: the other direction's flow is untouched, as it reads what this one
  does not and writes where this one does not.\<close>

lemma relay_inv_move:
  assumes "relay_inv r0 r p q" "has_copier r k dst src ph"
    and "copiers r' = (copiers r)[k := (copiers r ! k)\<lparr>copy_phase := ph'\<rparr>]" "relay_over r' = relay_over r"
    and "flow r0 r' src dst ph'" "tx (ends r' src) = tx (ends r src)" "rx (ends r' dst) = rx (ends r dst)"
    and "arrived r' = arrived r" "peer_ended r' = peer_ended r" "failed r \<Longrightarrow> failed r'"
    and "\<And>e. ph' = Ended (Some e) \<Longrightarrow> failed r' \<or> relay_over r" "\<And>x. ph \<noteq> Ended x"
  shows "\<exists>p' q'. relay_inv r0 r' p' q'"
  using assms(1,2)
proof (cases rule: has_copier_cases)
  case up
  have "flow r0 r' Upstream Client q"
    using assms(1,6-9) up by (intro flow_other[where r = r and r' = r']) (simp_all add: relay_inv_def)
  then have "relay_inv r0 r' ph' q"
    using assms up by (auto simp: relay_inv_def)
  then show ?thesis by blast
next
  case down
  have "flow r0 r' Client Upstream p"
    using assms(1,6-9) down by (intro flow_other[where r = r and r' = r']) (simp_all add: relay_inv_def)
  then have "relay_inv r0 r' p ph'"
    using assms down by (auto simp: relay_inv_def)
  then show ?thesis by blast
qed

lemma relay_inv_flow:
  assumes "relay_inv r0 r p q" "has_copier r k dst src ph"
  shows "flow r0 r src dst ph" "src \<noteq> dst"
proof -
  show "flow r0 r src dst ph"
    using assms(1) by (cases rule: has_copier_cases[OF assms]) (simp_all add: relay_inv_def)
  show "src \<noteq> dst" by (cases rule: has_copier_cases[OF assms]) simp_all
qed

text \<open>The steps that move no copier.\<close>

lemma relay_inv_quiet:
  assumes "relay_inv r0 r p q" "copiers r' = copiers r"
    and "\<And>src dst ph. flow r0 r src dst ph \<Longrightarrow> src \<noteq> dst \<Longrightarrow> flow r0 r' src dst ph"
    and "failed r \<Longrightarrow> failed r'" "relay_over r \<Longrightarrow> relay_over r'"
    and "relay_over r' \<Longrightarrow> relay_over r \<or> Ended None \<in> {p, q} \<or> failed r'"
  shows "\<exists>p q. relay_inv r0 r' p q"
proof -
  have "relay_inv r0 r' p q"
    using assms(1,2) assms(3)[of Client Upstream p] assms(3)[of Upstream Client q] assms(4-6)
    unfolding relay_inv_def by auto
  then show ?thesis by blast
qed

lemma relay_step_inv:
  assumes "relay_step r r'" "relay_inv r0 r p q"
  shows "\<exists>p' q'. relay_inv r0 r' p' q'"
  using assms(1)
proof cases
  case (arrival s bs)
  have flow: "flow r0 r' src dst ph" if "flow r0 r src dst ph" for src dst ph
    using that arrival by (cases "s = src") (auto intro: flow_arrival flow_other)
  have fails: "failed r'" if "failed r" using that by (rule failed_mono) (simp_all add: arrival(1))
  have same: "copiers r' = copiers r" "relay_over r' = relay_over r" by (simp_all add: arrival(1))
  show ?thesis by (rule relay_inv_quiet[OF assms(2) same(1) flow fails]) (simp_all only: same simp_thms)
next
  case (peer_ends s)
  have flow: "flow r0 r' src dst ph" if "flow r0 r src dst ph" for src dst ph
    by (rule flow_other[OF that]) (simp_all add: peer_ends(1))
  have fails: "failed r'" if "failed r" using that by (rule failed_mono) (simp_all add: peer_ends(1))
  have same: "copiers r' = copiers r" "relay_over r' = relay_over r" by (simp_all add: peer_ends(1))
  show ?thesis by (rule relay_inv_quiet[OF assms(2) same(1) flow fails]) (simp_all only: same simp_thms)
next
  case (breaks s)
  have flow: "flow r0 r' src dst ph" if "flow r0 r src dst ph" for src dst ph
    by (rule flow_other[OF that]) (simp_all add: breaks(1))
  have fails: "failed r'" by (auto simp: failed_def breaks(1))
  have same: "copiers r' = copiers r" "relay_over r' = relay_over r" by (simp_all add: breaks(1))
  show ?thesis by (rule relay_inv_quiet[OF assms(2) same(1) flow fails]) (simp_all only: same simp_thms)
next
  case (read k dst src bs rest)
  have neq: "src \<noteq> dst" by (rule relay_inv_flow(2)[OF assms(2) read(2)])
  have flow: "flow r0 r' src dst (Writing bs)"
    using relay_inv_flow(1)[OF assms(2) read(2)] by (rule flow_read) (use neq read(4) in \<open>simp_all add: read(1)\<close>)
  have fails: "failed r'" if "failed r" using that by (rule failed_mono) (simp_all add: read(1))
  show ?thesis
    by (rule relay_inv_move[OF assms(2) read(2) _ _ flow _ _ _ _ fails])
       (use neq in \<open>simp_all add: read(1)\<close>)
next
  case (read_end k dst src)
  have neq: "src \<noteq> dst" by (rule relay_inv_flow(2)[OF assms(2) read_end(2)])
  have flow: "flow r0 r' src dst (Ended None)"
    using relay_inv_flow(1)[OF assms(2) read_end(2)] by (rule flow_end) (simp_all add: read_end(1,4,5))
  have fails: "failed r'" if "failed r" using that by (rule failed_mono) (simp_all add: read_end(1))
  show ?thesis
    by (rule relay_inv_move[OF assms(2) read_end(2) _ _ flow _ _ _ _ fails])
       (use neq in \<open>simp_all add: read_end(1)\<close>)
next
  case (read_fails k dst src e)
  have neq: "src \<noteq> dst" by (rule relay_inv_flow(2)[OF assms(2) read_fails(2)])
  have flow: "flow r0 r' src dst (Ended (Some e))"
    using relay_inv_flow(1)[OF assms(2) read_fails(2)] by (rule flow_fail[where out = "[]"]) (simp_all add: read_fails(1))
  have fails: "failed r'" if "failed r" using that by (rule failed_mono) (simp_all add: read_fails(1))
  have over: "failed r' \<or> relay_over r" using read_fails(3) by (auto simp: failed_def read_fails(1))
  show ?thesis
    by (rule relay_inv_move[OF assms(2) read_fails(2) _ _ flow _ _ _ _ fails])
       (use neq over in \<open>simp_all add: read_fails(1)\<close>)
next
  case (wrote k dst src bs c)
  have neq: "src \<noteq> dst" by (rule relay_inv_flow(2)[OF assms(2) wrote(2)])
  have flow: "flow r0 r' src dst (Reading)"
    using relay_inv_flow(1)[OF assms(2) wrote(2)] by (rule flow_write) (use neq wrote(4) in \<open>simp_all add: wrote(1) conn_write_Inr\<close>)
  have fails: "failed r'" if "failed r" using that by (rule failed_mono) (use wrote(4) in \<open>auto simp: wrote(1) conn_write_Inr\<close>)
  show ?thesis
    by (rule relay_inv_move[OF assms(2) wrote(2) _ _ flow _ _ _ _ fails])
       (use neq wrote(4) in \<open>simp_all add: wrote(1) conn_write_Inr\<close>)
next
  case (write_fails k dst src out kept e)
  have neq: "src \<noteq> dst" by (rule relay_inv_flow(2)[OF assms(2) write_fails(2)])
  have flow: "flow r0 r' src dst (Ended (Some e))"
    using relay_inv_flow(1)[OF assms(2) write_fails(2)] by (rule flow_fail[where out = out and kept = kept]) (use neq in \<open>simp_all add: write_fails(1)\<close>)
  have fails: "failed r'" if "failed r" using that by (rule failed_mono) (simp_all add: write_fails(1))
  have over: "failed r' \<or> relay_over r" using write_fails(3) by (auto simp: failed_def write_fails(1))
  show ?thesis
    by (rule relay_inv_move[OF assms(2) write_fails(2) _ _ flow _ _ _ _ fails])
       (use neq over in \<open>simp_all add: write_fails(1)\<close>)
next
  case returns
  have flow: "flow r0 r' src dst ph" if "flow r0 r src dst ph" for src dst ph
    by (rule flow_other[OF that]) (simp_all add: returns(1))
  have fails: "failed r'" if "failed r" using that by (rule failed_mono) (simp_all add: returns(1))
  have copiers: "copiers r' = copiers r" by (simp add: returns(1))
  have "\<exists>x. Ended x \<in> {p, q}"
    using assms(2) returns(3) by (auto simp: relay_inv_def signalled_def split: phase.splits)
  moreover have "\<forall>e. Ended (Some e) \<in> {p, q} \<longrightarrow> failed r" using assms(2) returns(2) by (simp add: relay_inv_def)
  ultimately have "Ended None \<in> {p, q} \<or> failed r'" using fails by (metis not_None_eq)
  then show ?thesis
    by (intro relay_inv_quiet[OF assms(2) copiers flow fails]) (blast | simp add: returns(1,2))+
qed

lemma relay_steps_inv:
  assumes "relay_step\<^sup>*\<^sup>* (start_relay c u) r"
  shows "\<exists>p q. relay_inv (start_relay c u) r p q"
  using assms by (induction rule: rtranclp_induct) (use relay_inv_start relay_step_inv in blast)+

section \<open>What a relay can still do\<close>

lemma write_chunk:
  assumes "has_copier r k dst src (Writing bs)" "\<not> relay_over r" "0 < writes_left (ends r dst)"
  shows "\<exists>r'. relay_step r r' \<and> has_copier r' k dst src Reading \<and> \<not> relay_over r' \<and>
    tx (ends r' dst) = tx (ends r dst) @ bs \<and> Suc (writes_left (ends r' dst)) = writes_left (ends r dst) \<and>
    rx (ends r' src) = rx (ends r src)"
proof -
  let ?c = "(ends r dst)\<lparr>tx := tx (ends r dst) @ bs, writes_left := writes_left (ends r dst) - 1\<rparr>"
  let ?r = "set_end dst ?c (set_phase k Reading r)"
  have "relay_step r ?r" by (rule relay_step.wrote[OF assms(1,2)]) (use assms(3) in \<open>simp add: conn_write_Inr\<close>)
  moreover have "has_copier ?r k dst src Reading" using assms(1) by (simp add: has_copier_def)
  ultimately show ?thesis using assms(2,3) by (intro exI[of _ ?r]) simp
qed

lemma deliver_unread:
  assumes "has_copier r k dst src Reading" "\<not> relay_over r" "0 < writes_left (ends r dst)" "src \<noteq> dst"
  shows "\<exists>r'. relay_step\<^sup>*\<^sup>* r r' \<and> tx (ends r' dst) = tx (ends r dst) @ rx (ends r src)"
proof (cases "rx (ends r src) = []")
  case False
  let ?r = "set_end src ((ends r src)\<lparr>rx := []\<rparr>) (set_phase k (Writing (rx (ends r src))) r)"
  have step: "relay_step r ?r" by (rule relay_step.read[OF assms(1,2)]) (simp_all add: False)
  have "has_copier ?r k dst src (Writing (rx (ends r src)))" using assms(1) by (simp add: has_copier_def)
  from write_chunk[OF this] obtain r' where "relay_step ?r r'" "tx (ends r' dst) = tx (ends ?r dst) @ rx (ends r src)"
    using assms(2,3,4) by auto
  with step assms(4) show ?thesis by (intro exI[of _ r']) auto
qed auto

lemma deliver_held:
  assumes "has_copier r k dst src ph" "\<And>x. ph \<noteq> Ended x" "\<not> relay_over r" "2 \<le> writes_left (ends r dst)" "src \<noteq> dst"
  shows "\<exists>r'. relay_step\<^sup>*\<^sup>* r r' \<and>
    tx (ends r' dst) = tx (ends r dst) @ (case ph of Writing bs \<Rightarrow> bs | _ \<Rightarrow> []) @ rx (ends r src)"
proof (cases ph)
  case Reading
  with deliver_unread[of r k dst src] assms show ?thesis by simp
next
  case (Writing bs)
  obtain r1 where r1: "relay_step r r1" "has_copier r1 k dst src Reading" "\<not> relay_over r1"
    "tx (ends r1 dst) = tx (ends r dst) @ bs" "Suc (writes_left (ends r1 dst)) = writes_left (ends r dst)"
    "rx (ends r1 src) = rx (ends r src)"
    using write_chunk[of r k dst src bs] assms(1,3,4) Writing by auto
  obtain r' where "relay_step\<^sup>*\<^sup>* r1 r'" "tx (ends r' dst) = tx (ends r1 dst) @ rx (ends r1 src)"
    using deliver_unread[OF r1(2,3) _ assms(5)] r1(5) assms(4) by auto
  with r1 Writing show ?thesis by (intro exI[of _ r']) (auto intro: converse_rtranclp_into_rtranclp)
qed (use assms(2) in blast)

text \<open>A closed connection ends its copiers.\<close>

lemma copier_can_end:
  assumes "relay_over r" "k < length (copiers r)"
  shows "\<exists>r' e. relay_step\<^sup>*\<^sup>* r r' \<and> relay_over r' \<and> copiers r' = (copiers r)[k := (copiers r ! k)\<lparr>copy_phase := Ended e\<rparr>]"
proof -
  obtain dst src ph where c: "has_copier r k dst src ph"
    using assms(2) by (cases "copiers r ! k") (auto simp: has_copier_def)
  show ?thesis
  proof (cases ph)
    case Reading
    with relay_step.read_fails[of r k dst src undefined] c assms(1) show ?thesis
      by (intro exI[of _ "set_phase k (Ended (Some undefined)) r"] exI[of _ "Some undefined"]) auto
  next
    case (Writing bs)
    with relay_step.write_fails[of r k dst src "[]" bs undefined] c assms(1) show ?thesis
      by (intro exI[of _ "set_end dst ((ends r dst)\<lparr>tx := tx (ends r dst) @ []\<rparr>) (set_phase k (Ended (Some undefined)) r)"]
          exI[of _ "Some undefined"]) auto
  next
    case (Ended e)
    then have "(copiers r)[k := (copiers r ! k)\<lparr>copy_phase := Ended e\<rparr>] = copiers r"
      using c by (simp add: has_copier_def list_update_same_conv)
    with assms(1) show ?thesis by (intro exI[of _ r] exI[of _ e]) simp
  qed
qed

lemma copiers_can_end:
  assumes "relay_over r" "length (copiers r) = 2"
  shows "\<exists>r'. relay_step\<^sup>*\<^sup>* r r' \<and> relay_over r' \<and> list_all has_ended (copiers r')"
proof -
  obtain r1 e1 where r1: "relay_step\<^sup>*\<^sup>* r r1" "relay_over r1" "copiers r1 = (copiers r)[0 := (copiers r ! 0)\<lparr>copy_phase := Ended e1\<rparr>]"
    using copier_can_end[of r 0] assms by auto
  obtain r2 e2 where r2: "relay_step\<^sup>*\<^sup>* r1 r2" "relay_over r2" "copiers r2 = (copiers r1)[1 := (copiers r1 ! 1)\<lparr>copy_phase := Ended e2\<rparr>]"
    using copier_can_end[of r1 1] assms r1 by auto
  obtain a b where ab: "copiers r = [a, b]"
    using assms(2) by (metis (no_types) One_nat_def Suc_1 length_0_conv length_Suc_conv)
  have "has_ended (c\<lparr>copy_phase := Ended e\<rparr>)" for c e by (cases c) simp
  then have "list_all has_ended (copiers r2)" using r1(3) r2(3) ab by simp
  with r1(1) r2(1,2) show ?thesis by (meson rtranclp_trans)
qed

text \<open>C38: The CONNECT relay loses nothing it could deliver. At every moment each side has been sent, after what
  was written to it before, exactly a prefix of what the other side sent, in order; what is missing is
  unread or held by the one goroutine that copies in this direction, and a copy that ended with the end
  of its source has delivered everything. While neither copy has ended and a side takes writes, all that
  the other side has sent so far can still reach it. The handler can return as soon as one of the copies
  has ended; when it has returned, one direction is complete or a connection failed; and then the
  goroutines that are left can end, whatever the peers do.\<close>

theorem relay_forwards:
  assumes "relay_step\<^sup>*\<^sup>* (start_relay c u) r"
  shows "(\<exists>p q. map copy_phase (copiers r) = [p, q] \<and>
       flow (start_relay c u) r Client Upstream p \<and> flow (start_relay c u) r Upstream Client q \<and>
       (relay_over r \<longrightarrow> p = Ended None \<or> q = Ended None \<or> failed r)) \<and>
    (\<forall>src dst. src \<noteq> dst \<longrightarrow> \<not> signalled r \<longrightarrow> \<not> relay_over r \<longrightarrow> 2 \<le> writes_left (ends r dst) \<longrightarrow>
       (\<exists>r'. relay_step\<^sup>*\<^sup>* r r' \<and> tx (ends r' dst) = tx (ends (start_relay c u) dst) @ arrived r src)) \<and>
    (signalled r \<longrightarrow> \<not> relay_over r \<longrightarrow> relay_step r (r\<lparr>relay_over := True\<rparr>)) \<and>
    (relay_over r \<longrightarrow> (\<exists>r'. relay_step\<^sup>*\<^sup>* r r' \<and> list_all has_ended (copiers r')))"
proof -
  let ?r0 = "start_relay c u"
  obtain p q where inv: "relay_inv ?r0 r p q" using relay_steps_inv[OF assms] by blast
  have deliver: "\<exists>r'. relay_step\<^sup>*\<^sup>* r r' \<and> tx (ends r' dst) = tx (ends ?r0 dst) @ arrived r src"
    if "has_copier r k dst src ph" "\<not> has_ended (copiers r ! k)" "\<not> relay_over r" "2 \<le> writes_left (ends r dst)" for k dst src ph
  proof -
    have running: "ph \<noteq> Ended x" for x using that(1,2) by (auto simp: has_copier_def)
    have "tx (ends r dst) @ (case ph of Writing bs \<Rightarrow> bs | _ \<Rightarrow> []) @ rx (ends r src) = tx (ends ?r0 dst) @ arrived r src"
      using relay_inv_flow(1)[OF inv that(1)] running by (auto simp: flow_def split: phase.splits)
    with deliver_held[OF that(1) running that(3,4) relay_inv_flow(2)[OF inv that(1)]] show ?thesis by metis
  qed
  have up: "has_copier r 0 Upstream Client p" and down: "has_copier r 1 Client Upstream q"
    using inv by (simp_all add: relay_inv_def has_copier_def)
  have "\<exists>r'. relay_step\<^sup>*\<^sup>* r r' \<and> tx (ends r' dst) = tx (ends ?r0 dst) @ arrived r src"
    if "src \<noteq> dst" "\<not> signalled r" "\<not> relay_over r" "2 \<le> writes_left (ends r dst)" for src dst
  proof -
    have "\<not> has_ended (copiers r ! k)" if "k < 2" for k
      using \<open>\<not> signalled r\<close> that inv by (auto simp: signalled_def relay_inv_def less_2_cases_iff)
    with deliver[OF up] deliver[OF down] that show ?thesis by (cases src; cases dst) simp_all
  qed
  moreover have "\<exists>p q. map copy_phase (copiers r) = [p, q] \<and> flow ?r0 r Client Upstream p \<and> flow ?r0 r Upstream Client q \<and>
       (relay_over r \<longrightarrow> p = Ended None \<or> q = Ended None \<or> failed r)"
    using inv by (intro exI[of _ p] exI[of _ q]) (auto simp: relay_inv_def)
  moreover have "\<exists>r'. relay_step\<^sup>*\<^sup>* r r' \<and> list_all has_ended (copiers r')" if "relay_over r"
    using copiers_can_end[OF that] inv by (auto simp: relay_inv_def)
  ultimately show ?thesis using relay_step.returns[of r] by blast
qed

text \<open>A client whose first byte was forwarded while its second arrived, and an upstream side that has sent
  nothing yet.\<close>

definition sample_side :: "byte list \<Rightarrow> conn" where
  "sample_side bs = \<lparr>rx = bs, tx = [], writes_left = 9, remote_ip = [10, 0, 0, 9]\<rparr>"

definition sample_relay :: relay where
  "sample_relay = (start_relay (sample_side [2]) ((sample_side [])\<lparr>tx := [1], writes_left := 8\<rparr>))
     \<lparr>arrived := (\<lambda>_. [])(Client := [1, 2])\<rparr>"

lemma sample_relay_reached: "relay_step\<^sup>*\<^sup>* (start_relay (sample_side [1]) (sample_side [])) sample_relay"
proof -
  let ?r0 = "start_relay (sample_side [1]) (sample_side [])"
  let ?r1 = "(set_end Client ((ends ?r0 Client)\<lparr>rx := rx (ends ?r0 Client) @ [2]\<rparr>) ?r0)
    \<lparr>arrived := (arrived ?r0)(Client := arrived ?r0 Client @ [2])\<rparr>"
  let ?r2 = "set_end Client ((ends ?r1 Client)\<lparr>rx := [2]\<rparr>) (set_phase 0 (Writing [1]) ?r1)"
  have "relay_step ?r0 ?r1" by (rule relay_step.arrival) (simp add: start_relay_def)
  moreover have "relay_step ?r1 ?r2"
    by (rule relay_step.read[where dst = Upstream]) (simp_all add: start_relay_def has_copier_def proxy_copy_def sample_side_def)
  moreover have "relay_step ?r2 (set_end Upstream ((ends ?r2 Upstream)\<lparr>tx := [1], writes_left := 8\<rparr>) (set_phase 0 Reading ?r2))"
    by (rule relay_step.wrote[where src = Client and bs = "[1]"])
       (simp_all add: start_relay_def has_copier_def proxy_copy_def sample_side_def conn_write_Inr)
  moreover have "set_end Upstream ((ends ?r2 Upstream)\<lparr>tx := [1], writes_left := 8\<rparr>) (set_phase 0 Reading ?r2) = sample_relay"
    by (auto simp: sample_relay_def start_relay_def proxy_copy_def sample_side_def fun_eq_iff split: side.split)
  ultimately show ?thesis by (metis (no_types, lifting) rtranclp.rtrancl_refl rtranclp.rtrancl_into_rtrancl)
qed

lemma relay_forwards_witness:
  "flow (start_relay (sample_side [1]) (sample_side [])) sample_relay Client Upstream Reading \<and>
   (\<exists>r'. relay_step\<^sup>*\<^sup>* sample_relay r' \<and> tx (ends r' Upstream) = [1, 2])"
proof -
  have shape: "map copy_phase (copiers sample_relay) = [Reading, Reading]" "\<not> signalled sample_relay"
    "\<not> relay_over sample_relay" "writes_left (ends sample_relay Upstream) = 8" "arrived sample_relay Client = [1, 2]"
    by (simp_all add: sample_relay_def start_relay_def proxy_copy_def signalled_def)
  have start: "tx (ends (start_relay (sample_side [1]) (sample_side [])) Upstream) = []"
    by (simp add: start_relay_def sample_side_def)
  have "\<exists>r'. relay_step\<^sup>*\<^sup>* sample_relay r' \<and> tx (ends r' Upstream) =
      tx (ends (start_relay (sample_side [1]) (sample_side [])) Upstream) @ arrived sample_relay Client"
    using conjunct1[OF conjunct2[OF relay_forwards[OF sample_relay_reached]], rule_format, of Client Upstream] shape by simp
  moreover have "flow (start_relay (sample_side [1]) (sample_side [])) sample_relay Client Upstream Reading"
    using relay_forwards[OF sample_relay_reached] unfolding shape(1) by blast
  ultimately show ?thesis using shape(5) start by simp
qed

end
