(* ===== verification/Socks5_Loops.thy ===== *)
theory Socks5_Loops
  imports Socks5_Server Socks5_Relay
begin

text \<open>
  The server of \<open>internal/socks5/server.go\<close> as it runs: the accept loop and the UDP loop start a goroutine for
  every connection and every packet, and these interleave. A state holds the server, the sockets and the
  outside world, the goroutines and whether the loops run; a step is one goroutine going on to the next
  point at which another one can see what it did (the association map behind its mutex, a socket) or at
  which it blocks.

  A goroutine that waits for its client waits here too: what clients do is steps of their own. \<open>px_ready\<close>
  holds the connections whose client has sent all it sends before it reads the reply to its request, or
  has given up; \<open>px_ended\<close> those whose client has ended the connection. \<open>px_clients\<close> is history: each
  accepted connection with what its client sends up to that point.
\<close>

section \<open>Sockets\<close>

text \<open>The sockets the process holds open: listeners by the address they are bound to, accepted connections by
  their number. Closing a socket releases it even if the call reports an error.\<close>

record 'w net =
  outside :: 'w
  tcp_open :: "udp_addr set"
  udp_open :: "udp_addr set"
  conn_open :: "nat set"

definition new_net :: "'w \<Rightarrow> 'w net" where
  "new_net w = \<lparr>outside = w, tcp_open = {}, udp_open = {}, conn_open = {}\<rparr>"

definition on_outside :: "('w, 'a) eff \<Rightarrow> ('w net, 'a) eff" where
  "on_outside m = (\<lambda>n. case m (outside n) of (r, w) \<Rightarrow> (r, n\<lparr>outside := w\<rparr>))"

definition hang_up :: "nat \<Rightarrow> 'w net \<Rightarrow> 'w net" where
  "hang_up i n = n\<lparr>conn_open := conn_open n - {i}\<rparr>"

definition sockets :: "'w listen_env \<Rightarrow> 'w net listen_env" where
  "sockets env =
     \<lparr>resolve_tcp = (\<lambda>s. on_outside (resolve_tcp env s)),
      listen_tcp = (\<lambda>a. andThen (on_outside (listen_tcp env a)) (\<lambda>b.
        andThen (modify (\<lambda>n. n\<lparr>tcp_open := insert b (tcp_open n)\<rparr>)) (\<lambda>_. ret b))),
      listen_udp = (\<lambda>a. andThen (on_outside (listen_udp env a)) (\<lambda>b.
        andThen (modify (\<lambda>n. n\<lparr>udp_open := insert b (udp_open n)\<rparr>)) (\<lambda>_. ret b))),
      close_tcp = (\<lambda>a. andThen (modify (\<lambda>n. n\<lparr>tcp_open := tcp_open n - {a}\<rparr>)) (\<lambda>_. on_outside (close_tcp env a))),
      close_udp = (\<lambda>a. andThen (modify (\<lambda>n. n\<lparr>udp_open := udp_open n - {a}\<rparr>)) (\<lambda>_. on_outside (close_udp env a))),
      close_conn = (\<lambda>i. andThen (modify (hang_up i)) (\<lambda>_. on_outside (close_conn env i)))\<rparr>"

text \<open>The operations of a packet's goroutine; the reply goes through the server's UDP socket.\<close>

definition udp_sockets :: "('w, 's) udp_env \<Rightarrow> udp_addr option \<Rightarrow> ('w net, 's) udp_env" where
  "udp_sockets udp ln =
     \<lparr>udp_resolve = (\<lambda>s. on_outside (udp_resolve udp s)), udp_dial = (\<lambda>a. on_outside (udp_dial udp a)),
      udp_set_deadline = (\<lambda>s t. on_outside (udp_set_deadline udp s t)), udp_write = (\<lambda>s bs. on_outside (udp_write udp s bs)),
      udp_read = (\<lambda>s. on_outside (udp_read udp s)), udp_close = (\<lambda>s. on_outside (udp_close udp s)),
      udp_write_to = (\<lambda>bs client n.
        if \<exists>a \<in> set_option ln. a \<in> udp_open n then on_outside (udp_write_to udp bs client) n
        else (Inl (errorf ''use of closed network connection''), n))\<rparr>"

section \<open>The goroutines\<close>

datatype handler =
  Serving conn
| Filed udp_addr nat conn
| Holding udp_addr nat conn
| Copying relay
| Over

datatype packet_job =
  Arrived udp_addr "byte list"
| Matched udp_addr nat "byte list"
| Finished packet_fate

record 'w proxy =
  px_server :: server
  px_world :: "'w net"
  px_accepting :: bool
  px_receiving :: bool
  px_clients :: "conn list"
  px_handlers :: "handler list"
  px_jobs :: "packet_job list"
  px_ready :: "nat set"
  px_ended :: "nat set"

text \<open>One round of \<open>acceptLoop\<close> and of \<open>udpLoop\<close>: an error ends the loop, anything else gets a goroutine.\<close>

definition accept_round :: "go_error + conn \<Rightarrow> 'w proxy \<Rightarrow> 'w proxy" where
  "accept_round got p =
     (case got of
        Inl _ \<Rightarrow> p\<lparr>px_accepting := False\<rparr>
      | Inr c \<Rightarrow> p\<lparr>px_clients := px_clients p @ [c], px_handlers := px_handlers p @ [Serving c],
          px_world := (px_world p)\<lparr>conn_open := insert (length (px_handlers p)) (conn_open (px_world p))\<rparr>\<rparr>)"

definition udp_round :: "go_error + udp_addr \<times> byte list \<Rightarrow> 'w proxy \<Rightarrow> 'w proxy" where
  "udp_round got p =
     (case got of
        Inl _ \<Rightarrow> p\<lparr>px_receiving := False\<rparr>
      | Inr (src, packet) \<Rightarrow> p\<lparr>px_jobs := px_jobs p @ [Arrived src packet]\<rparr>)"

text \<open>\<open>Start\<close> starts the accept loop, and the UDP loop where there is a UDP socket.\<close>

definition started :: "server \<Rightarrow> 'w net \<Rightarrow> 'w proxy" where
  "started s n = \<lparr>px_server = s, px_world = n, px_accepting = True, px_receiving = (udp_ln s \<noteq> None),
     px_clients = [], px_handlers = [], px_jobs = [], px_ready = {}, px_ended = {}\<rparr>"

definition listening :: "'w proxy \<Rightarrow> bool" where
  "listening p \<longleftrightarrow> (\<exists>a \<in> set_option (tcp_ln (px_server p)). a \<in> tcp_open (px_world p))"

definition hearing :: "'w proxy \<Rightarrow> bool" where
  "hearing p \<longleftrightarrow> (\<exists>a \<in> set_option (udp_ln (px_server p)). a \<in> udp_open (px_world p))"

definition handler_of :: "session \<Rightarrow> conn \<Rightarrow> handler" where
  "handler_of sess c =
     (case sess of
        Closed \<Rightarrow> Over
      | Relaying upstream \<Rightarrow> Copying (start_relay c upstream)
      | Associated addr q \<Rightarrow> Holding addr q c)"

text \<open>\<open>handleConn\<close> up to its first visible or blocking point: an association is filed but not answered.\<close>

definition serve_conn :: "(string \<Rightarrow> ('w, conn \<times> string) eff) \<Rightarrow> nat \<Rightarrow> server \<Rightarrow> conn \<Rightarrow> 'w \<Rightarrow> handler \<times> server \<times> 'w" where
  "serve_conn dial cid s c w =
     (case negotiate_auth (srv_cfg s) c of
        (Inl _, _) \<Rightarrow> (Over, s, w)
      | (Inr _, c1) \<Rightarrow>
          (case read_request c1 of
             (Inl _, _) \<Rightarrow> (Over, s, w)
           | (Inr (cmd, target), c2) \<Rightarrow>
               if cmd = commandConnect then
                 (case handle_connect dial target c2 w of ((sess, c'), w') \<Rightarrow> (handler_of sess c', s, w'))
               else if cmd = commandUDPAssociate \<and> allow_udp (srv_cfg s) \<and> udp_ln s \<noteq> None then
                 (case file_association cid target c2 s of (addr, q, s') \<Rightarrow> (Filed addr q c2, s', w))
               else (Over, s, w)))"

text \<open>When the handler's function has returned, its deferred \<open>conn.Close\<close> has run; the goroutines of a relay may
  still be copying then.\<close>

fun handler_returned :: "handler \<Rightarrow> bool" where
  "handler_returned (Copying r) = relay_over r"
| "handler_returned Over = True"
| "handler_returned _ = False"

definition go_on :: "nat \<Rightarrow> handler \<Rightarrow> 'w proxy \<Rightarrow> 'w proxy" where
  "go_on i h p = p\<lparr>px_handlers := (px_handlers p)[i := h],
     px_world := (if handler_returned h then hang_up i (px_world p) else px_world p)\<rparr>"

abbreviation (input) set_job :: "nat \<Rightarrow> packet_job \<Rightarrow> 'w proxy \<Rightarrow> 'w proxy" where
  "set_job j k p \<equiv> p\<lparr>px_jobs := (px_jobs p)[j := k]\<rparr>"

definition has_handler :: "'w proxy \<Rightarrow> nat \<Rightarrow> handler \<Rightarrow> bool" where
  "has_handler p i h \<longleftrightarrow> i < length (px_handlers p) \<and> px_handlers p ! i = h"

definition has_job :: "'w proxy \<Rightarrow> nat \<Rightarrow> packet_job \<Rightarrow> bool" where
  "has_job p j k \<longleftrightarrow> j < length (px_jobs p) \<and> px_jobs p ! j = k"

text \<open>A write to a connection that \<open>Close\<close> has closed fails.\<close>

definition wire :: "'w proxy \<Rightarrow> nat \<Rightarrow> conn \<Rightarrow> conn" where
  "wire p i c = (if i \<in> conn_open (px_world p) then c else c\<lparr>writes_left := 0\<rparr>)"

text \<open>A packet's look-up and the exchange that follows are two steps: the
  association may be adopted by another source in between.\<close>

definition match_packet :: "nat \<Rightarrow> udp_addr \<Rightarrow> byte list \<Rightarrow> 'w proxy \<Rightarrow> 'w proxy" where
  "match_packet j src packet p =
     (case association_for_source src (srv_table (px_server p)) of (found, t) \<Rightarrow>
        (set_job j (case found of None \<Rightarrow> Finished Dropped | Some q \<Rightarrow> Matched src q packet) p)
          \<lparr>px_server := (px_server p)\<lparr>srv_table := t\<rparr>\<rparr>)"

text \<open>The loops get connections and packets only while their socket is open, and from a closed one its error;
  the operating system may report other errors. A control connection ends when its client ends it or
  the server has closed it. A second \<open>Close\<close> does nothing and is no step.\<close>

inductive proxy_step ::
  "(string \<Rightarrow> ('w, conn \<times> string) eff) \<Rightarrow> ('w, 's) udp_env \<Rightarrow> 'w listen_env \<Rightarrow> 'w proxy \<Rightarrow> 'w proxy \<Rightarrow> bool"
  for dial udp env where
  connection: "px_accepting p \<Longrightarrow> listening p \<Longrightarrow> proxy_step dial udp env p (accept_round (Inr c) p)"
| accept_error: "px_accepting p \<Longrightarrow> proxy_step dial udp env p (accept_round (Inl e) p)"
| datagram: "px_receiving p \<Longrightarrow> hearing p \<Longrightarrow> proxy_step dial udp env p (udp_round (Inr (src, packet)) p)"
| datagram_error: "px_receiving p \<Longrightarrow> proxy_step dial udp env p (udp_round (Inl e) p)"
| client_sends: "i < length (px_handlers p) \<Longrightarrow> proxy_step dial udp env p (p\<lparr>px_ready := insert i (px_ready p)\<rparr>)"
| client_ends: "i < length (px_handlers p) \<Longrightarrow> proxy_step dial udp env p (p\<lparr>px_ended := insert i (px_ended p)\<rparr>)"
| serve: "has_handler p i (Serving c) \<Longrightarrow> i \<in> px_ready p \<Longrightarrow>
    serve_conn (\<lambda>t. on_outside (dial t)) i (px_server p) c (px_world p) = (h, s, n) \<Longrightarrow>
    proxy_step dial udp env p (go_on i h (p\<lparr>px_server := s, px_world := n\<rparr>))"
| answer: "has_handler p i (Filed addr q c) \<Longrightarrow> answer_association addr q (wire p i c) (px_server p) = ((sess, c'), s) \<Longrightarrow>
    proxy_step dial udp env p (go_on i (handler_of sess c') (p\<lparr>px_server := s\<rparr>))"
| control_ends: "has_handler p i (Holding addr q c) \<Longrightarrow> i \<in> px_ended p \<or> i \<notin> conn_open (px_world p) \<Longrightarrow>
    proxy_step dial udp env p (go_on i Over (p\<lparr>px_server := finish_udp_associate addr (px_server p)\<rparr>))"
| copy: "has_handler p i (Copying r) \<Longrightarrow> relay_step r r' \<Longrightarrow> proxy_step dial udp env p (go_on i (Copying r') p)"
| copied: "has_handler p i (Copying r) \<Longrightarrow> relay_over r \<Longrightarrow> list_all has_ended (copiers r) \<Longrightarrow>
    proxy_step dial udp env p (go_on i Over p)"
| matched: "has_job p j (Arrived src packet) \<Longrightarrow> proxy_step dial udp env p (match_packet j src packet p)"
| relayed_packet: "has_job p j (Matched src q packet) \<Longrightarrow>
    relay_packet (udp_sockets udp (udp_ln (px_server p))) extra (px_server p) q packet (px_world p) = (fate, n) \<Longrightarrow>
    proxy_step dial udp env p ((set_job j (Finished fate) p)\<lparr>px_world := n\<rparr>)"
| close: "\<not> srv_done (px_server p) \<Longrightarrow> server_close (sockets env) (px_server p) (px_world p) = ((r, s), n) \<Longrightarrow>
    proxy_step dial udp env p (p\<lparr>px_server := s, px_world := n\<rparr>)"

inductive_cases proxy_stepE: "proxy_step dial udp env p p'"

text \<open>A panic ends the process: a state in which a packet's goroutine has panicked is reachable but is the last one,
  so no run goes on from it.\<close>

definition crashed :: "'w proxy \<Rightarrow> bool" where
  "crashed p \<longleftrightarrow> Finished Panicked \<in> set (px_jobs p)"

inductive proxy_reachable ::
  "(string \<Rightarrow> ('w, conn \<times> string) eff) \<Rightarrow> ('w, 's) udp_env \<Rightarrow> 'w listen_env \<Rightarrow> server_config \<Rightarrow> 'w proxy \<Rightarrow> bool"
  for dial udp env cfg where
  start: "server_start (sockets env) (new_server cfg) (new_net w) = ((None, s), n) \<Longrightarrow>
    proxy_reachable dial udp env cfg (started s n)"
| step: "proxy_reachable dial udp env cfg p \<Longrightarrow> \<not> crashed p \<Longrightarrow> proxy_step dial udp env p p' \<Longrightarrow>
    proxy_reachable dial udp env cfg p'"

lemma go_on_simps [simp]:
  "px_handlers (go_on i h p) = (px_handlers p)[i := h]" "px_server (go_on i h p) = px_server p"
  "px_clients (go_on i h p) = px_clients p" "px_jobs (go_on i h p) = px_jobs p"
  "px_accepting (go_on i h p) = px_accepting p" "px_receiving (go_on i h p) = px_receiving p"
  "px_ready (go_on i h p) = px_ready p" "px_ended (go_on i h p) = px_ended p"
  "px_world (go_on i h p) = (if handler_returned h then hang_up i (px_world p) else px_world p)"
  by (simp_all add: go_on_def)

lemma serve_conn_not_serving: "serve_conn dial cid s c w = (h, s', w') \<Longrightarrow> h \<noteq> Serving c'"
  by (auto simp: serve_conn_def handler_of_def split: prod.splits sum.splits if_splits session.splits)

lemma handler_of_not_serving: "handler_of sess c \<noteq> Serving c'" "handler_of sess c \<noteq> Filed a q c'"
  by (cases sess; simp add: handler_of_def)+

text \<open>No operation but those on sockets changes which sockets are open.\<close>

definition same_sockets :: "'w net \<Rightarrow> 'w net \<Rightarrow> bool" where
  "same_sockets n n' \<longleftrightarrow> tcp_open n' = tcp_open n \<and> udp_open n' = udp_open n \<and> conn_open n' = conn_open n"

lemma same_sockets_refl [simp]: "same_sockets n n"
  by (simp add: same_sockets_def)

lemma keeps_on_outside [keeps_intros]: "keeps (same_sockets n) (on_outside m)"
  by (auto simp: keeps_def same_sockets_def on_outside_def split: prod.split)

lemma on_outside_sockets: "on_outside m n = (r, n') \<Longrightarrow> same_sockets n n'"
  by (rule keepsD[OF keeps_on_outside same_sockets_refl])

lemma serve_conn_sockets:
  "serve_conn (\<lambda>t. on_outside (dial t)) i s c n = (h, s', n') \<Longrightarrow> same_sockets n n'"
  by (auto simp: serve_conn_def handle_connect_def split: prod.splits sum.splits if_splits dest!: on_outside_sockets)

lemma relay_packet_sockets:
  assumes "relay_packet (udp_sockets udp ln) extra s q packet n = (fate, n')"
  shows "same_sockets n n'"
proof -
  have reply: "keeps (same_sockets n) (udp_write_to (udp_sockets udp ln) bs client)" for bs client
    using keeps_on_outside[of n "udp_write_to udp bs client"] by (simp add: keeps_def udp_sockets_def)
  have parts: "keeps (same_sockets n) (udp_resolve (udp_sockets udp ln) t)" "keeps (same_sockets n) (udp_dial (udp_sockets udp ln) a)"
    "keeps (same_sockets n) (udp_set_deadline (udp_sockets udp ln) k d)" "keeps (same_sockets n) (udp_write (udp_sockets udp ln) k bs)"
    "keeps (same_sockets n) (udp_read (udp_sockets udp ln) k)" "keeps (same_sockets n) (udp_close (udp_sockets udp ln) k)"
    for t a k d bs
    by (simp_all add: udp_sockets_def keeps_on_outside)
  have "keeps (same_sockets n) (andThen (udp_resolve (udp_sockets udp ln) t)
      (\<lambda>target. udp_exchange (udp_sockets udp ln) cfg target payload client))" for t cfg payload client
    unfolding udp_exchange_def Let_def by (intro keeps_intros parts reply)
  from keepsD[OF this same_sockets_refl] assms show ?thesis
    by (fastforce simp: relay_packet_def split: go_result.splits prod.splits sum.splits)
qed

section \<open>The handlers are the sequential ones\<close>

lemma serve_conn_complete:
  assumes "handle_conn dial cid s c w = ((sess, c'), s', w')"
  shows "(serve_conn dial cid s c w = (handler_of sess c', s', w')) \<or>
    (\<exists>addr q c1 s1. serve_conn dial cid s c w = (Filed addr q c1, s1, w') \<and>
       answer_association addr q c1 s1 = ((sess, c'), s'))"
  using assms
  by (auto simp: handle_conn_def serve_conn_def handle_udp_associate_def handler_of_def split: prod.splits sum.splits if_splits)

lemma uninterrupted_conn:
  assumes "has_handler p i (Serving c)" "i \<in> px_ready p" "i \<in> conn_open (px_world p)"
    and "handle_conn (\<lambda>t. on_outside (dial t)) i (px_server p) c (px_world p) = ((sess, c'), s, n)"
  shows "(proxy_step dial udp env)\<^sup>*\<^sup>* p (go_on i (handler_of sess c') (p\<lparr>px_server := s, px_world := n\<rparr>))"
  using serve_conn_complete[OF assms(4)]
proof (elim disjE exE conjE)
  assume "serve_conn (\<lambda>t. on_outside (dial t)) i (px_server p) c (px_world p) = (handler_of sess c', s, n)"
  from proxy_step.serve[OF assms(1,2) this] show ?thesis by blast
next
  fix addr q c1 s1
  let ?p = "go_on i (Filed addr q c1) (p\<lparr>px_server := s1, px_world := n\<rparr>)"
  assume served: "serve_conn (\<lambda>t. on_outside (dial t)) i (px_server p) c (px_world p) = (Filed addr q c1, s1, n)"
    and answered: "answer_association addr q c1 s1 = ((sess, c'), s)"
  from proxy_step.serve[OF assms(1,2) served] have first: "proxy_step dial udp env p ?p" .
  have wired: "wire ?p i c1 = c1"
    using assms(3) serve_conn_sockets[OF served] by (simp add: wire_def same_sockets_def)
  have "proxy_step dial udp env ?p (go_on i (handler_of sess c') (?p\<lparr>px_server := s\<rparr>))"
  proof (rule proxy_step.answer)
    show "has_handler ?p i (Filed addr q c1)" using assms(1) by (simp add: has_handler_def)
    show "answer_association addr q (wire ?p i c1) (px_server ?p) = ((sess, c'), s)"
      unfolding wired using answered by simp
  qed
  also have "go_on i (handler_of sess c') (?p\<lparr>px_server := s\<rparr>) =
      go_on i (handler_of sess c') (p\<lparr>px_server := s, px_world := n\<rparr>)"
    by (simp add: go_on_def)
  finally show ?thesis using first by (blast intro: converse_rtranclp_into_rtranclp)
qed

lemma uninterrupted_packet:
  assumes "has_job p j (Arrived src packet)"
    and "handle_udp_packet (udp_sockets udp (udp_ln (px_server p))) extra (px_server p) src packet (px_world p) = (fate, s', n)"
  shows "(proxy_step dial udp env)\<^sup>*\<^sup>* p ((set_job j (Finished fate) p)\<lparr>px_server := s', px_world := n\<rparr>)"
proof -
  obtain found t where found: "association_for_source src (srv_table (px_server p)) = (found, t)" by fastforce
  have matched: "proxy_step dial udp env p (match_packet j src packet p)" by (rule proxy_step.matched[OF assms(1)])
  show ?thesis
  proof (cases found)
    case None
    with found assms(2) matched show ?thesis
      by (auto simp: handle_udp_packet_def match_packet_def Let_def)
  next
    case (Some q)
    let ?p = "match_packet j src packet p"
    have parts: "has_job ?p j (Matched src q packet)" "px_world ?p = px_world p" "px_server ?p = s'" "udp_ln s' = udp_ln (px_server p)"
      "relay_packet (udp_sockets udp (udp_ln (px_server p))) extra s' q packet (px_world p) = (fate, n)"
      using found Some assms(1,2) by (auto simp: has_job_def match_packet_def handle_udp_packet_def Let_def split: prod.splits)
    then have "proxy_step dial udp env ?p ((set_job j (Finished fate) ?p)\<lparr>px_world := n\<rparr>)"
      by (intro proxy_step.relayed_packet[where extra = extra]) simp_all
    moreover have "(set_job j (Finished fate) ?p)\<lparr>px_world := n\<rparr> = (set_job j (Finished fate) p)\<lparr>px_server := s', px_world := n\<rparr>"
      using found Some assms(2) by (auto simp: match_packet_def handle_udp_packet_def Let_def split: prod.splits)
    ultimately show ?thesis using matched by (simp add: rtranclp.rtrancl_into_rtrancl r_into_rtranclp)
  qed
qed

text \<open>The sequential handlers are uninterrupted runs: the goroutine of an open connection whose client has sent its
  request takes the system, when it runs alone, to what \<open>handle_conn\<close> computes, and a packet's goroutine to
  what \<open>handle_udp_packet\<close> computes.\<close>

theorem uninterrupted_goroutines:
  assumes "has_handler p i (Serving c)" "i \<in> px_ready p" "i \<in> conn_open (px_world p)"
    and "handle_conn (\<lambda>t. on_outside (dial t)) i (px_server p) c (px_world p) = ((sess, c'), s, n)"
    and "has_job p j (Arrived src packet)"
    and "handle_udp_packet (udp_sockets udp (udp_ln (px_server p))) extra (px_server p) src packet (px_world p) = (fate, s', n')"
  shows "(proxy_step dial udp env)\<^sup>*\<^sup>* p (go_on i (handler_of sess c') (p\<lparr>px_server := s, px_world := n\<rparr>)) \<and>
    (proxy_step dial udp env)\<^sup>*\<^sup>* p ((set_job j (Finished fate) p)\<lparr>px_server := s', px_world := n'\<rparr>)"
  using uninterrupted_conn[OF assms(1-4)] uninterrupted_packet[OF assms(5,6)] by blast

section \<open>The association map\<close>

lemma answer_association_server:
  "answer_association addr q c s = (r, s') \<Longrightarrow> s' = s \<or> s' = finish_udp_associate addr s"
  by (auto simp: answer_association_def split: prod.splits sum.splits)

lemma serve_conn_server:
  "serve_conn dial cid s c w = (h, s', w') \<Longrightarrow> (case h of Filed addr q _ \<Rightarrow>
      s' = s\<lparr>srv_table := snd (new_association addr cid (srv_table s))\<rparr> \<and> q = length (heap (srv_table s))
    | _ \<Rightarrow> s' = s)"
  by (auto simp: serve_conn_def file_association_def new_association_def Let_def handler_of_def split: prod.splits sum.splits if_splits session.splits)

section \<open>Who is served\<close>

text \<open>What a client must have sent: with credentials configured, a greeting that offers the user name and password
  method and then exactly these.\<close>

definition authorised :: "server_config \<Rightarrow> conn \<Rightarrow> bool" where
  "authorised cfg c =
     (case srv_auth cfg of
        None \<Rightarrow> True
      | Some a \<Rightarrow> \<exists>methods rest. authMethodUserPass \<in> set methods \<and>
          rx c = greeting_bytes methods @ user_pass_bytes (auth_username a) (auth_password a) @ rest)"

text \<open>Associations keep the connection they were made for.\<close>

lemma adopt_keeps_conns: "map assoc_conn (heap (adopt_association_locked key q addr t)) = map assoc_conn (heap t)"
proof (cases "q < length (heap t)")
  case True
  then have "(map assoc_conn (heap t))[q := assoc_conn (heap t ! q)] = map assoc_conn (heap t)"
    by (metis list_update_id nth_map)
  then show ?thesis by (simp add: adopt_association_locked_def Let_def map_update)
qed (simp add: adopt_association_locked_def Let_def list_update_beyond not_less)

lemma for_source_keeps_conns:
  "association_for_source addr t = (found, t') \<Longrightarrow> map assoc_conn (heap t') = map assoc_conn (heap t)"
  by (cases found)
     (auto dest: association_for_source_None elim!: association_for_source_cases simp: adopt_keeps_conns)

lemma for_source_allocated:
  assumes "association_for_source addr t = (Some q, t')" "table_inv t"
  shows "q < length (heap t')"
proof -
  have "length (heap t') = length (heap t)" using for_source_keeps_conns[OF assms(1)] by (rule map_eq_imp_length_eq)
  with assms show ?thesis
    by (auto elim!: association_for_source_cases dest!: lookup_mem dest: table_invD)
qed

lemma serve_conn_authorised:
  assumes "serve_conn dial cid s c w = (h, s', w')" "h \<noteq> Over"
  shows "authorised (srv_cfg s) c"
proof -
  obtain c1 where "negotiate_auth (srv_cfg s) c = (Inr (), c1)"
    using assms by (auto simp: serve_conn_def split: prod.splits sum.splits)
  then show ?thesis
    using negotiate_authorised[of "srv_cfg s" _ c c1]
    by (cases "srv_auth (srv_cfg s)") (simp_all only: authorised_def option.case, blast)
qed

definition serves :: "server_config \<Rightarrow> conn \<Rightarrow> handler \<Rightarrow> bool" where
  "serves cfg c h = (case h of Serving c' \<Rightarrow> c' = c | Over \<Rightarrow> True | _ \<Rightarrow> authorised cfg c)"

definition served_inv :: "server_config \<Rightarrow> 'w proxy \<Rightarrow> bool" where
  "served_inv cfg p \<longleftrightarrow>
     srv_cfg (px_server p) = cfg \<and> table_inv (srv_table (px_server p)) \<and>
     list_all2 (serves cfg) (px_clients p) (px_handlers p) \<and>
     (\<forall>i \<in> set (map assoc_conn (heap (srv_table (px_server p)))).
        i < length (px_clients p) \<and> authorised cfg (px_clients p ! i)) \<and>
     (\<forall>src q packet. Matched src q packet \<in> set (px_jobs p) \<longrightarrow> q < length (heap (srv_table (px_server p))))"

lemma list_all2_set_right: "list_all2 P xs ys \<Longrightarrow> P (xs ! i) y \<Longrightarrow> list_all2 P xs (ys[i := y])"
  by (metis list_all2_conv_all_nth length_list_update nth_list_update_eq nth_list_update_neq)

lemma set_update_Matched: "Matched src q packet \<in> set (js[j := Finished f]) \<Longrightarrow> Matched src q packet \<in> set js"
  using set_update_subset_insert[of js j "Finished f"] by auto

lemma served_handler: "served_inv cfg p \<Longrightarrow> has_handler p i h \<Longrightarrow> serves cfg (px_clients p ! i) h \<and> i < length (px_clients p)"
  by (auto simp: served_inv_def has_handler_def list_all2_conv_all_nth)

lemma served_go_on:
  "served_inv cfg p \<Longrightarrow> serves cfg (px_clients p ! i) h \<Longrightarrow> served_inv cfg (go_on i h p)"
  by (simp add: served_inv_def list_all2_set_right)

lemma served_world: "served_inv cfg (p\<lparr>px_server := s, px_world := n\<rparr>) = served_inv cfg (p\<lparr>px_server := s\<rparr>)"
  "served_inv cfg (p\<lparr>px_ready := a\<rparr>) = served_inv cfg p" "served_inv cfg (p\<lparr>px_ended := b\<rparr>) = served_inv cfg p"
  by (simp_all add: served_inv_def)

lemma served_filed:
  assumes inv: "served_inv cfg p" and i: "i < length (px_clients p)" "authorised cfg (px_clients p ! i)"
  shows "served_inv cfg (p\<lparr>px_server := (px_server p)\<lparr>srv_table := snd (new_association addr i (srv_table (px_server p)))\<rparr>\<rparr>)"
proof -
  have "heap (snd (new_association addr i t)) = heap t @ [\<lparr>client_addr = Some addr, assoc_conn = i\<rparr>]" for t
    by (simp add: new_association_def store_association_def Let_def)
  with inv i show ?thesis
    by (auto simp: served_inv_def table_inv_new less_Suc_eq)
qed

text \<open>A change of the server that keeps the connections of its associations keeps the invariant.\<close>

lemma served_table:
  assumes "served_inv cfg p" "srv_cfg s = cfg" "table_inv (srv_table s)"
    and "map assoc_conn (heap (srv_table s)) = map assoc_conn (heap (srv_table (px_server p)))"
  shows "served_inv cfg (p\<lparr>px_server := s, px_world := w\<rparr>)"
  using assms map_eq_imp_length_eq[OF assms(4)] by (simp add: served_inv_def)

lemma served_finish: "served_inv cfg p \<Longrightarrow> served_inv cfg (p\<lparr>px_server := finish_udp_associate addr (px_server p)\<rparr>)"
  using served_table[of cfg p "finish_udp_associate addr (px_server p)" "px_world p"]
  by (simp add: finish_udp_associate_def served_inv_def table_inv_delete) (simp add: delete_association_def)

lemma served_step:
  assumes "proxy_step dial udp env p p'" "served_inv cfg p"
  shows "served_inv cfg p'"
  using assms(1)
proof cases
  case (serve i c h s n)
  have i: "px_clients p ! i = c" "i < length (px_clients p)"
    using served_handler[OF assms(2) serve(2)] by (simp_all add: serves_def)
  have cfg: "srv_cfg (px_server p) = cfg" using assms(2) by (simp add: served_inv_def)
  have auth: "authorised cfg c" if "h \<noteq> Over" using serve_conn_authorised[OF serve(4) that] cfg by simp
  have "serves cfg (px_clients p ! i) h"
    using auth serve_conn_not_serving[OF serve(4)] by (cases h) (auto simp: serves_def i)
  moreover have "served_inv cfg (p\<lparr>px_server := s, px_world := n\<rparr>)"
  proof (cases h)
    case (Filed addr q c1)
    with serve_conn_server[OF serve(4)] auth served_filed[OF assms(2) i(2), of addr] i(1) show ?thesis
      by (simp add: served_world(1))
  qed (use serve_conn_server[OF serve(4)] assms(2) in \<open>simp_all add: served_inv_def\<close>)
  ultimately show ?thesis unfolding serve(1) by (intro served_go_on) simp_all
next
  case (answer i addr q c sess c' s)
  have "authorised cfg (px_clients p ! i)"
    using served_handler[OF assms(2) answer(2)] by (simp add: serves_def)
  then have "serves cfg (px_clients p ! i) (handler_of sess c')"
    by (cases sess) (simp_all add: serves_def handler_of_def)
  moreover have "served_inv cfg (p\<lparr>px_server := s\<rparr>)"
    using answer_association_server[OF answer(3)] assms(2) served_finish[OF assms(2)] by auto
  ultimately show ?thesis unfolding answer(1) by (intro served_go_on) simp_all
next
  case (control_ends i addr q c)
  then show ?thesis
    using served_go_on[OF served_finish[OF assms(2)], where i = i and h = Over] by (simp add: serves_def)
next
  case (copy i r r')
  then show ?thesis using served_handler[OF assms(2) copy(2)] by (simp add: served_go_on[OF assms(2)] serves_def)
next
  case (copied i r)
  then show ?thesis by (simp add: served_go_on[OF assms(2)] serves_def)
next
  case (matched j src packet)
  obtain found t where found: "association_for_source src (srv_table (px_server p)) = (found, t)" by fastforce
  have inv: "table_inv (srv_table (px_server p))" using assms(2) by (simp add: served_inv_def)
  have t: "table_inv t" using table_inv_for_source[OF inv, of src] found by simp
  have "served_inv cfg (p\<lparr>px_server := (px_server p)\<lparr>srv_table := t\<rparr>, px_world := px_world p\<rparr>)"
    using assms(2) t for_source_keeps_conns[OF found] by (intro served_table) (simp_all add: served_inv_def)
  moreover have "found = Some q \<Longrightarrow> q < length (heap t)" for q
    using for_source_allocated[OF _ inv, of src q t] found by simp
  ultimately show ?thesis
    using found set_update_subset_insert[of "px_jobs p" j]
    by (fastforce simp: matched(1) match_packet_def served_inv_def split: option.splits)
next
  case (close r s n)
  have "srv_cfg s = cfg \<and> table_inv (srv_table s) \<and> heap (srv_table s) = heap (srv_table (px_server p))"
    using close(3) assms(2)
    by (auto simp: server_close_def served_inv_def Let_def clear_associations_def
        table_inv_clear[unfolded clear_associations_def] split: if_splits prod.splits)
  with close(1) served_table[OF assms(2), of s n] show ?thesis by simp
next
  case (relayed_packet j src q packet extra fate n)
  with assms(2) show ?thesis by (simp add: served_inv_def) (metis set_update_Matched)
next
  case (connection c)
  with assms(2) show ?thesis
    by (auto simp: accept_round_def served_inv_def serves_def list_all2_appendI nth_append)
qed (use assms(2) in \<open>auto simp: accept_round_def udp_round_def served_inv_def\<close>)

lemma server_start_fresh:
  "server_start env (new_server cfg) w = ((None, s), w') \<Longrightarrow>
   srv_cfg s = cfg \<and> srv_table s = empty_table \<and> \<not> srv_done s"
  by (auto simp: server_start_def new_server_def Let_def split: if_splits sum.splits prod.splits)

lemma served_reachable: "proxy_reachable dial udp env cfg p \<Longrightarrow> served_inv cfg p"
proof (induction rule: proxy_reachable.induct)
  case (start w s w')
  then show ?case using server_start_fresh[OF start] by (simp add: served_inv_def started_def) (simp add: empty_table_def)
qed (rule served_step)

section \<open>An example run\<close>

text \<open>Clients at 10.0.0.9 that present the credentials and ask for an association without naming an address.\<close>

definition sample_client :: conn where
  "sample_client = sample_conn (greeting_bytes [authMethodUserPass] @ user_pass_bytes ''u'' ''pw'' @ [5, 3, 0, 1, 0, 0, 0, 0, 0, 0])"

definition sample_asked :: conn where
  "sample_asked = (sample_conn [])\<lparr>tx := [5, 2, 1, 0], writes_left := 7\<rparr>"

lemma sample_negotiates:
  "srv_auth cfg = Some sample_auth \<Longrightarrow> negotiate_auth cfg sample_client =
     (Inr (), sample_asked\<lparr>rx := [5, 3, 0, 1, 0, 0, 0, 0, 0, 0]\<rparr>)"
  by (simp add: negotiate_auth_def verify_username_password_def sample_client_def sample_asked_def sample_conn_def sample_auth_def
        greeting_bytes_def user_pass_bytes_def andThen_def Let_def)

lemma sample_requests:
  "read_request (sample_asked\<lparr>rx := [5, 3, 0, 1, 0, 0, 0, 0, 0, 0]\<rparr>) = (Inr (commandUDPAssociate, ''0.0.0.0:0''), sample_asked)"
proof -
  have "join_host_port (string4 [0, 0, 0, 0]) (itoa 0) = ''0.0.0.0:0''"
    by (simp add: join_host_port_def address_eval)
  then show ?thesis
    by (simp add: read_request_def read_address_def sample_asked_def sample_conn_def andThen_def Let_def ip_string4 get_uint16_def)
qed

lemma sample_client_addr: "associate_client_addr sample_asked ''0.0.0.0:0'' = sample_addr 9 0"
  by code_simp

text \<open>An environment for examples: the listeners open, dialling is refused.\<close>

definition sample_listen :: "'w listen_env" where
  "sample_listen = \<lparr>resolve_tcp = \<lambda>_. ret (sample_addr 1 1080), listen_tcp = ret, listen_udp = ret,
     close_tcp = \<lambda>_. ret (), close_udp = \<lambda>_. ret (), close_conn = \<lambda>_. ret ()\<rparr>"

definition sample_refuse :: "string \<Rightarrow> ('w, conn \<times> string) eff" where
  "sample_refuse target = fail (errorf ''refused'')"

definition sample_net :: "byte list list net" where
  "sample_net = (new_net [])\<lparr>tcp_open := {sample_addr 1 1080}, udp_open := {sample_addr 1 1080}\<rparr>"

abbreviation (input) sample_cfg :: server_config where
  "sample_cfg \<equiv> srv_cfg (sample_server (Some sample_auth) True)"

definition sample_start :: "byte list list proxy" where
  "sample_start = started (sample_server (Some sample_auth) True) sample_net"

abbreviation (input) sample_reachable :: "byte list list proxy \<Rightarrow> bool" where
  "sample_reachable \<equiv> proxy_reachable sample_refuse sample_udp sample_listen sample_cfg"

lemma sample_booted:
  "server_start (sockets sample_listen) (new_server sample_cfg) (new_net []) = ((None, sample_server (Some sample_auth) True), sample_net)"
  by (simp add: server_start_def new_server_def sample_server_def sample_listen_def sockets_def on_outside_def modify_def
      andThen_def wrapping_def ret_def Let_def sample_net_def new_net_def)

lemma sample_start_reachable: "sample_reachable sample_start"
  unfolding sample_start_def by (rule proxy_reachable.start[OF sample_booted])

text \<open>One such client accepted, served and answered.\<close>

definition admit :: "'w proxy \<Rightarrow> 'w proxy" where
  "admit p = (let i = length (px_handlers p) in p\<lparr>px_clients := px_clients p @ [sample_client],
     px_handlers := px_handlers p @ [Holding (sample_addr 9 0) (length (heap (srv_table (px_server p))))
       (snd (write_reply replySucceeded (server_public_host (px_server p)) (server_public_port (px_server p)) sample_asked))],
     px_server := (px_server p)\<lparr>srv_table := snd (new_association (sample_addr 9 0) i (srv_table (px_server p)))\<rparr>,
     px_world := (px_world p)\<lparr>conn_open := insert i (conn_open (px_world p))\<rparr>, px_ready := insert i (px_ready p)\<rparr>)"

lemma sample_serve:
  assumes "srv_auth (srv_cfg s) = Some sample_auth" "allow_udp (srv_cfg s)" "udp_ln s \<noteq> None"
  shows "serve_conn dial i s sample_client w =
    (Filed (sample_addr 9 0) (length (heap (srv_table s))) sample_asked,
     s\<lparr>srv_table := snd (new_association (sample_addr 9 0) i (srv_table s))\<rparr>, w)"
  using assms
  by (simp add: serve_conn_def sample_negotiates sample_requests sample_client_addr file_association_def new_association_def Let_def)

lemma public_of_table:
  "server_public_host (s\<lparr>srv_table := t\<rparr>) = server_public_host s"
  "server_public_port (s\<lparr>srv_table := t\<rparr>) = server_public_port s"
  by (simp_all add: server_public_host_def server_public_port_def split: option.split)

lemma admit_reachable:
  assumes "proxy_reachable dial udp env cfg p" "\<not> crashed p" "px_accepting p" "listening p"
    and "srv_auth (srv_cfg (px_server p)) = Some sample_auth" "allow_udp (srv_cfg (px_server p))" "udp_ln (px_server p) \<noteq> None"
    and "length (px_handlers p) = length (px_clients p)"
  shows "proxy_reachable dial udp env cfg (admit p)"
proof -
  let ?i = "length (px_handlers p)" and ?A = "sample_addr 9 0"
  let ?q = "length (heap (srv_table (px_server p)))"
  let ?s = "(px_server p)\<lparr>srv_table := snd (new_association ?A ?i (srv_table (px_server p)))\<rparr>"
  define p1 where "p1 = accept_round (Inr sample_client) p"
  define p2 where "p2 = p1\<lparr>px_ready := insert ?i (px_ready p1)\<rparr>"
  define p3 where "p3 = go_on ?i (Filed ?A ?q sample_asked) (p2\<lparr>px_server := ?s, px_world := px_world p2\<rparr>)"
  define c' where "c' = snd (write_reply replySucceeded (server_public_host ?s) (server_public_port ?s) sample_asked)"
  define p4 where "p4 = go_on ?i (handler_of (Associated ?A ?q) c') (p3\<lparr>px_server := ?s\<rparr>)"
  have crash: "\<not> crashed p1" "\<not> crashed p2" "\<not> crashed p3"
    using assms(2) by (simp_all add: p3_def p2_def p1_def accept_round_def crashed_def)
  have "proxy_step dial udp env p p1" unfolding p1_def by (rule proxy_step.connection[OF assms(3,4)])
  then have 1: "proxy_reachable dial udp env cfg p1" by (rule proxy_reachable.step[OF assms(1,2)])
  have "proxy_step dial udp env p1 p2"
    unfolding p2_def by (rule proxy_step.client_sends) (simp add: p1_def accept_round_def)
  then have 2: "proxy_reachable dial udp env cfg p2" by (rule proxy_reachable.step[OF 1 crash(1)])
  have "has_handler p2 ?i (Serving sample_client)" "px_server p2 = px_server p" "?i \<in> px_ready p2"
    by (simp_all add: has_handler_def p2_def p1_def accept_round_def)
  then have "proxy_step dial udp env p2 p3"
    unfolding p3_def by (intro proxy_step.serve[where c = sample_client]) (simp_all add: sample_serve assms(5-7))
  then have 3: "proxy_reachable dial udp env cfg p3" by (rule proxy_reachable.step[OF 2 crash(2)])
  have "answer_association ?A ?q sample_asked ?s = ((Associated ?A ?q, c'), ?s)"
    by (simp add: answer_association_def write_reply_eq conn_write_def sample_asked_def c'_def)
  moreover have server: "px_server p3 = ?s" and wired: "wire p3 ?i sample_asked = sample_asked"
    by (simp_all add: p3_def p2_def p1_def accept_round_def wire_def)
  ultimately have "answer_association ?A ?q (wire p3 ?i sample_asked) (px_server p3) = ((Associated ?A ?q, c'), ?s)"
    unfolding server wired by simp
  moreover have "has_handler p3 ?i (Filed ?A ?q sample_asked)"
    by (simp add: has_handler_def p3_def p2_def p1_def accept_round_def)
  ultimately have "proxy_step dial udp env p3 p4" unfolding p4_def by (rule proxy_step.answer[rotated])
  then have "proxy_reachable dial udp env cfg p4" by (rule proxy_reachable.step[OF 3 crash(3)])
  moreover have "p4 = admit p"
    by (simp add: p4_def p3_def p2_def p1_def accept_round_def admit_def handler_of_def c'_def public_of_table go_on_def Let_def)
  ultimately show ?thesis by simp
qed

lemma admit_simps [simp]:
  "px_accepting (admit p) = px_accepting p" "px_receiving (admit p) = px_receiving p" "crashed (admit p) = crashed p"
  "srv_done (px_server (admit p)) = srv_done (px_server p)" "srv_cfg (px_server (admit p)) = srv_cfg (px_server p)"
  "udp_ln (px_server (admit p)) = udp_ln (px_server p)" "length (px_handlers (admit p)) = Suc (length (px_handlers p))"
  "length (px_clients (admit p)) = Suc (length (px_clients p))" "px_jobs (admit p) = px_jobs p"
  "listening (admit p) = listening p" "hearing (admit p) = hearing p"
  by (simp_all add: admit_def crashed_def listening_def hearing_def Let_def)

lemma sample_start_simps [simp]:
  "px_accepting sample_start" "px_receiving sample_start" "\<not> crashed sample_start" "\<not> srv_done (px_server sample_start)"
  "srv_auth (srv_cfg (px_server sample_start)) = Some sample_auth" "allow_udp (srv_cfg (px_server sample_start))"
  "udp_ln (px_server sample_start) \<noteq> None" "px_handlers sample_start = []" "px_clients sample_start = []"
  "px_jobs sample_start = []" "srv_table (px_server sample_start) = empty_table"
  "listening sample_start" "hearing sample_start" "conn_open (px_world sample_start) = {}"
  by (simp_all add: sample_start_def started_def sample_server_def crashed_def listening_def hearing_def sample_net_def new_net_def)

lemma sample_admitted: "sample_reachable (admit sample_start)" "sample_reachable (admit (admit sample_start))"
  by (intro admit_reachable sample_start_reachable; simp)+

section \<open>Properties of the running server\<close>

text \<open>C4: Only authorised clients are served, whatever the interleaving: in every reachable state of the running
  server every relay belongs to a connection whose client presented the configured credentials, and so
  does the association for which a packet is relayed (whichever source the packet came from).\<close>

theorem only_authorised_served:
  assumes "proxy_reachable dial udp env cfg p"
  shows "(\<forall>i r. has_handler p i (Copying r) \<longrightarrow> authorised cfg (px_clients p ! i)) \<and>
    (\<forall>src q packet. Matched src q packet \<in> set (px_jobs p) \<longrightarrow>
       (let i = assoc_conn (heap (srv_table (px_server p)) ! q)
        in i < length (px_clients p) \<and> authorised cfg (px_clients p ! i)))"
proof -
  have inv: "served_inv cfg p" by (rule served_reachable[OF assms])
  then show ?thesis
    using served_handler[OF inv] by (force simp: served_inv_def serves_def Let_def)
qed

text \<open>A packet has arrived from the address of the one admitted client.\<close>

definition sample_packet :: "byte list list proxy" where
  "sample_packet = match_packet 0 (sample_addr 9 7) sample_query (udp_round (Inr (sample_addr 9 7, sample_query)) (admit sample_start))"

lemma admitted_table:
  "srv_table (px_server (admit sample_start)) =
     \<lparr>heap = [\<lparr>client_addr = Some (sample_addr 9 0), assoc_conn = 0\<rparr>], assocs = [(''10.0.0.9:0'', 0)]\<rparr>"
  by (simp add: admit_def table_eval Let_def) (simp add: address_eval)

lemma sample_packet_matched:
  "sample_reachable sample_packet" "px_jobs sample_packet = [Matched (sample_addr 9 7) 0 sample_query]"
  "px_clients sample_packet = [sample_client]" "map assoc_conn (heap (srv_table (px_server sample_packet))) = [0]"
proof -
  let ?p = "udp_round (Inr (sample_addr 9 7, sample_query)) (admit sample_start)"
  have "proxy_step sample_refuse sample_udp sample_listen (admit sample_start) ?p"
    by (rule proxy_step.datagram) simp_all
  from proxy_reachable.step[OF sample_admitted(1) _ this] have 1: "sample_reachable ?p" by simp
  have "has_job ?p 0 (Arrived (sample_addr 9 7) sample_query)" by (simp add: has_job_def udp_round_def)
  then have "proxy_step sample_refuse sample_udp sample_listen ?p sample_packet"
    unfolding sample_packet_def by (rule proxy_step.matched)
  from proxy_reachable.step[OF 1 _ this] show "sample_reachable sample_packet" by (simp add: crashed_def udp_round_def)
  obtain t where found: "association_for_source (sample_addr 9 7) (srv_table (px_server (admit sample_start))) = (Some 0, t)"
    by (simp add: admitted_table association_for_source_eq lookup_association_def) (simp add: address_eval only_one_def)
  then show "px_jobs sample_packet = [Matched (sample_addr 9 7) 0 sample_query]"
    "map assoc_conn (heap (srv_table (px_server sample_packet))) = [0]"
    using for_source_keeps_conns[OF found] by (simp_all add: sample_packet_def match_packet_def udp_round_def admitted_table)
  show "px_clients sample_packet = [sample_client]"
    by (simp add: sample_packet_def match_packet_def udp_round_def admit_def Let_def split: prod.split)
qed

lemma only_authorised_served_witness: "authorised sample_cfg sample_client"
proof -
  have "heap (srv_table (px_server sample_packet)) \<noteq> []" "assoc_conn (heap (srv_table (px_server sample_packet)) ! 0) = 0"
    using sample_packet_matched(4) by auto
  with only_authorised_served[OF sample_packet_matched(1)] sample_packet_matched show ?thesis by (simp add: Let_def)
qed

section \<open>The association service\<close>

text \<open>
  What the association map is for, without listeners, sockets and bytes: a service in which every address
  is held by at most one connection. A connection opens a session under the address it announces and so
  takes this address over, a packet from a free address may move an association there, a session's end
  frees the address it was opened under, and closing the service frees all.
\<close>

record service =
  sv_closed :: bool
  sv_owner :: "string \<Rightarrow> nat option"
  sv_sessions :: "nat \<Rightarrow> string option"

definition service_start :: service where
  "service_start = \<lparr>sv_closed = False, sv_owner = Map.empty, sv_sessions = Map.empty\<rparr>"

inductive service_step :: "service \<Rightarrow> service \<Rightarrow> bool" where
  opens: "sv_sessions v i = None \<Longrightarrow> i \<notin> ran (sv_owner v) \<Longrightarrow>
    service_step v (v\<lparr>sv_owner := (sv_owner v)(k \<mapsto> i), sv_sessions := (sv_sessions v)(i \<mapsto> k)\<rparr>)"
| moves: "sv_owner v k = Some i \<Longrightarrow> sv_owner v k' = None \<Longrightarrow>
    service_step v (v\<lparr>sv_owner := (sv_owner v)(k := None, k' \<mapsto> i)\<rparr>)"
| leaves: "sv_sessions v i = Some k \<Longrightarrow>
    service_step v (v\<lparr>sv_owner := (sv_owner v)(k := None), sv_sessions := (sv_sessions v)(i := None)\<rparr>)"
| closes: "\<not> sv_closed v \<Longrightarrow> service_step v (v\<lparr>sv_closed := True, sv_owner := Map.empty\<rparr>)"

definition owner_of :: "assoc_table \<Rightarrow> string \<Rightarrow> nat option" where
  "owner_of t k = map_option (\<lambda>q. assoc_conn (heap t ! q)) (map_of (assocs t) k)"

fun announced :: "handler \<Rightarrow> string option" where
  "announced (Filed addr q c) = Some (udp_addr_string addr)"
| "announced (Holding addr q c) = Some (udp_addr_string addr)"
| "announced _ = None"

definition sessions_of :: "handler list \<Rightarrow> nat \<Rightarrow> string option" where
  "sessions_of hs i = (if i < length hs then announced (hs ! i) else None)"

definition service_of :: "'w proxy \<Rightarrow> service" where
  "service_of p =
     \<lparr>sv_closed = srv_done (px_server p), sv_owner = owner_of (srv_table (px_server p)),
      sv_sessions = sessions_of (px_handlers p)\<rparr>"

lemma sessions_simps:
  "sessions_of [] = Map.empty" "sessions_of (hs @ [Serving c]) = sessions_of hs"
  "i < length hs \<Longrightarrow> sessions_of (hs[i := h]) = (sessions_of hs)(i := announced h)"
  by (auto simp: sessions_of_def fun_eq_iff nth_append)

lemma owner_empty: "owner_of empty_table = Map.empty"
  by (simp add: owner_of_def empty_table_def fun_eq_iff)

subsection \<open>The operations of the map\<close>

lemma owner_new:
  assumes "table_inv t"
  shows "owner_of (snd (new_association a i t)) = (owner_of t)(udp_addr_string a \<mapsto> i)"
proof
  fix k
  have "q < length (heap t)" if "map_of (assocs t) k = Some q" for q
    using table_invD(1)[OF assms map_of_SomeD[OF that]] .
  then show "owner_of (snd (new_association a i t)) k = ((owner_of t)(udp_addr_string a \<mapsto> i)) k"
    by (cases "map_of (assocs t) k")
       (simp_all add: owner_of_def new_association_def store_association_def Let_def update_conv nth_append)
qed

lemma owner_delete: "owner_of (delete_association a t) = (owner_of t)(udp_addr_string a := None)"
  by (auto simp: owner_of_def delete_association_def delete_conv fun_eq_iff)

lemma owner_clear: "owner_of (clear_associations t) = Map.empty"
  by (simp add: owner_of_def clear_associations_def fun_eq_iff)

lemma owner_adopt:
  assumes "table_inv t" "(key, q) \<in> set (assocs t)"
  shows "owner_of (adopt_association_locked key q addr t) =
    (owner_of t)(key := None, udp_addr_string addr \<mapsto> assoc_conn (heap t ! q))"
proof
  fix k
  let ?t = "adopt_association_locked key q addr t"
  have q: "q < length (heap t)" by (rule table_invD(1)[OF assms])
  have conns: "assoc_conn (heap ?t ! r) = assoc_conn (heap t ! r)" for r
    using q by (simp add: adopt_association_locked_def Let_def nth_list_update)
  show "owner_of ?t k = ((owner_of t)(key := None, udp_addr_string addr \<mapsto> assoc_conn (heap t ! q))) k"
    unfolding owner_of_def conns
    by (simp add: adopt_association_locked_def Let_def update_conv delete_conv)
qed

lemma owner_for_source:
  assumes "association_for_source src t = (found, t')" "table_inv t"
  shows "owner_of t' = owner_of t \<or>
    (\<exists>key i. owner_of t key = Some i \<and> owner_of t (udp_addr_string src) = None \<and>
       owner_of t' = (owner_of t)(key := None, udp_addr_string src \<mapsto> i))"
proof (cases found)
  case None
  with assms(1) association_for_source_None show ?thesis by blast
next
  case (Some q)
  from assms(1)[unfolded Some] show ?thesis
  proof (cases rule: association_for_source_cases)
    case (adopted key)
    have "map_of (assocs t) key = Some q" using assms(2) adopted(2) by (simp add: table_inv_def)
    then have "owner_of t key = Some (assoc_conn (heap t ! q))" by (simp add: owner_of_def)
    moreover have "owner_of t (udp_addr_string src) = None"
      using adopted(1) by (simp add: owner_of_def lookup_association_def)
    ultimately show ?thesis using owner_adopt[OF assms(2) adopted(2), of src] adopted(3) by blast
  qed simp
qed

subsection \<open>A connection that is still served has no association\<close>

definition filed_inv :: "'w proxy \<Rightarrow> bool" where
  "filed_inv p \<longleftrightarrow> (\<forall>i \<in> set (map assoc_conn (heap (srv_table (px_server p)))).
     i < length (px_handlers p) \<and> (\<forall>c. px_handlers p ! i \<noteq> Serving c))"

lemma filed_go_on: "filed_inv p \<Longrightarrow> (\<And>c. h \<noteq> Serving c) \<Longrightarrow> filed_inv (go_on i h p)"
  unfolding filed_inv_def by (metis go_on_simps(1,2) length_list_update nth_list_update_eq nth_list_update_neq)

lemma filed_same:
  "filed_inv p \<Longrightarrow> map assoc_conn (heap (srv_table (px_server p'))) = map assoc_conn (heap (srv_table (px_server p))) \<Longrightarrow>
   px_handlers p' = px_handlers p \<Longrightarrow> filed_inv p'"
  by (simp add: filed_inv_def)

lemma finish_heap [simp]: "heap (srv_table (finish_udp_associate addr s)) = heap (srv_table s)"
  by (simp add: finish_udp_associate_def delete_association_def)

lemma server_close_done:
  "server_close env s w = ((r, s'), w') \<Longrightarrow> \<not> srv_done s \<Longrightarrow>
   s' = s\<lparr>srv_done := True, srv_table := clear_associations (srv_table s)\<rparr>"
  by (auto simp: server_close_def Let_def split: prod.splits)

lemma filed_step:
  assumes "proxy_step dial udp env p p'" "filed_inv p"
  shows "filed_inv p'"
  using assms(1)
proof cases
  case (connection c)
  with assms(2) show ?thesis by (auto simp: filed_inv_def accept_round_def nth_append)
next
  case (serve i c h s n)
  have i: "i < length (px_handlers p)" using serve(2) by (simp add: has_handler_def)
  show ?thesis
  proof (cases h)
    case (Filed addr q c1)
    with serve_conn_server[OF serve(4)] serve(1) i assms(2) show ?thesis
      by (auto simp: filed_inv_def nth_list_update new_association_def store_association_def Let_def)
  qed (use serve_conn_server[OF serve(4)] serve_conn_not_serving[OF serve(4)] serve(1) assms(2) in
      \<open>auto intro!: filed_go_on intro: filed_same\<close>)
next
  case (answer i addr q c sess c' s)
  have "filed_inv (p\<lparr>px_server := s\<rparr>)"
    by (rule filed_same[OF assms(2)]) (use answer_association_server[OF answer(3)] in auto)
  then show ?thesis unfolding answer(1) by (rule filed_go_on) (rule handler_of_not_serving)
next
  case (control_ends i addr q c)
  have "filed_inv (p\<lparr>px_server := finish_udp_associate addr (px_server p)\<rparr>)"
    by (rule filed_same[OF assms(2)]) simp_all
  then show ?thesis unfolding control_ends(1) by (rule filed_go_on) simp
next
  case (copy i r r')
  then show ?thesis using filed_go_on[OF assms(2)] by simp
next
  case (copied i r)
  then show ?thesis using filed_go_on[OF assms(2)] by simp
next
  case (matched j src packet)
  then show ?thesis
    using for_source_keeps_conns[of src "srv_table (px_server p)"]
    by (intro filed_same[OF assms(2)]) (auto simp: match_packet_def split: prod.splits)
next
  case (close r s n)
  then show ?thesis
    using server_close_done[OF close(3,2)] by (intro filed_same[OF assms(2)]) (simp_all add: clear_associations_def)
qed (use assms(2) in \<open>auto simp: accept_round_def udp_round_def filed_inv_def\<close>)

lemma filed_reachable: "proxy_reachable dial udp env cfg p \<Longrightarrow> filed_inv p"
proof (induction rule: proxy_reachable.induct)
  case (start w s n)
  then show ?case using server_start_fresh[OF start] by (simp add: filed_inv_def started_def empty_table_def)
qed (rule filed_step)

subsection \<open>The refinement\<close>

lemma service_of_go_on:
  "i < length (px_handlers p) \<Longrightarrow> service_of (go_on i h p) =
     (service_of p)\<lparr>sv_sessions := (sv_sessions (service_of p))(i := announced h)\<rparr>"
  by (simp add: service_of_def sessions_simps)

lemma service_of_server:
  "service_of (p\<lparr>px_server := s\<rparr>) = (service_of p)\<lparr>sv_closed := srv_done s, sv_owner := owner_of (srv_table s)\<rparr>"
  "service_of (p\<lparr>px_server := s, px_world := n\<rparr>) = (service_of p)\<lparr>sv_closed := srv_done s, sv_owner := owner_of (srv_table s)\<rparr>"
  by (simp_all add: service_of_def)

lemma service_same:
  "px_server p' = px_server p \<Longrightarrow> px_handlers p' = px_handlers p \<Longrightarrow> service_of p' = service_of p"
  by (simp add: service_of_def)

lemma session_of: "has_handler p i h \<Longrightarrow> sv_sessions (service_of p) i = announced h"
  by (simp add: has_handler_def service_of_def sessions_of_def)

lemma service_fields:
  "sv_closed (service_of p) = srv_done (px_server p)" "sv_owner (service_of p) = owner_of (srv_table (px_server p))"
  by (simp_all add: service_of_def)

lemma ran_owner: "table_inv t \<Longrightarrow> ran (owner_of t) \<subseteq> set (map assoc_conn (heap t))"
  by (auto simp: ran_def owner_of_def dest!: map_of_SomeD table_invD(1) intro!: imageI nth_mem)

lemma service_leaves:
  assumes "has_handler p i h" "announced h = Some (udp_addr_string addr)"
  shows "service_step (service_of p) (service_of (go_on i Over (p\<lparr>px_server := finish_udp_associate addr (px_server p)\<rparr>)))"
proof -
  have "i < length (px_handlers p)" using assms(1) by (simp add: has_handler_def)
  then have "service_of (go_on i Over (p\<lparr>px_server := finish_udp_associate addr (px_server p)\<rparr>)) =
      (service_of p)\<lparr>sv_owner := (sv_owner (service_of p))(udp_addr_string addr := None),
                     sv_sessions := (sv_sessions (service_of p))(i := None)\<rparr>"
    by (simp add: service_of_go_on service_of_server finish_udp_associate_def owner_delete service_of_def sessions_simps)
  then show ?thesis using service_step.leaves[of "service_of p" i "udp_addr_string addr"] session_of[OF assms(1)] assms(2) by simp
qed

lemma serve_conn_announces:
  "serve_conn dial cid s c w = (h, s', w') \<Longrightarrow> announced h \<noteq> None \<Longrightarrow> \<exists>addr q c1. h = Filed addr q c1"
  by (auto simp: serve_conn_def handle_connect_def handler_of_def split: prod.splits sum.splits if_splits)

lemma answer_association_cases:
  "answer_association addr q c s = ((sess, c'), s') \<Longrightarrow>
   sess = Associated addr q \<and> s' = s \<or> sess = Closed \<and> s' = finish_udp_associate addr s"
  by (auto simp: answer_association_def split: prod.splits sum.splits)

lemma service_simulates:
  assumes "proxy_step dial udp env p p'" "table_inv (srv_table (px_server p))" "filed_inv p"
  shows "service_of p' = service_of p \<or> service_step (service_of p) (service_of p')"
  using assms(1)
proof cases
  case (connection c)
  then show ?thesis by (simp add: service_of_def accept_round_def sessions_simps)
next
  case (serve i c h s n)
  have i: "i < length (px_handlers p)" and none: "sv_sessions (service_of p) i = None"
    using serve(2) session_of[OF serve(2)] by (simp_all add: has_handler_def)
  have p': "service_of p' = (service_of p)\<lparr>sv_closed := srv_done s, sv_owner := owner_of (srv_table s),
      sv_sessions := (sv_sessions (service_of p))(i := announced h)\<rparr>"
    using i by (simp add: serve(1) service_of_go_on service_of_server)
  show ?thesis
  proof (cases "announced h")
    case None
    then have "s = px_server p" using serve_conn_server[OF serve(4)] by (cases h) simp_all
    then have "service_of p' = service_of p" using p' none None by (simp add: service_of_def fun_upd_idem)
    then show ?thesis ..
  next
    case (Some k)
    then obtain addr q c1 where h: "h = Filed addr q c1" using serve_conn_announces[OF serve(4)] by auto
    then have s: "s = (px_server p)\<lparr>srv_table := snd (new_association addr i (srv_table (px_server p)))\<rparr>"
      using serve_conn_server[OF serve(4)] by simp
    have "i \<notin> ran (sv_owner (service_of p))"
      using ran_owner[OF assms(2)] assms(3) serve(2) unfolding service_fields filed_inv_def has_handler_def by blast
    from service_step.opens[OF none this, of "udp_addr_string addr"] p' show ?thesis
      by (simp add: s h owner_new[OF assms(2)]) (simp add: service_of_def)
  qed
next
  case (answer i addr q c sess c' s)
  have i: "i < length (px_handlers p)" using answer(2) by (simp add: has_handler_def)
  from answer_association_cases[OF answer(3)] show ?thesis
  proof (elim disjE conjE)
    assume "sess = Associated addr q" "s = px_server p"
    then have "service_of p' = service_of p"
      using session_of[OF answer(2)] by (simp add: answer(1) service_of_go_on[OF i] handler_of_def fun_upd_idem)
    then show ?thesis ..
  next
    assume "sess = Closed" "s = finish_udp_associate addr (px_server p)"
    then show ?thesis using service_leaves[OF answer(2)] by (simp add: answer(1) handler_of_def)
  qed
next
  case (control_ends i addr q c)
  then show ?thesis using service_leaves[OF control_ends(2)] by simp
next
  case (copy i r r')
  have "i < length (px_handlers p)" using copy(2) by (simp add: has_handler_def)
  then show ?thesis using session_of[OF copy(2)] by (simp add: copy(1) service_of_go_on fun_upd_idem)
next
  case (copied i r)
  have "i < length (px_handlers p)" using copied(2) by (simp add: has_handler_def)
  then show ?thesis using session_of[OF copied(2)] by (simp add: copied(1) service_of_go_on fun_upd_idem)
next
  case (matched j src packet)
  obtain found t where found: "association_for_source src (srv_table (px_server p)) = (found, t)" by fastforce
  have p': "service_of p' = (service_of p)\<lparr>sv_owner := owner_of t\<rparr>"
    using found by (simp add: matched(1) match_packet_def service_of_def)
  from owner_for_source[OF found assms(2)] show ?thesis
  proof (elim disjE exE conjE)
    assume "owner_of t = owner_of (srv_table (px_server p))"
    then show ?thesis using p' by (simp add: service_of_def)
  next
    fix key i
    assume "owner_of (srv_table (px_server p)) key = Some i" "owner_of (srv_table (px_server p)) (udp_addr_string src) = None"
      and t: "owner_of t = (owner_of (srv_table (px_server p)))(key := None, udp_addr_string src \<mapsto> i)"
    then have "service_step (service_of p)
        ((service_of p)\<lparr>sv_owner := (sv_owner (service_of p))(key := None, udp_addr_string src \<mapsto> i)\<rparr>)"
      by (intro service_step.moves) (simp_all add: service_fields)
    then show ?thesis unfolding p' t service_fields by blast
  qed
next
  case (close r s n)
  have "service_of p' = (service_of p)\<lparr>sv_closed := True, sv_owner := Map.empty\<rparr>"
    using server_close_done[OF close(3,2)] by (simp add: close(1) service_of_server owner_clear)
  then show ?thesis using service_step.closes[of "service_of p"] close(2) by (simp add: service_fields)
qed (rule disjI1, rule service_same, simp_all add: accept_round_def udp_round_def)+

lemma reachable_simulates:
  "proxy_reachable dial udp env cfg p \<Longrightarrow> proxy_step dial udp env p p' \<Longrightarrow>
   service_of p' = service_of p \<or> service_step (service_of p) (service_of p')"
  using served_reachable filed_reachable service_simulates by (metis served_inv_def)

lemma reachable_service: "proxy_reachable dial udp env cfg p \<Longrightarrow> service_step\<^sup>*\<^sup>* service_start (service_of p)"
proof (induction rule: proxy_reachable.induct)
  case (start w s n)
  then show ?case
    using server_start_fresh[OF start]
    by (simp add: service_of_def started_def service_start_def sessions_simps owner_empty)
next
  case (step p p')
  then show ?case using reachable_simulates[OF step(1,3)] by (metis rtranclp.rtrancl_into_rtrancl)
qed

definition one_address :: "service \<Rightarrow> bool" where
  "one_address v \<longleftrightarrow> (\<forall>k k' i. sv_owner v k = Some i \<longrightarrow> sv_owner v k' = Some i \<longrightarrow> k = k')"

lemma one_address_step:
  assumes "service_step v v'" "one_address v"
  shows "one_address v'"
  using assms(1)
proof cases
  case (opens i k)
  then have "sv_owner v k' \<noteq> Some i" for k' by (auto simp: ran_def)
  with assms(2) show ?thesis by (auto simp: opens(1) one_address_def)
next
  case (moves k i k')
  with assms(2) show ?thesis by (auto simp: one_address_def)
next
  case (leaves i k)
  with assms(2) show ?thesis by (auto simp: one_address_def)
next
  case closes
  then show ?thesis by (simp add: one_address_def)
qed

lemma service_one_address:
  assumes "service_step\<^sup>*\<^sup>* service_start v"
  shows "one_address v"
  using assms
proof (induction rule: rtranclp_induct)
  case base
  show ?case by (simp add: one_address_def service_start_def)
qed (rule one_address_step)

text \<open>C5: The running server is an association service: with listeners, bytes and interleavings abstracted
  away, a reachable state is one of the service; every step of any goroutine either leaves the service as
  it is or is one of its four events, so that an association appears only with a connection's session, a
  session that ends frees the address it was opened under in the same step, and \<open>Close\<close> frees every
  address in the step that closes the service; and no connection ever holds two addresses.\<close>

theorem proxy_refines_service:
  assumes "proxy_reachable dial udp env cfg p"
  shows "service_step\<^sup>*\<^sup>* service_start (service_of p) \<and>
    (\<forall>p'. proxy_step dial udp env p p' \<longrightarrow> service_of p' = service_of p \<or> service_step (service_of p) (service_of p')) \<and>
    (\<forall>k k' i. sv_owner (service_of p) k = Some i \<longrightarrow> sv_owner (service_of p) k' = Some i \<longrightarrow> k = k')"
  using reachable_service[OF assms] reachable_simulates[OF assms] service_one_address[OF reachable_service[OF assms]]
  unfolding one_address_def by blast

lemma admit_service:
  "sv_owner (service_of (admit sample_start)) = [''10.0.0.9:0'' \<mapsto> 0]"
  "sv_sessions (service_of (admit sample_start)) = [0 \<mapsto> ''10.0.0.9:0'']"
proof -
  show "sv_owner (service_of (admit sample_start)) = [''10.0.0.9:0'' \<mapsto> 0]"
    by (simp add: service_of_def admitted_table owner_of_def fun_eq_iff)
  show "sv_sessions (service_of (admit sample_start)) = [0 \<mapsto> ''10.0.0.9:0'']"
    by (simp add: service_of_def admit_def Let_def fun_eq_iff sessions_of_def) (simp add: address_eval)
qed

lemma proxy_refines_service_witness:
  "\<exists>v. service_step\<^sup>*\<^sup>* service_start v \<and> sv_owner v = [''10.0.0.9:0'' \<mapsto> 0] \<and> sv_sessions v = [0 \<mapsto> ''10.0.0.9:0'']"
  using proxy_refines_service[OF sample_admitted(1)] admit_service by blast

section \<open>Clients that announce the same address\<close>

text \<open>C21: Associations are filed under the announced address alone: of two clients whose associations print the same
  address (two programs on one host that both announce 0.0.0.0:0), the first to leave takes the other's
  association out of the map, although the other's client has not ended its control connection, the
  server has not closed it and the server goes on.\<close>

theorem shared_address_loses_association:
  assumes "has_handler p i (Holding a q c)" "has_handler p j (Holding b r d)" "i \<noteq> j" "udp_addr_string a = udp_addr_string b"
  shows "\<exists>p1 p'. proxy_step dial udp env p p1 \<and> p1 = p\<lparr>px_ended := insert i (px_ended p)\<rparr> \<and>
    proxy_step dial udp env p1 p' \<and> has_handler p' j (Holding b r d) \<and>
    lookup_association b (srv_table (px_server p')) = None \<and>
    (j \<in> px_ended p' \<longleftrightarrow> j \<in> px_ended p) \<and> (j \<in> conn_open (px_world p') \<longleftrightarrow> j \<in> conn_open (px_world p)) \<and>
    srv_done (px_server p') = srv_done (px_server p)"
proof (intro exI conjI)
  let ?p1 = "p\<lparr>px_ended := insert i (px_ended p)\<rparr>"
  let ?p = "go_on i Over (?p1\<lparr>px_server := finish_udp_associate a (px_server ?p1)\<rparr>)"
  show "proxy_step dial udp env p ?p1" using assms(1) by (intro proxy_step.client_ends) (simp add: has_handler_def)
  show "proxy_step dial udp env ?p1 ?p"
    by (rule proxy_step.control_ends) (use assms(1) in \<open>simp_all add: has_handler_def\<close>)
  show "has_handler ?p j (Holding b r d)" using assms(2,3) by (simp add: has_handler_def)
  show "lookup_association b (srv_table (px_server ?p)) = None" using assms(4) by (simp add: finish_udp_associate_def)
  show "j \<in> px_ended ?p \<longleftrightarrow> j \<in> px_ended p" using assms(3) by simp
  show "j \<in> conn_open (px_world ?p) \<longleftrightarrow> j \<in> conn_open (px_world p)" using assms(3) by (simp add: hang_up_def)
  show "srv_done (px_server ?p) = srv_done (px_server p)" by (simp add: finish_udp_associate_def)
qed simp

lemma shared_address_loses_association_witness:
  "\<exists>p r d. sample_reachable p \<and> has_handler p 1 (Holding (sample_addr 9 0) r d) \<and>
     1 \<in> conn_open (px_world p) \<and> 1 \<notin> px_ended p \<and> \<not> srv_done (px_server p) \<and>
     lookup_association (sample_addr 9 0) (srv_table (px_server p)) = None"
proof -
  let ?p = "admit (admit sample_start)"
  obtain c d where held: "has_handler ?p 0 (Holding (sample_addr 9 0) 0 c)" "has_handler ?p 1 (Holding (sample_addr 9 0) 1 d)"
    by (simp add: has_handler_def admit_def table_eval Let_def)
  have open_conn: "1 \<in> conn_open (px_world ?p)" "1 \<notin> px_ended ?p"
    by (simp_all add: admit_def Let_def sample_start_def started_def)
  from shared_address_loses_association[OF held, where dial = sample_refuse and udp = sample_udp and env = sample_listen]
  obtain p1 p where p: "proxy_step sample_refuse sample_udp sample_listen ?p p1" "proxy_step sample_refuse sample_udp sample_listen p1 p"
    "p1 = ?p\<lparr>px_ended := insert 0 (px_ended ?p)\<rparr>" "has_handler p 1 (Holding (sample_addr 9 0) 1 d)"
    "lookup_association (sample_addr 9 0) (srv_table (px_server p)) = None"
    "1 \<in> px_ended p \<longleftrightarrow> 1 \<in> px_ended ?p" "1 \<in> conn_open (px_world p) \<longleftrightarrow> 1 \<in> conn_open (px_world ?p)"
    "srv_done (px_server p) = srv_done (px_server ?p)"
    by auto
  have "sample_reachable p1" by (rule proxy_reachable.step[OF sample_admitted(2) _ p(1)]) simp
  moreover have "\<not> crashed p1" by (simp add: p(3) crashed_def)
  ultimately have "sample_reachable p" using p(2) by (rule proxy_reachable.step)
  with p(4-8) open_conn show ?thesis by auto
qed

section \<open>Closing\<close>

text \<open>The connections that have an association in the map.\<close>

definition associated_conns :: "server \<Rightarrow> nat set" where
  "associated_conns s = (\<lambda>entry. assoc_conn (heap (srv_table s) ! snd entry)) ` set (assocs (srv_table s))"

lemma close_listener_sockets:
  "close_listener (close_tcp (sockets env)) ln n = (e, n') \<Longrightarrow>
     tcp_open n' = tcp_open n - set_option ln \<and> udp_open n' = udp_open n \<and> conn_open n' = conn_open n"
  "close_listener (close_udp (sockets env)) ln n = (e, n') \<Longrightarrow>
     tcp_open n' = tcp_open n \<and> udp_open n' = udp_open n - set_option ln \<and> conn_open n' = conn_open n"
  by (auto simp: close_listener_def sockets_def andThen_def modify_def on_outside_def split: option.splits prod.splits sum.splits)

lemma close_conns_sockets:
  "for_each (\<lambda>x. ignoring (close_conn (sockets env) (f x))) xs n = (r, n') \<Longrightarrow>
     tcp_open n' = tcp_open n \<and> udp_open n' = udp_open n \<and> conn_open n' = conn_open n - f ` set xs"
proof (induction xs arbitrary: n)
  case (Cons x xs)
  obtain r1 n1 where first: "ignoring (close_conn (sockets env) (f x)) n = (r1, n1)" by fastforce
  then have n1: "r1 = Inr ()" "tcp_open n1 = tcp_open n" "udp_open n1 = udp_open n" "conn_open n1 = conn_open n - {f x}"
    by (auto simp: ignoring_def sockets_def andThen_def modify_def on_outside_def hang_up_def split: prod.splits)
  have "for_each (\<lambda>x. ignoring (close_conn (sockets env) (f x))) xs n1 = (r, n')"
    using Cons.prems first n1(1) by (simp add: andThen_def)
  from Cons.IH[OF this] n1 show ?case by auto
qed simp

lemma server_close_sockets:
  assumes "server_close (sockets env) s n = ((r, s'), n')" "\<not> srv_done s"
  shows "tcp_open n' = tcp_open n - set_option (tcp_ln s)" "udp_open n' = udp_open n - set_option (udp_ln s)"
    "conn_open n' = conn_open n - associated_conns s"
proof -
  obtain e1 n1 where t: "close_listener (close_tcp (sockets env)) (tcp_ln s) n = (e1, n1)" by fastforce
  obtain e2 n2 where u: "close_listener (close_udp (sockets env)) (udp_ln s) n1 = (e2, n2)" by fastforce
  obtain r3 n3 where c: "for_each (\<lambda>entry. ignoring (close_conn (sockets env) (assoc_conn (heap (srv_table s) ! snd entry))))
      (assocs (srv_table s)) n2 = (r3, n3)" by fastforce
  have "n' = n3" using assms t u c by (simp add: server_close_def Let_def)
  then show "tcp_open n' = tcp_open n - set_option (tcp_ln s)" "udp_open n' = udp_open n - set_option (udp_ln s)"
    "conn_open n' = conn_open n - associated_conns s"
    using close_listener_sockets(1)[OF t] close_listener_sockets(2)[OF u] close_conns_sockets[OF c]
    by (simp_all add: associated_conns_def)
qed

text \<open>No step opens a listener, and none but a listener's opens a connection or a packet's goroutine.\<close>

definition shrinks :: "'w proxy \<Rightarrow> 'w proxy \<Rightarrow> bool" where
  "shrinks p p' \<longleftrightarrow>
     tcp_ln (px_server p') = tcp_ln (px_server p) \<and> udp_ln (px_server p') = udp_ln (px_server p) \<and>
     tcp_open (px_world p') \<subseteq> tcp_open (px_world p) \<and> udp_open (px_world p') \<subseteq> udp_open (px_world p) \<and>
     (\<not> listening p \<and> \<not> hearing p \<longrightarrow> conn_open (px_world p') \<subseteq> conn_open (px_world p) \<and>
        px_clients p' = px_clients p \<and> length (px_jobs p') = length (px_jobs p))"

lemma shrinks_go_on: "shrinks p p' \<Longrightarrow> shrinks p (go_on i h p')"
  by (auto simp: shrinks_def hang_up_def)

lemma step_shrinks:
  assumes "proxy_step dial udp env p p'"
  shows "shrinks p p'"
  using assms
proof cases
  case (serve i c h s n)
  have "tcp_ln s = tcp_ln (px_server p) \<and> udp_ln s = udp_ln (px_server p)"
    using serve_conn_server[OF serve(4)] by (cases h) simp_all
  then have "shrinks p (p\<lparr>px_server := s, px_world := n\<rparr>)"
    using serve_conn_sockets[OF serve(4)] by (simp add: shrinks_def same_sockets_def)
  then show ?thesis unfolding serve(1) by (rule shrinks_go_on)
next
  case (answer i addr q c sess c' s)
  have "shrinks p (p\<lparr>px_server := s\<rparr>)"
    using answer_association_server[OF answer(3)] by (auto simp: shrinks_def finish_udp_associate_def)
  then show ?thesis unfolding answer(1) by (rule shrinks_go_on)
next
  case (control_ends i addr q c)
  have "shrinks p (p\<lparr>px_server := finish_udp_associate addr (px_server p)\<rparr>)"
    by (simp add: shrinks_def finish_udp_associate_def)
  then show ?thesis unfolding control_ends(1) by (rule shrinks_go_on)
next
  case (copy i r r')
  show ?thesis unfolding copy(1) by (rule shrinks_go_on) (simp add: shrinks_def)
next
  case (copied i r)
  show ?thesis unfolding copied(1) by (rule shrinks_go_on) (simp add: shrinks_def)
next
  case (relayed_packet j src q packet extra fate n)
  then show ?thesis using relay_packet_sockets[OF relayed_packet(3)] by (simp add: shrinks_def same_sockets_def)
next
  case (close r s n)
  then show ?thesis
    using server_close_sockets[OF close(3,2)] server_close_done[OF close(3,2)] by (auto simp: shrinks_def)
qed (auto simp: shrinks_def accept_round_def udp_round_def match_packet_def split: prod.split)

lemma closed_stays:
  assumes "(proxy_step dial udp env)\<^sup>*\<^sup>* p p'" "\<not> listening p" "\<not> hearing p"
  shows "\<not> listening p' \<and> \<not> hearing p' \<and> conn_open (px_world p') \<subseteq> conn_open (px_world p) \<and>
    px_clients p' = px_clients p \<and> length (px_jobs p') = length (px_jobs p)"
  using assms(1)
proof (induction rule: rtranclp_induct)
  case (step p1 p2)
  with step_shrinks[OF step.hyps(2)] show ?case
    by (auto simp: shrinks_def listening_def hearing_def)
qed (use assms(2,3) in simp)

text \<open>C20: What \<open>Close\<close> ends, and what not. It closes both listeners, exactly the connections that have an
  association in the map, and empties the map. From then on, whatever any goroutine does, no connection
  and no packet is taken any more; the loops can end; and the handler of every connection closed here
  that waits for its client can end without it. Connections that are still being served or that relay a
  CONNECT session are not closed: they end when their peers end them.\<close>

theorem close_releases:
  assumes "server_close (sockets env) (px_server p) (px_world p) = ((r, s), n)" "\<not> srv_done (px_server p)"
    and "(proxy_step dial udp env)\<^sup>*\<^sup>* (p\<lparr>px_server := s, px_world := n\<rparr>) p'"
  shows "assocs (srv_table s) = [] \<and> conn_open n = conn_open (px_world p) - associated_conns (px_server p) \<and>
    \<not> listening p' \<and> \<not> hearing p' \<and> px_clients p' = px_clients p \<and> length (px_jobs p') = length (px_jobs p) \<and>
    (px_accepting p' \<longrightarrow> (\<exists>q. proxy_step dial udp env p' q \<and> \<not> px_accepting q)) \<and>
    (px_receiving p' \<longrightarrow> (\<exists>q. proxy_step dial udp env p' q \<and> \<not> px_receiving q)) \<and>
    (\<forall>i addr h c. i \<in> associated_conns (px_server p) \<longrightarrow> has_handler p' i (Holding addr h c) \<longrightarrow>
       (\<exists>q. proxy_step dial udp env p' q \<and> has_handler q i Over \<and> px_ended q = px_ended p'))"
proof -
  let ?p = "p\<lparr>px_server := s, px_world := n\<rparr>"
  have s: "s = (px_server p)\<lparr>srv_done := True, srv_table := clear_associations (srv_table (px_server p))\<rparr>"
    by (rule server_close_done[OF assms(1,2)])
  note net = server_close_sockets[OF assms(1,2)]
  have deaf: "\<not> listening ?p" "\<not> hearing ?p" using s net by (auto simp: listening_def hearing_def)
  have after: "\<not> listening p'" "\<not> hearing p'" "conn_open (px_world p') \<subseteq> conn_open n" "px_clients p' = px_clients p" "length (px_jobs p') = length (px_jobs p)"
    using closed_stays[OF assms(3) deaf] by simp_all
  have "\<exists>q. proxy_step dial udp env p' q \<and> has_handler q i Over \<and> px_ended q = px_ended p'"
    if "i \<in> associated_conns (px_server p)" "has_handler p' i (Holding addr h c)" for i addr h c
  proof -
    have "i \<notin> conn_open (px_world p')" using that(1) net(3) after(3) by blast
    then have "proxy_step dial udp env p' (go_on i Over (p'\<lparr>px_server := finish_udp_associate addr (px_server p')\<rparr>))"
      using that(2) by (intro proxy_step.control_ends) simp_all
    with that(2) show ?thesis by (intro exI conjI) (assumption, simp_all add: has_handler_def)
  qed
  moreover have "px_accepting p' \<longrightarrow> (\<exists>q. proxy_step dial udp env p' q \<and> \<not> px_accepting q)"
    using proxy_step.accept_error[of p' dial udp env undefined] by (auto simp: accept_round_def)
  moreover have "px_receiving p' \<longrightarrow> (\<exists>q. proxy_step dial udp env p' q \<and> \<not> px_receiving q)"
    using proxy_step.datagram_error[of p' dial udp env undefined] by (auto simp: udp_round_def)
  ultimately show ?thesis using s net(3) after by (simp add: clear_associations_def)
qed

lemma close_releases_witness:
  "\<exists>p q. sample_reachable p \<and> srv_done (px_server p) \<and> assocs (srv_table (px_server p)) = [] \<and>
     proxy_step sample_refuse sample_udp sample_listen p q \<and> has_handler q 0 Over \<and> px_ended q = {}"
proof -
  let ?p = "admit sample_start"
  obtain r s n where closed: "server_close (sockets sample_listen) (px_server ?p) (px_world ?p) = ((r, s), n)"
    by (metis prod.collapse)
  have running: "\<not> srv_done (px_server ?p)" by simp
  let ?q = "?p\<lparr>px_server := s, px_world := n\<rparr>"
  have "proxy_step sample_refuse sample_udp sample_listen ?p ?q" by (rule proxy_step.close[OF running closed])
  from proxy_reachable.step[OF sample_admitted(1) _ this] have "sample_reachable ?q" by simp
  moreover have "srv_done s" using server_close_done[OF closed running] by simp
  moreover have "0 \<in> associated_conns (px_server ?p)" by (simp add: associated_conns_def admitted_table)
  moreover obtain c where "has_handler ?q 0 (Holding (sample_addr 9 0) 0 c)"
    by (simp add: has_handler_def admit_def table_eval Let_def)
  moreover note released = close_releases[OF closed running rtranclp.rtrancl_refl, where dial = sample_refuse and udp = sample_udp]
  ultimately obtain q where "proxy_step sample_refuse sample_udp sample_listen ?q q" "has_handler q 0 Over" "px_ended q = px_ended ?q"
    by blast
  moreover have "px_ended ?q = {}" by (simp add: admit_def Let_def sample_start_def started_def)
  moreover have "assocs (srv_table (px_server ?q)) = []" using released by simp
  ultimately show ?thesis using \<open>sample_reachable ?q\<close> \<open>srv_done s\<close> by (intro exI[of _ ?q] exI[of _ q]) simp
qed

end
