(* ===== verification/Socks5_Types.thy ===== *)
theory Socks5_Types
  imports Socks5_Loops
begin

text \<open>
  What is an address: every client address the running server stores is one a UDP socket can send to, an IPv4
  or IPv6 address and a port that fits 16 bits, whatever bytes the clients send (a request may name any
  string as its host), if the operating system delivers connections and packets with such addresses.
\<close>

definition udp_addr_ok :: "udp_addr \<Rightarrow> bool" where
  "udp_addr_ok a \<longleftrightarrow> (length (u_ip a) = 4 \<or> length (u_ip a) = 16) \<and> 0 \<le> u_port a \<and> u_port a < 65536"

definition peer_ok :: "conn \<Rightarrow> bool" where
  "peer_ok c \<longleftrightarrow> length (remote_ip c) = 4 \<or> length (remote_ip c) = 16"

section \<open>The announced address\<close>

lemma split_host_port_port: "split_host_port s = Inr (host, port) \<Longrightarrow> \<exists>hp. split_last_colon s = Some (hp, port)"
  by (auto simp: split_host_port_def Let_def split: option.splits if_splits)

lemma split_join_port:
  assumes "split_host_port (join_host_port host (itoa p)) = Inr (h, port)"
  shows "port = itoa p"
proof -
  have "split_last_colon (join_host_port host (itoa p)) =
      Some (if CHR '':'' \<in> set host then ''['' @ host @ '']'' else host, itoa p)"
    using split_last_colon_append[of "itoa p" "''['' @ host @ '']''"] split_last_colon_append[of "itoa p" host]
    by (simp add: join_host_port_def)
  with split_host_port_port[OF assms] show ?thesis by auto
qed

lemma announced_port:
  assumes "0 \<le> p" "p < 65536"
  shows "0 \<le> snd (split_host_port_int (join_host_port host (itoa p))) \<and>
    snd (split_host_port_int (join_host_port host (itoa p))) < 65536"
proof (cases "split_host_port (join_host_port host (itoa p))")
  case (Inr hp)
  then obtain h where "split_host_port (join_host_port host (itoa p)) = Inr (h, itoa p)"
    using split_join_port by (cases hp) auto
  with assms atoi_itoa[of p] show ?thesis by (simp add: split_host_port_int_def)
qed (simp add: split_host_port_int_def)

lemma associate_client_addr_ok:
  assumes "peer_ok c" "0 \<le> p" "p < 65536"
  shows "udp_addr_ok (associate_client_addr c (join_host_port host (itoa p)))"
  using assms announced_port[OF assms(2,3), of host] parse_ip_length
  by (auto simp: associate_client_addr_def udp_addr_ok_def peer_ok_def Let_def split: prod.split)

section \<open>Connections keep their peer\<close>

lemma keeps_read_exactly: "keeps peer_ok (read_exactly n)"
  by (simp add: keeps_def read_exactly_def peer_ok_def)

lemma keeps_conn_write: "keeps peer_ok (conn_write bs)"
  by (simp add: keeps_def conn_write_def peer_ok_def split: nat.split)

lemmas conn_intros = keeps_intros keeps_read_exactly keeps_conn_write

lemma keeps_verify: "keeps peer_ok (verify_username_password a)"
  unfolding verify_username_password_def Let_def by (intro conn_intros)

lemma keeps_negotiate: "keeps peer_ok (negotiate_auth cfg)"
  unfolding negotiate_auth_def Let_def by (intro conn_intros keeps_verify)

lemma keeps_read_request: "keeps peer_ok read_request"
  unfolding read_request_def read_address_def Let_def by (intro conn_intros)

lemma read_request_target:
  assumes "read_request c = (Inr (cmd, target), c')"
  shows "\<exists>host p. target = join_host_port host (itoa p) \<and> 0 \<le> p \<and> p < 65536"
  using assms get_uint16_range unfolding read_request_def andThen_Inr_iff
  by (auto simp: andThen_Inr_iff split: if_splits)

section \<open>The stored addresses\<close>

definition table_typed :: "assoc_table \<Rightarrow> bool" where
  "table_typed t \<longleftrightarrow> (\<forall>a \<in> set (heap t). \<exists>addr. client_addr a = Some addr \<and> udp_addr_ok addr)"

lemma table_typed_new: "table_typed t \<Longrightarrow> udp_addr_ok addr \<Longrightarrow> table_typed (snd (new_association addr cid t))"
  by (simp add: table_typed_def new_association_def store_association_def Let_def)

lemma table_typed_delete [simp]: "table_typed (delete_association addr t) = table_typed t"
  by (simp add: table_typed_def delete_association_def)

lemma table_typed_clear [simp]: "table_typed (clear_associations t) = table_typed t"
  by (simp add: table_typed_def clear_associations_def)

lemma table_typed_for_source:
  assumes "table_typed t" "udp_addr_ok src" "association_for_source src t = (found, t')"
  shows "table_typed t'"
proof (cases found)
  case None
  with assms association_for_source_None show ?thesis by blast
next
  case (Some q)
  from assms(3)[unfolded Some] show ?thesis
  proof (cases rule: association_for_source_cases)
    case (adopted key)
    then have "set (heap t') \<subseteq> insert ((heap t ! q)\<lparr>client_addr := Some src\<rparr>) (set (heap t))"
      by (auto simp: adopt_association_locked_def clone_id Let_def dest: subsetD[OF set_update_subset_insert])
    with assms(1,2) show ?thesis by (fastforce simp: table_typed_def)
  qed (use assms(1) in simp)
qed

lemma serve_conn_addr:
  assumes "serve_conn dial cid s c w = (Filed addr q c', s', w')" "peer_ok c"
  shows "udp_addr_ok addr"
proof -
  obtain c1 c2 target where parts: "negotiate_auth (srv_cfg s) c = (Inr (), c1)"
      "read_request c1 = (Inr (commandUDPAssociate, target), c2)" "addr = associate_client_addr c2 target"
    using assms(1)
    by (auto simp: serve_conn_def handler_of_def file_association_def Let_def
        split: prod.splits sum.splits if_splits session.splits)
  then have "peer_ok c2"
    using assms(2) keeps_negotiate[of "srv_cfg s"] keeps_read_request unfolding keeps_def by (metis snd_conv)
  with read_request_target[OF parts(2)] associate_client_addr_ok parts(3) show ?thesis by auto
qed

text \<open>What the operating system has delivered so far, and the states it delivers only such input to.\<close>

definition input_ok :: "'w proxy \<Rightarrow> bool" where
  "input_ok p \<longleftrightarrow> (\<forall>c \<in> set (px_clients p). peer_ok c) \<and>
     (\<forall>src packet. Arrived src packet \<in> set (px_jobs p) \<longrightarrow> udp_addr_ok src)"

definition delivering_step ::
  "(string \<Rightarrow> ('w, conn \<times> string) eff) \<Rightarrow> ('w, 's) udp_env \<Rightarrow> 'w listen_env \<Rightarrow> 'w proxy \<Rightarrow> 'w proxy \<Rightarrow> bool" where
  "delivering_step dial udp env p p' \<longleftrightarrow> proxy_step dial udp env p p' \<and> input_ok p'"

definition proxy_typed :: "'w proxy \<Rightarrow> bool" where
  "proxy_typed p \<longleftrightarrow> table_typed (srv_table (px_server p)) \<and>
     (\<forall>c. Serving c \<in> set (px_handlers p) \<longrightarrow> peer_ok c) \<and>
     (\<forall>src packet. Arrived src packet \<in> set (px_jobs p) \<longrightarrow> udp_addr_ok src)"

lemma typed_handlers:
  assumes "proxy_typed p" "\<And>c. h \<noteq> Serving c" "table_typed (srv_table s)"
  shows "proxy_typed (go_on i h (p\<lparr>px_server := s, px_world := n\<rparr>))"
  using assms set_update_subset_insert[of "px_handlers p" i h] by (auto simp: proxy_typed_def)

lemmas typed_server = typed_handlers[where n = "px_world p" and p = p for p, simplified]

lemma typed_jobs:
  assumes "proxy_typed p" "px_jobs p' = (px_jobs p)[j := k]" "\<not> (\<exists>src packet. k = Arrived src packet)"
    and "table_typed (srv_table (px_server p'))" "px_handlers p' = px_handlers p"
  shows "proxy_typed p'"
  using assms set_update_subset_insert[of "px_jobs p" j k] unfolding proxy_typed_def by (metis insertE subsetD)

lemma typed_step:
  assumes "delivering_step dial udp env p p'" "proxy_typed p"
  shows "proxy_typed p'"
proof -
  have input: "input_ok p'" and step: "proxy_step dial udp env p p'" using assms(1) by (simp_all add: delivering_step_def)
  have table: "table_typed (srv_table (px_server p))" using assms(2) by (simp add: proxy_typed_def)
  from step show ?thesis
  proof cases
    case (serve i c h s n)
    have "peer_ok c" using serve(2) assms(2) by (auto simp: proxy_typed_def has_handler_def dest: nth_mem)
    then have "h = Filed addr q c' \<Longrightarrow> udp_addr_ok addr" for addr q c'
      using serve_conn_addr[of _ i "px_server p" c "px_world p" addr q c' s n] serve(4) by blast
    then have "table_typed (srv_table s)"
      using serve_conn_server[OF serve(4)] table table_typed_new by (cases h) auto
    then show ?thesis unfolding serve(1) by (intro typed_handlers[OF assms(2)] serve_conn_not_serving[OF serve(4)])
  next
    case (answer i addr q c sess c' s)
    have "table_typed (srv_table s)"
      using answer_association_server[OF answer(3)] table by (auto simp: finish_udp_associate_def)
    then show ?thesis unfolding answer(1) by (intro typed_server[OF assms(2)] handler_of_not_serving)
  next
    case (control_ends i addr q c)
    then show ?thesis using table typed_server[OF assms(2), of Over] by (simp add: finish_udp_associate_def)
  next
    case (copy i r r')
    then show ?thesis using table typed_server[OF assms(2), of "Copying r'" "px_server p"] by simp
  next
    case (copied i r)
    then show ?thesis using table typed_server[OF assms(2), of Over "px_server p"] by simp
  next
    case (matched j src packet)
    obtain found t where found: "association_for_source src (srv_table (px_server p)) = (found, t)" by fastforce
    have "udp_addr_ok src" using matched(2) assms(2) unfolding proxy_typed_def has_job_def by (metis nth_mem)
    then have "table_typed t" using table_typed_for_source[OF table _ found] by simp
    then show ?thesis
      using matched(1) found by (intro typed_jobs[OF assms(2), where j = j]) (auto simp: match_packet_def split: option.splits)
  next
    case (relayed_packet j src q packet extra fate n)
    then show ?thesis using table by (intro typed_jobs[OF assms(2), where j = j and k = "Finished fate"]) simp_all
  next
    case (close r s n)
    then have "table_typed (srv_table s)" using table by (auto simp: server_close_def Let_def split: if_splits prod.splits)
    with close(1) assms(2) show ?thesis by (simp add: proxy_typed_def)
  qed (use input assms(2) in \<open>auto simp: accept_round_def udp_round_def proxy_typed_def input_ok_def\<close>)
qed

text \<open>C19: Every stored client address is well formed: in a run in which the operating system delivers connections
  and packets from well-formed addresses, whatever the clients send, every association holds an IPv4 or
  IPv6 address and a port below 65536.\<close>

theorem stored_addresses_ok:
  assumes "server_start (sockets env) (new_server cfg) (new_net w) = ((None, s), n)"
    and "(delivering_step dial udp env)\<^sup>*\<^sup>* (started s n) p"
  shows "\<forall>a \<in> set (heap (srv_table (px_server p))). \<exists>addr. client_addr a = Some addr \<and> udp_addr_ok addr"
proof -
  have "srv_table s = empty_table" using server_start_fresh[OF assms(1)] by simp
  then have "proxy_typed (started s n)"
    by (simp add: proxy_typed_def started_def table_typed_def empty_table_def)
  with assms(2) have "proxy_typed p" by (induction rule: rtranclp_induct) (auto intro: typed_step)
  then show ?thesis by (simp add: proxy_typed_def table_typed_def)
qed

lemma stored_addresses_ok_witness:
  "udp_addr_ok (sample_addr 9 0)"
proof -
  let ?s = "sample_server (Some sample_auth) True"
  let ?c = sample_client and ?A = "sample_addr 9 0"
  define p1 where "p1 = accept_round (Inr ?c) sample_start"
  define p2 where "p2 = p1\<lparr>px_ready := insert 0 (px_ready p1)\<rparr>"
  define p3 where "p3 = go_on 0 (Filed ?A 0 sample_asked)
    (p2\<lparr>px_server := ?s\<lparr>srv_table := snd (new_association ?A 0 empty_table)\<rparr>, px_world := px_world p2\<rparr>)"
  have peer: "peer_ok ?c" by (simp add: peer_ok_def sample_client_def sample_conn_def)
  have "proxy_step sample_refuse sample_udp sample_listen sample_start p1"
    unfolding p1_def by (rule proxy_step.connection) simp_all
  then have 1: "delivering_step sample_refuse sample_udp sample_listen sample_start p1"
    using peer by (simp add: delivering_step_def input_ok_def p1_def accept_round_def)
  have "proxy_step sample_refuse sample_udp sample_listen p1 p2"
    unfolding p2_def by (rule proxy_step.client_sends) (simp add: p1_def accept_round_def)
  then have 2: "delivering_step sample_refuse sample_udp sample_listen p1 p2"
    using peer by (simp add: delivering_step_def input_ok_def p2_def p1_def accept_round_def)
  have "has_handler p2 0 (Serving ?c)" "0 \<in> px_ready p2" "px_server p2 = ?s"
    by (simp_all add: p2_def p1_def accept_round_def has_handler_def sample_start_def started_def)
  moreover have "srv_auth (srv_cfg ?s) = Some sample_auth" "allow_udp (srv_cfg ?s)" "udp_ln ?s \<noteq> None"
    "srv_table ?s = empty_table" "heap empty_table = []"
    by (simp_all add: sample_server_def empty_table_def)
  ultimately have "proxy_step sample_refuse sample_udp sample_listen p2 p3"
    unfolding p3_def by (intro proxy_step.serve[where c = ?c]) (simp_all add: sample_serve)
  then have 3: "delivering_step sample_refuse sample_udp sample_listen p2 p3"
    using peer by (simp add: delivering_step_def input_ok_def p3_def p2_def p1_def accept_round_def)
  from 1 2 3 have "(delivering_step sample_refuse sample_udp sample_listen)\<^sup>*\<^sup>* (started ?s sample_net) p3"
    unfolding sample_start_def by (meson converse_rtranclp_into_rtranclp rtranclp.rtrancl_refl)
  from stored_addresses_ok[OF sample_booted this] show ?thesis by (simp add: p3_def table_eval)
qed

end
