(* ===== verification/GoJson.thy ===== *)
theory GoJson
  imports GoNet
begin

text \<open>
  Go's \<open>encoding/json\<close> as the program uses it: \<open>Marshal\<close> and \<open>MarshalIndent\<close> of structs, \<open>Unmarshal\<close>
  of a whole text, and \<open>Decoder.Decode\<close>, which reads the first value of a stream. JSON values are a
  datatype; the text of a value is printed with the escapes of the standard library, and read by a
  scanner with a stack of open arrays and objects, as the library's own scanner does. Strings are
  bytes: what is not UTF-8 becomes the replacement character, on the way out and on the way in.

  Not modelled: the nesting limit of 10000 of the decoder, and the position in the text of its errors.
\<close>

section \<open>UTF-8\<close>

text \<open>The length of the well-formed encoding a string starts with (\<open>utf8.DecodeRune\<close>), 0 if there is none.\<close>

definition cont_byte :: "nat \<Rightarrow> bool" where
  "cont_byte b = (0x80 \<le> b \<and> b \<le> 0xBF)"

definition second_byte :: "nat \<Rightarrow> nat \<Rightarrow> bool" where
  "second_byte a b =
     (if a = 0xE0 then 0xA0 \<le> b \<and> b \<le> 0xBF
      else if a = 0xED then 0x80 \<le> b \<and> b \<le> 0x9F
      else if a = 0xF0 then 0x90 \<le> b \<and> b \<le> 0xBF
      else if a = 0xF4 then 0x80 \<le> b \<and> b \<le> 0x8F
      else cont_byte b)"

fun rune_len_bytes :: "nat list \<Rightarrow> nat" where
  "rune_len_bytes [] = 0"
| "rune_len_bytes (a # bs) =
     (if a < 0x80 then 1
      else if 0xC2 \<le> a \<and> a \<le> 0xDF then
        (case bs of b # _ \<Rightarrow> if cont_byte b then 2 else 0 | _ \<Rightarrow> 0)
      else if 0xE0 \<le> a \<and> a \<le> 0xEF then
        (case bs of b # c # _ \<Rightarrow> if second_byte a b \<and> cont_byte c then 3 else 0 | _ \<Rightarrow> 0)
      else if 0xF0 \<le> a \<and> a \<le> 0xF4 then
        (case bs of b # c # d # _ \<Rightarrow> if second_byte a b \<and> cont_byte c \<and> cont_byte d then 4 else 0 | _ \<Rightarrow> 0)
      else 0)"

definition rune_len :: "string \<Rightarrow> nat" where
  "rune_len s = rune_len_bytes (map of_char s)"

definition replacement_char :: string where
  "replacement_char = [CHR 0xEF, CHR 0xBF, CHR 0xBD]"

text \<open>The encoding of a code point (\<open>utf8.EncodeRune\<close>); surrogates become the replacement character.\<close>

definition encode_rune :: "nat \<Rightarrow> string" where
  "encode_rune n =
     (if n < 0x80 then [char_of n]
      else if n < 0x800 then [char_of (0xC0 + n div 64), char_of (0x80 + n mod 64)]
      else if 0xD800 \<le> n \<and> n < 0xE000 then replacement_char
      else if n < 0x10000 then
        [char_of (0xE0 + n div 4096), char_of (0x80 + n div 64 mod 64), char_of (0x80 + n mod 64)]
      else if n < 0x110000 then
        [char_of (0xF0 + n div 262144), char_of (0x80 + n div 4096 mod 64), char_of (0x80 + n div 64 mod 64),
         char_of (0x80 + n mod 64)]
      else replacement_char)"

lemma rune_len_bytes_le: "rune_len_bytes bs \<le> length bs"
  by (cases bs) (auto split: list.split)

lemma rune_len_le: "rune_len s \<le> length s"
  using rune_len_bytes_le[of "map of_char s"] by (simp add: rune_len_def)

lemma rune_len_bytes_stable:
  assumes "rune_len_bytes bs \<noteq> 0"
  shows "rune_len_bytes (take (rune_len_bytes bs) bs @ t) = rune_len_bytes bs"
proof -
  obtain a r where bs: "bs = a # r" using assms by (cases bs) auto
  show ?thesis
  proof (cases "a < 0x80")
    case False
    with assms bs consider b u where "r = b # u" "rune_len_bytes bs = 2"
      | b c u where "r = b # c # u" "rune_len_bytes bs = 3"
      | b c d u where "r = b # c # d # u" "rune_len_bytes bs = 4"
      by (auto split: list.split_asm if_split_asm)
    then show ?thesis by cases (use bs False in \<open>auto split: list.split_asm if_split_asm\<close>)
  qed (simp add: bs)
qed

lemma rune_len_stable: "rune_len s = n \<Longrightarrow> n \<noteq> 0 \<Longrightarrow> rune_len (take n s @ t) = n"
  using rune_len_bytes_stable[of "map of_char s" "map of_char t"] by (simp add: rune_len_def take_map)

lemma rune_len_ascii: "rune_len (c # s) = Suc 0 \<longleftrightarrow> (of_char c :: nat) < 0x80"
  by (auto simp: rune_len_def split: list.split if_splits)

lemma cont_byteD: "cont_byte b \<Longrightarrow> 0x80 \<le> b"
  by (simp add: cont_byte_def)

lemma second_byteD: "second_byte a b \<Longrightarrow> 0x80 \<le> b"
  by (simp add: second_byte_def cont_byte_def split: if_splits)

lemma rune_len_bytes_high:
  "1 < rune_len_bytes bs \<Longrightarrow> list_all (\<lambda>b. 0x80 \<le> b) (take (rune_len_bytes bs) bs)"
  by (cases bs) (auto split: list.split_asm if_split_asm dest: cont_byteD second_byteD)

lemma rune_len_high: "1 < rune_len s \<Longrightarrow> list_all (\<lambda>c. 0x80 \<le> (of_char c :: nat)) (take (rune_len s) s)"
  using rune_len_bytes_high[of "map of_char s"]
  by (simp add: rune_len_def take_map list_all_length)

text \<open>A string with every ill-formed byte replaced, as it looks after a trip through JSON.\<close>

function valid_utf8 :: "string \<Rightarrow> string" where
  "valid_utf8 [] = []"
| "valid_utf8 (c # s) =
     (let n = rune_len (c # s) in
      if n = 0 then replacement_char @ valid_utf8 s
      else take n (c # s) @ valid_utf8 (drop n (c # s)))"
  by pat_completeness auto
termination by (relation "measure length") auto

section \<open>Strings\<close>

definition escape_char :: "char \<Rightarrow> string" where
  "escape_char c =
     (let n = of_char c :: nat in
      if n = 0x22 \<or> n = 0x5C then [CHR 0x5C, c]
      else if n = 8 then [CHR 0x5C, CHR ''b'']
      else if n = 12 then [CHR 0x5C, CHR ''f'']
      else if n = 10 then [CHR 0x5C, CHR ''n'']
      else if n = 13 then [CHR 0x5C, CHR ''r'']
      else if n = 9 then [CHR 0x5C, CHR ''t'']
      else if n < 0x20 \<or> n = 0x3C \<or> n = 0x3E \<or> n = 0x26
        then [CHR 0x5C, CHR ''u'', CHR ''0'', CHR ''0'', hex_digit (n div 16), hex_digit (n mod 16)]
      else [c])"

definition line_separators :: "string list" where
  "line_separators = [[CHR 0xE2, CHR 0x80, CHR 0xA8], [CHR 0xE2, CHR 0x80, CHR 0xA9]]"

function json_escape :: "string \<Rightarrow> string" where
  "json_escape [] = []"
| "json_escape (c # s) =
     (let n = rune_len (c # s) in
      if n = 0 then CHR 0x5C # ''ufffd'' @ json_escape s
      else if n = 1 then escape_char c @ json_escape s
      else if take n (c # s) \<in> set line_separators
        then CHR 0x5C # ''u202'' @ [hex_digit (of_char ((c # s) ! 2) mod 16)] @ json_escape (drop n (c # s))
      else take n (c # s) @ json_escape (drop n (c # s)))"
  by pat_completeness auto
termination by (relation "measure length") auto

text \<open>The extent of a string literal behind its opening quote: its raw text and what follows.\<close>

fun scan_string :: "string \<Rightarrow> (string \<times> string) option" where
  "scan_string [] = None"
| "scan_string (c # s) =
     (if c = CHR 0x22 then Some ([], s)
      else if (of_char c :: nat) < 0x20 then None
      else if c = CHR 0x5C then
        (case s of [] \<Rightarrow> None
         | d # t \<Rightarrow> if d \<in> set (CHR 0x22 # CHR 0x5C # ''/bfnrtu'')
                   then map_option (\<lambda>(b, r). (c # d # b, r)) (scan_string t) else None)
      else map_option (\<lambda>(b, r). (c # b, r)) (scan_string s))"

fun hex4 :: "string \<Rightarrow> nat option" where
  "hex4 (a # b # c # d # _) =
     (if list_all (\<lambda>x. hex_val x \<noteq> None) [a, b, c, d] then Some (hex_value [a, b, c, d]) else None)"
| "hex4 _ = None"

definition unescape_char :: "char \<Rightarrow> char" where
  "unescape_char d =
     (if d = CHR ''b'' then char_of (8 :: nat) else if d = CHR ''f'' then char_of (12 :: nat)
      else if d = CHR ''n'' then char_of (10 :: nat) else if d = CHR ''r'' then char_of (13 :: nat)
      else if d = CHR ''t'' then char_of (9 :: nat) else d)"

text \<open>The second half of a surrogate pair, \<open>backslash uXXXX\<close> right behind the first.\<close>

definition low_surrogate :: "string \<Rightarrow> nat option" where
  "low_surrogate s =
     (case s of a # b # t \<Rightarrow>
        if a = CHR 0x5C \<and> b = CHR ''u'' then
          (case hex4 t of Some n \<Rightarrow> if 0xDC00 \<le> n \<and> n < 0xE000 then Some n else None | None \<Rightarrow> None)
        else None
      | _ \<Rightarrow> None)"

function unquote :: "string \<Rightarrow> string option" where
  "unquote [] = Some []"
| "unquote (c # s) =
     (if c = CHR 0x5C then
        (case s of [] \<Rightarrow> None
         | d # t \<Rightarrow>
            if d = CHR ''u'' then
              (case hex4 t of None \<Rightarrow> None
               | Some n \<Rightarrow>
                  let rest = drop 4 t in
                  if 0xD800 \<le> n \<and> n < 0xDC00 \<and> low_surrogate rest \<noteq> None
                  then map_option ((@) (encode_rune (0x10000 + (n - 0xD800) * 1024 + (the (low_surrogate rest) - 0xDC00))))
                         (unquote (drop 6 rest))
                  else map_option ((@) (encode_rune n)) (unquote rest))
            else map_option ((#) (unescape_char d)) (unquote t))
      else
        let n = rune_len (c # s) in
        if n = 0 then map_option ((@) replacement_char) (unquote s)
        else map_option ((@) (take n (c # s))) (unquote (drop n (c # s))))"
  by pat_completeness auto
termination by (relation "measure length") auto

declare valid_utf8.simps(2) [simp del] json_escape.simps(2) [simp del]

lemma scan_string_high:
  "list_all (\<lambda>c. 0x80 \<le> (of_char c :: nat)) u \<Longrightarrow>
   scan_string (u @ s) = map_option (\<lambda>(b, r). (u @ b, r)) (scan_string s)"
proof (induction u)
  case (Cons c u)
  then have "c \<noteq> CHR 0x22" "c \<noteq> CHR 0x5C" "\<not> (of_char c :: nat) < 0x20" by auto
  with Cons show ?case by (cases "scan_string s") auto
qed (cases "scan_string s"; simp)

lemma hex_digit_plain: "n < 16 \<Longrightarrow> hex_digit n \<noteq> CHR 0x22 \<and> hex_digit n \<noteq> CHR 0x5C \<and> \<not> (of_char (hex_digit n) :: nat) < 0x20"
proof -
  assume "n < 16"
  then have "n \<in> set [0..<16]" by simp
  moreover have "list_all (\<lambda>n. hex_digit n \<noteq> CHR 0x22 \<and> hex_digit n \<noteq> CHR 0x5C \<and> \<not> (of_char (hex_digit n) :: nat) < 0x20) [0..<16]"
    by code_simp
  ultimately show ?thesis unfolding list_all_iff by (rule bspec[rotated])
qed

lemma scan_string_escape_char:
  assumes "(of_char c :: nat) < 0x80"
  shows "scan_string (escape_char c @ s) = map_option (\<lambda>(b, r). (escape_char c @ b, r)) (scan_string s)"
proof -
  have "(of_char c :: nat) div 16 < 16" "(of_char c :: nat) mod 16 < 16" using assms by simp_all
  note hex = this[THEN hex_digit_plain]
  have punct: "(of_char c :: nat) \<noteq> 0x22 \<Longrightarrow> c \<noteq> CHR 0x22" "(of_char c :: nat) \<noteq> 0x5C \<Longrightarrow> c \<noteq> CHR 0x5C"
    "(of_char c :: nat) = 0x22 \<Longrightarrow> c = CHR 0x22" "(of_char c :: nat) = 0x5C \<Longrightarrow> c = CHR 0x5C"
    using of_char_eq_iff[of c "CHR 0x22"] of_char_eq_iff[of c "CHR 0x5C"] by auto
  show ?thesis
    using hex punct by (cases "scan_string s") (auto simp: escape_char_def Let_def)
qed

lemma scan_string_escape:
  "scan_string (json_escape s @ CHR 0x22 # r) = Some (json_escape s, r)"
proof (induction s rule: json_escape.induct)
  case (2 c s)
  let ?n = "rune_len (c # s)"
  consider "?n = 0" | "?n = 1" | "1 < ?n" by linarith
  then show ?case
  proof cases
    case 1
    with 2(1)[OF refl] show ?thesis by (simp add: json_escape.simps)
  next
    case 2
    with "2.IH"(2)[OF refl] show ?thesis
      by (simp add: json_escape.simps scan_string_escape_char rune_len_ascii[THEN iffD1])
  next
    case 3
    have hex: "hex_digit (of_char ((c # s) ! 2) mod 16) \<noteq> CHR 0x22 \<and>
        hex_digit (of_char ((c # s) ! 2) mod 16) \<noteq> CHR 0x5C \<and>
        \<not> (of_char (hex_digit (of_char ((c # s) ! 2) mod 16)) :: nat) < 0x20"
      by (rule hex_digit_plain) simp
    show ?thesis
    proof (cases "take ?n (c # s) \<in> set line_separators")
      case True
      with 3 "2.IH"(3)[OF refl] hex show ?thesis by (simp add: json_escape.simps)
    next
      case False
      with 3 "2.IH"(4)[OF refl] show ?thesis
        by (simp add: json_escape.simps Let_def scan_string_high[OF rune_len_high] del: scan_string.simps)
    qed
  qed
qed simp

lemma unquote_rune:
  assumes "rune_len s = n" "n \<noteq> 0" "hd s \<noteq> CHR 0x5C"
  shows "unquote (take n s @ t) = map_option ((@) (take n s)) (unquote t)"
proof -
  obtain c u where s: "s = c # u" using assms by (cases s) (auto simp: rune_len_def)
  obtain m where m: "n = Suc m" using assms(2) by (cases n) auto
  have "rune_len (c # (take m u @ t)) = n"
    using rune_len_stable[OF assms(1,2), of t] s m by simp
  moreover have "length (take m u) = m"
    using rune_len_le[of s] assms(1) s m by simp
  ultimately show ?thesis using assms(3) s m by (simp add: Let_def)
qed

lemma char_eval:
  "char_of (34 :: nat) = CHR 0x22" "char_of (92 :: nat) = CHR 0x5C" "char_of (239 :: nat) = CHR 0xEF"
  "char_of (191 :: nat) = CHR 0xBF" "char_of (189 :: nat) = CHR 0xBD" "char_of (226 :: nat) = CHR 0xE2"
  "char_of (128 :: nat) = CHR 0x80" "char_of (168 :: nat) = CHR 0xA8" "char_of (169 :: nat) = CHR 0xA9"
  by code_simp+

lemma map_option_single: "map_option ((@) [c]) x = map_option ((#) c) x"
  by (cases x) simp_all

lemma unquote_hex:
  assumes "(of_char c :: nat) < 0x80"
  shows "unquote (CHR 0x5C # CHR ''u'' # CHR ''0'' # CHR ''0'' # hex_digit (of_char c div 16) # hex_digit (of_char c mod 16) # s)
     = map_option ((#) c) (unquote s)"
proof -
  have "hex_val (CHR ''0'') = Some 0" by (simp add: hex_val_def)
  moreover have "hex_val (hex_digit (of_char c div 16)) = Some (of_char c div 16)"
    "hex_val (hex_digit (of_char c mod 16)) = Some (of_char c mod 16)"
    using assms by (simp_all add: hex_digit_hex_val)
  moreover have "of_char c div 16 * 16 + of_char c mod 16 = (of_char c :: nat)" by simp
  ultimately have "hex4 (CHR ''0'' # CHR ''0'' # hex_digit (of_char c div 16) # hex_digit (of_char c mod 16) # s)
      = Some (of_char c)"
    by (simp add: hex_value_def)
  then show ?thesis using assms by (simp add: encode_rune_def Let_def map_option_single del: hex4.simps)
qed

lemma unquote_escape_char:
  assumes "(of_char c :: nat) < 0x80"
  shows "unquote (escape_char c @ s) = map_option ((#) c) (unquote s)"
proof -
  have char: "of_char c = n \<Longrightarrow> c = char_of n" for n :: nat by auto
  consider (quote) "(of_char c :: nat) = 0x22 \<or> (of_char c :: nat) = 0x5C"
    | (short) "(of_char c :: nat) \<in> {8, 12, 10, 13, 9}"
    | (hex) "(of_char c :: nat) \<notin> {0x22, 0x5C, 8, 12, 10, 13, 9}"
        "(of_char c :: nat) < 0x20 \<or> (of_char c :: nat) \<in> {0x3C, 0x3E, 0x26}"
    | (plain) "(of_char c :: nat) \<notin> {0x22, 0x5C, 8, 12, 10, 13, 9}"
        "\<not> ((of_char c :: nat) < 0x20 \<or> (of_char c :: nat) \<in> {0x3C, 0x3E, 0x26})"
    by blast
  then show ?thesis
  proof cases
    case quote
    then show ?thesis by (auto dest!: char simp: escape_char_def unescape_char_def char_eval)
  next
    case short
    then show ?thesis by (auto dest!: char simp: escape_char_def unescape_char_def char_eval)
  next
    case hex
    then have "escape_char c =
        [CHR 0x5C, CHR ''u'', CHR ''0'', CHR ''0'', hex_digit (of_char c div 16), hex_digit (of_char c mod 16)]"
      by (simp add: escape_char_def Let_def)
    then show ?thesis using unquote_hex[OF assms] by (simp del: unquote.simps)
  next
    case plain
    then have "escape_char c = [c]" "c \<noteq> CHR 0x5C" by (auto simp: escape_char_def Let_def)
    moreover have "rune_len (c # s) = 1" using assms by (simp add: rune_len_ascii)
    ultimately show ?thesis by (simp add: Let_def map_option_single)
  qed
qed

lemma unquote_escape: "unquote (json_escape s) = Some (valid_utf8 s)"
proof (induction s rule: json_escape.induct)
  case (2 c s)
  let ?n = "rune_len (c # s)"
  have esc: "json_escape (c # s) = (let n = ?n in
      if n = 0 then CHR 0x5C # ''ufffd'' @ json_escape s
      else if n = 1 then escape_char c @ json_escape s
      else if take n (c # s) \<in> set line_separators
        then CHR 0x5C # ''u202'' @ [hex_digit (of_char ((c # s) ! 2) mod 16)] @ json_escape (drop n (c # s))
      else take n (c # s) @ json_escape (drop n (c # s)))"
    by (simp add: json_escape.simps)
  have val: "valid_utf8 (c # s) =
      (if ?n = 0 then replacement_char @ valid_utf8 s
       else take ?n (c # s) @ valid_utf8 (drop ?n (c # s)))"
    by (simp add: valid_utf8.simps Let_def)
  consider "?n = 0" | "?n = 1" | (sep) "1 < ?n" "take ?n (c # s) \<in> set line_separators"
    | (high) "1 < ?n" "take ?n (c # s) \<notin> set line_separators" by linarith
  then show ?case
  proof cases
    case 1
    have "unquote (CHR 0x5C # ''ufffd'' @ json_escape s) = map_option ((@) replacement_char) (unquote (json_escape s))"
      by (simp add: hex_val_def hex_value_def encode_rune_def Let_def replacement_char_def char_eval)
    with 1 "2.IH"(1)[OF refl] show ?thesis by (simp add: esc val del: unquote.simps)
  next
    case 2
    with "2.IH"(2)[OF refl] show ?thesis
      by (simp add: esc val unquote_escape_char rune_len_ascii[THEN iffD1] del: unquote.simps)
  next
    case sep
    then have "?n = 3" "take ?n (c # s) = [CHR 0xE2, CHR 0x80, CHR 0xA8] \<or> take ?n (c # s) = [CHR 0xE2, CHR 0x80, CHR 0xA9]"
      using rune_len_le[of "c # s"] by (auto simp: line_separators_def dest: arg_cong[where f = length])
    then have "take 3 (c # s) = [CHR 0xE2, CHR 0x80, CHR 0xA8] \<or> take 3 (c # s) = [CHR 0xE2, CHR 0x80, CHR 0xA9]"
      by simp
    moreover have third: "(c # s) ! 2 = take 3 (c # s) ! 2" by simp
    moreover have "unquote (CHR 0x5C # ''u202'' @ [hex_digit (of_char (u ! 2) mod 16)] @ t) = map_option ((@) u) (unquote t)"
      if "u = [CHR 0xE2, CHR 0x80, CHR 0xA8] \<or> u = [CHR 0xE2, CHR 0x80, CHR 0xA9]" for t u
      using that by (auto simp: hex_val_def hex_value_def hex_digit_def encode_rune_def Let_def char_eval)
    ultimately have "unquote (CHR 0x5C # ''u202'' @ [hex_digit (of_char ((c # s) ! 2) mod 16)] @ t) =
        map_option ((@) (take 3 (c # s))) (unquote t)" for t
      unfolding third by blast
    with sep "2.IH"(3)[OF refl] \<open>?n = 3\<close> show ?thesis
      by (simp add: esc val del: unquote.simps take_Cons_numeral nth_Cons_numeral append.simps)
  next
    case high
    have "c \<noteq> CHR 0x5C"
      using rune_len_high[OF high(1)] high(1) by (cases ?n) auto
    with high "2.IH"(4)[OF refl] show ?thesis
      by (simp add: esc val unquote_rune Let_def del: unquote.simps)
  qed
qed simp

section \<open>Values and their text\<close>

datatype json = JNull | JBool bool | JNum string | JStr string | JArr "json list" | JObj "(string \<times> json) list"

definition json_string :: "string \<Rightarrow> string" where
  "json_string s = CHR 0x22 # json_escape s @ [CHR 0x22]"

text \<open>\<open>nl d\<close> is what separates lines at depth \<open>d\<close>, \<open>col\<close> what separates a key from its value: both are
  white space at most, nothing and a colon alone for \<open>Marshal\<close>, a line break with two blanks per level
  and a colon with a blank for \<open>MarshalIndent(v, "", "  ")\<close>.\<close>

fun json_print :: "(nat \<Rightarrow> string) \<Rightarrow> string \<Rightarrow> nat \<Rightarrow> json \<Rightarrow> string" where
  "json_print nl col d JNull = ''null''"
| "json_print nl col d (JBool b) = (if b then ''true'' else ''false'')"
| "json_print nl col d (JNum lit) = lit"
| "json_print nl col d (JStr s) = json_string s"
| "json_print nl col d (JArr []) = ''[]''"
| "json_print nl col d (JArr (v # vs)) =
     ''['' @ nl (Suc d) @ json_print nl col (Suc d) v
     @ concat (map (\<lambda>v. '','' @ nl (Suc d) @ json_print nl col (Suc d) v) vs) @ nl d @ '']''"
| "json_print nl col d (JObj []) = ''{}''"
| "json_print nl col d (JObj ((k, v) # kvs)) =
     ''{'' @ nl (Suc d) @ json_string k @ '':'' @ col @ json_print nl col (Suc d) v
     @ concat (map (\<lambda>(k, v). '','' @ nl (Suc d) @ json_string k @ '':'' @ col @ json_print nl col (Suc d) v) kvs)
     @ nl d @ ''}''"

definition json_marshal :: "json \<Rightarrow> string" where
  "json_marshal j = json_print (\<lambda>_. []) [] 0 j"

definition json_marshal_indent :: "json \<Rightarrow> string" where
  "json_marshal_indent j = json_print (\<lambda>d. CHR 0x0A # concat (replicate d ''  '')) '' '' 0 j"

section \<open>Reading\<close>

datatype json_token = Punct char | Scalar json

definition is_ws :: "char \<Rightarrow> bool" where
  "is_ws c = (c \<in> {CHR 0x20, CHR 0x09, CHR 0x0A, CHR 0x0D})"

definition valid_exponent :: "string \<Rightarrow> bool" where
  "valid_exponent s =
     (case s of [] \<Rightarrow> True
      | e # t \<Rightarrow> (e = CHR ''e'' \<or> e = CHR ''E'') \<and>
          (let u = (if t \<noteq> [] \<and> (hd t = CHR ''+'' \<or> hd t = CHR ''-'') then tl t else t)
           in u \<noteq> [] \<and> list_all is_digit u))"

definition valid_number :: "string \<Rightarrow> bool" where
  "valid_number lit =
     (let s = (if lit \<noteq> [] \<and> hd lit = CHR ''-'' then tl lit else lit);
          whole = takeWhile is_digit s;
          rest = dropWhile is_digit s
      in whole \<noteq> [] \<and> (hd whole = CHR ''0'' \<longrightarrow> length whole = 1) \<and>
         (if rest \<noteq> [] \<and> hd rest = CHR ''.''
          then takeWhile is_digit (tl rest) \<noteq> [] \<and> valid_exponent (dropWhile is_digit (tl rest))
          else valid_exponent rest))"

definition number_char :: "char \<Rightarrow> bool" where
  "number_char c = (is_digit c \<or> c \<in> set ''+-.eE'')"

definition word_char :: "char \<Rightarrow> bool" where
  "word_char c = (let n = of_char c :: nat in 97 \<le> n \<and> n \<le> 122)"

definition next_token :: "string \<Rightarrow> (json_token \<times> string) option" where
  "next_token s =
     (case dropWhile is_ws s of
        [] \<Rightarrow> None
      | c # r \<Rightarrow>
          if c \<in> set ''{}[]:,'' then Some (Punct c, r)
          else if c = CHR 0x22 then
            (case scan_string r of None \<Rightarrow> None
             | Some (body, r') \<Rightarrow> map_option (\<lambda>t. (Scalar (JStr t), r')) (unquote body))
          else if is_digit c \<or> c = CHR ''-'' then
            (let lit = takeWhile number_char (c # r)
             in if valid_number lit then Some (Scalar (JNum lit), dropWhile number_char (c # r)) else None)
          else
            (let w = takeWhile word_char (c # r); r' = dropWhile word_char (c # r)
             in if w = ''null'' then Some (Scalar JNull, r')
                else if w = ''true'' then Some (Scalar (JBool True), r')
                else if w = ''false'' then Some (Scalar (JBool False), r')
                else None))"

text \<open>The reader's state: what it expects next, inside which open arrays and objects.\<close>

datatype json_frame = InArray "json list" | InObject "(string \<times> json) list" string

datatype json_mode = Value | FirstElement | Key "(string \<times> json) list" bool
  | KeyColon "(string \<times> json) list" string | After json

fun value_step :: "json_frame list \<Rightarrow> json_token \<Rightarrow> (json_mode \<times> json_frame list) option" where
  "value_step st (Scalar v) = Some (After v, st)"
| "value_step st (Punct c) =
     (if c = CHR ''['' then Some (FirstElement, st)
      else if c = CHR ''{'' then Some (Key [] True, st) else None)"

fun json_step :: "json_mode \<Rightarrow> json_frame list \<Rightarrow> json_token \<Rightarrow> (json_mode \<times> json_frame list) option" where
  "json_step Value st t = value_step st t"
| "json_step FirstElement st t =
     (if t = Punct (CHR '']'') then Some (After (JArr []), st) else value_step (InArray [] # st) t)"
| "json_step (Key kvs first) st t =
     (case t of Scalar (JStr k) \<Rightarrow> Some (KeyColon kvs k, st)
      | _ \<Rightarrow> if first \<and> t = Punct (CHR ''}'') then Some (After (JObj []), st) else None)"
| "json_step (KeyColon kvs k) st t = (if t = Punct (CHR '':'') then Some (Value, InObject kvs k # st) else None)"
| "json_step (After v) [] t = None"
| "json_step (After v) (InArray vs # st) t =
     (if t = Punct (CHR '','') then Some (Value, InArray (vs @ [v]) # st)
      else if t = Punct (CHR '']'') then Some (After (JArr (vs @ [v])), st) else None)"
| "json_step (After v) (InObject kvs k # st) t =
     (if t = Punct (CHR '','') then Some (Key (kvs @ [(k, v)]) False, st)
      else if t = Punct (CHR ''}'') then Some (After (JObj (kvs @ [(k, v)])), st) else None)"

lemma scan_string_shorter: "scan_string s = Some (b, r) \<Longrightarrow> length r < length s"
proof (induction s arbitrary: b r rule: scan_string.induct)
  case (2 c s)
  show ?case
  proof (cases "c = CHR 0x22 \<or> (of_char c :: nat) < 0x20")
    case True
    with 2(3) show ?thesis by (auto split: if_splits)
  next
    case False
    with 2 show ?thesis by (auto split: if_splits list.splits) fastforce+
  qed
qed simp

lemma dropWhile_shorter: "s \<noteq> [] \<Longrightarrow> p (hd s) \<Longrightarrow> length (dropWhile p s) < length s"
  by (cases s) (auto simp: le_imp_less_Suc length_dropWhile_le)

lemma next_token_shorter:
  assumes "next_token s = Some (t, r)"
  shows "length r < length s"
proof -
  obtain c u where s: "dropWhile is_ws s = c # u"
    using assms by (cases "dropWhile is_ws s") (auto simp: next_token_def)
  have le: "length (c # u) \<le> length s"
    using length_dropWhile_le[of is_ws s] s by simp
  have "length r < length (c # u)"
    using assms s scan_string_shorter[of u]
      dropWhile_shorter[of "c # u" number_char] dropWhile_shorter[of "c # u" word_char]
    by (auto simp: next_token_def Let_def number_char_def split: if_splits option.splits)
  with le show ?thesis by simp
qed

function json_run :: "json_mode \<Rightarrow> json_frame list \<Rightarrow> string \<Rightarrow> (json \<times> string) option" where
  "json_run m st s =
     (case (m, st) of (After v, []) \<Rightarrow> Some (v, s)
      | _ \<Rightarrow> (case next_token s of None \<Rightarrow> None
             | Some (t, r) \<Rightarrow> (case json_step m st t of None \<Rightarrow> None
                              | Some (m', st') \<Rightarrow> json_run m' st' r)))"
  by pat_completeness auto
termination
  by (relation "measure (\<lambda>(m, st, s). length s)") (auto dest: next_token_shorter)

declare json_run.simps [simp del]

text \<open>The first value of a stream (\<open>Decoder.Decode\<close>), and a text that is one value (\<open>Unmarshal\<close>).\<close>

definition json_first :: "string \<Rightarrow> json option" where
  "json_first s = map_option fst (json_run Value [] s)"

definition json_parse :: "string \<Rightarrow> json option" where
  "json_parse s =
     (case json_run Value [] s of None \<Rightarrow> None
      | Some (v, r) \<Rightarrow> if list_all is_ws r then Some v else None)"

section \<open>Reading back what was printed\<close>

fun json_numbers_ok :: "json \<Rightarrow> bool" where
  "json_numbers_ok (JNum lit) = valid_number lit"
| "json_numbers_ok (JArr vs) = list_all json_numbers_ok vs"
| "json_numbers_ok (JObj kvs) = list_all (\<lambda>(k, v). json_numbers_ok v) kvs"
| "json_numbers_ok _ = True"

fun json_valid :: "json \<Rightarrow> json" where
  "json_valid (JStr s) = JStr (valid_utf8 s)"
| "json_valid (JArr vs) = JArr (map json_valid vs)"
| "json_valid (JObj kvs) = JObj (map (\<lambda>(k, v). (valid_utf8 k, json_valid v)) kvs)"
| "json_valid j = j"

definition delimited :: "string \<Rightarrow> bool" where
  "delimited s = (s = [] \<or> \<not> number_char (hd s) \<and> \<not> word_char (hd s))"

lemma next_token_ws: "list_all is_ws w \<Longrightarrow> next_token (w @ s) = next_token s"
proof -
  assume "list_all is_ws w"
  then have "dropWhile is_ws (w @ s) = dropWhile is_ws s" by (simp add: dropWhile_append2 list_all_iff)
  then show ?thesis by (simp add: next_token_def)
qed

lemma next_token_punct [simp]:
  "next_token (CHR ''['' # s) = Some (Punct (CHR ''[''), s)" "next_token (CHR '']'' # s) = Some (Punct (CHR '']''), s)"
  "next_token (CHR ''{'' # s) = Some (Punct (CHR ''{''), s)" "next_token (CHR ''}'' # s) = Some (Punct (CHR ''}''), s)"
  "next_token (CHR '','' # s) = Some (Punct (CHR '',''), s)" "next_token (CHR '':'' # s) = Some (Punct (CHR '':''), s)"
  by (simp_all add: next_token_def is_ws_def)

lemma next_token_string: "next_token (json_string k @ s) = Some (Scalar (JStr (valid_utf8 k)), s)"
  by (simp add: next_token_def json_string_def is_ws_def scan_string_escape unquote_escape)

lemma span_delimited:
  "delimited s \<Longrightarrow> list_all number_char u \<Longrightarrow> takeWhile number_char (u @ s) = u \<and> dropWhile number_char (u @ s) = s"
  "delimited s \<Longrightarrow> list_all word_char u \<Longrightarrow> takeWhile word_char (u @ s) = u \<and> dropWhile word_char (u @ s) = s"
  by (cases s; simp add: delimited_def list_all_iff takeWhile_append2 dropWhile_append2)+

lemma next_token_word:
  assumes "delimited s"
  shows "next_token (''null'' @ s) = Some (Scalar JNull, s)" "next_token (''true'' @ s) = Some (Scalar (JBool True), s)"
    "next_token (''false'' @ s) = Some (Scalar (JBool False), s)"
proof -
  have "list_all word_char ''null''" "list_all word_char ''true''" "list_all word_char ''false''"
    by (simp_all add: word_char_def)
  note span = this[THEN span_delimited(2)[OF assms]]
  show "next_token (''null'' @ s) = Some (Scalar JNull, s)" "next_token (''true'' @ s) = Some (Scalar (JBool True), s)"
    "next_token (''false'' @ s) = Some (Scalar (JBool False), s)"
    using span by (simp_all add: next_token_def is_ws_def is_digit_def)
qed

lemma takeWhile_dropWhile_all: "list_all p (dropWhile q s) \<Longrightarrow> (\<And>c. q c \<Longrightarrow> p c) \<Longrightarrow> list_all p s"
  by (induction s) (auto split: if_splits)

lemma number_chars [simp]:
  "is_digit c \<Longrightarrow> number_char c" "number_char (CHR ''+'')" "number_char (CHR ''-'')" "number_char (CHR ''.'')"
  "number_char (CHR ''e'')" "number_char (CHR ''E'')"
  by (simp_all add: number_char_def)

lemma digits_number_chars: "list_all is_digit s \<Longrightarrow> list_all number_char s"
  by (simp add: list_all_iff)

lemma valid_exponent_chars:
  assumes "valid_exponent s"
  shows "list_all number_char s"
proof (cases s)
  case (Cons e t)
  with assms have "number_char e" by (auto simp: valid_exponent_def)
  moreover have "list_all number_char t"
  proof (cases "t \<noteq> [] \<and> (hd t = CHR ''+'' \<or> hd t = CHR ''-'')")
    case True
    then have "list_all is_digit (tl t)" using assms Cons by (simp add: valid_exponent_def Let_def)
    from digits_number_chars[OF this] True show ?thesis by (cases t) auto
  next
    case False
    then have "list_all is_digit t" using assms Cons by (auto simp: valid_exponent_def Let_def)
    then show ?thesis by (rule digits_number_chars)
  qed
  ultimately show ?thesis by (simp add: Cons)
qed simp

lemma valid_number_head: "valid_number (c # s) \<Longrightarrow> is_digit c \<or> c = CHR ''-''"
  by (auto simp: valid_number_def Let_def split: if_splits)

lemma json_run_step:
  "next_token s = Some (t, r) \<Longrightarrow> json_step m st t = Some (m', st') \<Longrightarrow> json_run m st s = json_run m' st' r"
proof -
  assume tok: "next_token s = Some (t, r)" and step: "json_step m st t = Some (m', st')"
  from step have "m \<noteq> After v \<or> st \<noteq> []" for v by auto
  then have other: "(case (m, st) of (After v, []) \<Rightarrow> Some (v, s) | _ \<Rightarrow> x) = x" for x
    by (cases m; cases st) auto
  have "json_run m st s = (case next_token s of None \<Rightarrow> None
      | Some (t, r) \<Rightarrow> (case json_step m st t of None \<Rightarrow> None | Some (m', st') \<Rightarrow> json_run m' st' r))"
    by (rule trans[OF json_run.simps other])
  also have "\<dots> = json_run m' st' r" by (simp only: tok step option.case prod.case)
  finally show ?thesis .
qed

lemma valid_number_chars: "valid_number lit \<Longrightarrow> list_all number_char lit"
proof -
  assume valid: "valid_number lit"
  define s where "s = (if lit \<noteq> [] \<and> hd lit = CHR ''-'' then tl lit else lit)"
  have "list_all number_char (dropWhile is_digit s)"
  proof (cases "dropWhile is_digit s")
    case (Cons c r)
    show ?thesis
    proof (cases "c = CHR ''.''")
      case True
      with valid Cons have "valid_exponent (dropWhile is_digit r)"
        by (simp add: valid_number_def s_def[symmetric] Let_def del: dropWhile_eq_Nil_conv)
      from takeWhile_dropWhile_all[OF valid_exponent_chars[OF this]] True Cons show ?thesis
        by simp
    next
      case False
      with valid Cons have "valid_exponent (c # r)"
        by (simp add: valid_number_def s_def[symmetric] Let_def del: dropWhile_eq_Nil_conv)
      from valid_exponent_chars[OF this] Cons show ?thesis by simp
    qed
  qed (simp del: dropWhile_eq_Nil_conv)
  then have "list_all number_char s"
    by (rule takeWhile_dropWhile_all) simp
  then show ?thesis by (cases lit) (auto simp: s_def split: if_splits)
qed

lemma next_token_number:
  assumes "valid_number lit" "delimited s"
  shows "next_token (lit @ s) = Some (Scalar (JNum lit), s)"
proof -
  obtain c u where lit: "lit = c # u"
    using assms(1) by (cases lit) (auto simp: valid_number_def)
  then have c: "is_digit c \<or> c = CHR ''-''" using assms(1) valid_number_head by blast
  then have "\<not> is_ws c" "c \<notin> set ''{}[]:,''" "c \<noteq> CHR 0x22" by (auto simp: is_ws_def is_digit_def)
  moreover have "takeWhile number_char (c # u @ s) = lit" "dropWhile number_char (c # u @ s) = s"
    using span_delimited(1)[OF assms(2) valid_number_chars[OF assms(1)]] lit by simp_all
  ultimately show ?thesis using assms(1) c unfolding lit next_token_def
    by (simp add: Let_def del: takeWhile.simps dropWhile.simps(2)) (simp add: lit)
qed


text \<open>One step of the reader each: white space, a scalar, a punctuation mark.\<close>

lemma json_run_ws: "list_all is_ws w \<Longrightarrow> json_run m (f # st) (w @ s) = json_run m (f # st) s"
  by (cases m; subst (1 2) json_run.simps; simp add: next_token_ws)

lemma json_run_ws_expect:
  "list_all is_ws w \<Longrightarrow> json_run Value st (w @ s) = json_run Value st s"
  "list_all is_ws w \<Longrightarrow> json_run (Key kvs first) st (w @ s) = json_run (Key kvs first) st s"
  "list_all is_ws w \<Longrightarrow> json_run FirstElement st (w @ s) = json_run FirstElement st s"
  by (subst (1 2) json_run.simps; simp add: next_token_ws)+

lemma json_run_scalar:
  "next_token s = Some (Scalar v, r) \<Longrightarrow> json_run Value st s = json_run (After v) st r"
  by (rule json_run_step, assumption, simp)

lemma json_run_punct:
  "json_run Value st (CHR ''['' # s) = json_run FirstElement st s"
  "json_run Value st (CHR ''{'' # s) = json_run (Key [] True) st s"
  "json_run FirstElement st (CHR '']'' # s) = json_run (After (JArr [])) st s"
  "json_run (Key [] True) st (CHR ''}'' # s) = json_run (After (JObj [])) st s"
  "json_run (KeyColon kvs k) st (CHR '':'' # s) = json_run Value (InObject kvs k # st) s"
  "json_run (After v) (InArray vs # st) (CHR '','' # s) = json_run Value (InArray (vs @ [v]) # st) s"
  "json_run (After v) (InArray vs # st) (CHR '']'' # s) = json_run (After (JArr (vs @ [v]))) st s"
  "json_run (After v) (InObject kvs k # st) (CHR '','' # s) = json_run (Key (kvs @ [(k, v)]) False) st s"
  "json_run (After v) (InObject kvs k # st) (CHR ''}'' # s) = json_run (After (JObj (kvs @ [(k, v)]))) st s"
  by (rule json_run_step, rule next_token_punct, simp)+

lemma json_run_key: "json_run (Key kvs first) st (json_string k @ s) = json_run (KeyColon kvs (valid_utf8 k)) st s"
  by (rule json_run_step[OF next_token_string]) simp

lemma ws_not_delimiter: "is_ws c \<Longrightarrow> \<not> number_char c \<and> \<not> word_char c"
  by (auto simp: is_ws_def number_char_def is_digit_def word_char_def Let_def)

lemma delimited_tail:
  assumes "list_all is_ws n" "c = CHR '']'' \<or> c = CHR ''}''" "\<forall>x \<in> set xs. \<exists>t. p x = CHR '','' # t"
  shows "delimited (concat (map p xs) @ n @ c # rest)"
proof (cases xs)
  case Nil
  then show ?thesis using assms(1,2) ws_not_delimiter
    by (cases n) (auto simp: delimited_def number_char_def is_digit_def word_char_def)
next
  case (Cons x ys)
  with assms(3) obtain t where "p x = CHR '','' # t" by auto
  with Cons show ?thesis by (simp add: delimited_def number_char_def is_digit_def word_char_def)
qed

definition prints :: "(json \<Rightarrow> string) \<Rightarrow> json \<Rightarrow> bool" where
  "prints p v \<longleftrightarrow> (\<forall>st rest. delimited rest \<longrightarrow>
     json_run Value st (p v @ rest) = json_run (After (json_valid v)) st rest)"

lemma run_array_tail:
  assumes "list_all is_ws n1" "list_all is_ws n0" "\<forall>v \<in> set vs. prints p v"
  shows "json_run (After v0) (InArray us # st) (concat (map (\<lambda>v. '','' @ n1 @ p v) vs) @ n0 @ '']'' @ rest)
       = json_run (After (JArr (us @ v0 # map json_valid vs))) st rest"
  using assms(3)
proof (induction vs arbitrary: v0 us)
  case Nil
  then show ?case by (simp add: json_run_ws[OF assms(2)] json_run_punct)
next
  case (Cons v vs)
  let ?t = "concat (map (\<lambda>v. '','' @ n1 @ p v) vs) @ n0 @ '']'' @ rest"
  have "delimited ?t"
    using delimited_tail[OF assms(2), of "CHR '']''" vs "\<lambda>v. '','' @ n1 @ p v"] by simp
  then have "json_run Value (InArray (us @ [v0]) # st) (p v @ ?t) = json_run (After (json_valid v)) (InArray (us @ [v0]) # st) ?t"
    using Cons.prems by (simp add: prints_def)
  with Cons show ?case by (simp add: json_run_punct json_run_ws_expect(1)[OF assms(1)])
qed

lemma run_object_tail:
  assumes "list_all is_ws n1" "list_all is_ws n0" "list_all is_ws col" "\<forall>(k, v) \<in> set kvs. prints p v"
  shows "json_run (After v0) (InObject us k0 # st)
         (concat (map (\<lambda>(k, v). '','' @ n1 @ json_string k @ '':'' @ col @ p v) kvs) @ n0 @ ''}'' @ rest)
       = json_run (After (JObj (us @ (k0, v0) # map (\<lambda>(k, v). (valid_utf8 k, json_valid v)) kvs))) st rest"
  using assms(4)
proof (induction kvs arbitrary: v0 us k0)
  case Nil
  then show ?case by (simp add: json_run_ws[OF assms(2)] json_run_punct)
next
  case (Cons kv kvs)
  obtain k v where kv: "kv = (k, v)" by (cases kv)
  let ?t = "concat (map (\<lambda>(k, v). '','' @ n1 @ json_string k @ '':'' @ col @ p v) kvs) @ n0 @ ''}'' @ rest"
  have "delimited ?t"
    using delimited_tail[OF assms(2), of "CHR ''}''" kvs "\<lambda>(k, v). '','' @ n1 @ json_string k @ '':'' @ col @ p v"]
    by fastforce
  then have "json_run Value (InObject (us @ [(k0, v0)]) (valid_utf8 k) # st) (p v @ ?t) =
      json_run (After (json_valid v)) (InObject (us @ [(k0, v0)]) (valid_utf8 k) # st) ?t"
    using Cons.prems kv by (auto simp: prints_def)
  with Cons kv show ?case
    by (simp add: json_run_punct json_run_ws_expect[OF assms(1)] json_run_key json_run_ws_expect(1)[OF assms(3)])
qed

lemma json_run_first:
  assumes "\<And>r. next_token s \<noteq> Some (Punct (CHR '']''), r)"
  shows "json_run FirstElement st s = json_run Value (InArray [] # st) s"
  using assms by (subst (1 2) json_run.simps) (auto split: option.split)

lemma json_print_head:
  assumes "json_numbers_ok j" "delimited rest"
  shows "next_token (json_print nl col d j @ rest) \<noteq> Some (Punct (CHR '']''), r)"
proof (cases j)
  case (JBool b)
  then show ?thesis using next_token_word[OF assms(2)] by simp
next
  case (JArr vs)
  then show ?thesis by (cases vs) simp_all
next
  case (JObj kvs)
  then show ?thesis by (cases kvs) auto
qed (use assms next_token_word next_token_number next_token_string in simp_all)

lemma json_run_print:
  assumes ws: "\<And>d. list_all is_ws (nl d)" "list_all is_ws col"
  shows "json_numbers_ok j \<Longrightarrow> prints (json_print nl col d) j"
  using ws
proof (induction nl col d j rule: json_print.induct)
  case (6 nl col d v vs)
  have head: "prints (json_print nl col (Suc d)) v" using 6 by simp
  have tail: "\<forall>u \<in> set vs. prints (json_print nl col (Suc d)) u" using 6 by (simp add: list_all_iff)
  show ?case
    unfolding prints_def
  proof (intro allI impI)
    fix st rest
    let ?t = "concat (map (\<lambda>v. '','' @ nl (Suc d) @ json_print nl col (Suc d) v) vs) @ nl d @ '']'' @ rest"
    have del: "delimited ?t"
      using delimited_tail[OF 6(4), of "CHR '']''" vs "\<lambda>v. '','' @ nl (Suc d) @ json_print nl col (Suc d) v"] by simp
    have "json_run FirstElement st (json_print nl col (Suc d) v @ ?t) =
        json_run (After (json_valid v)) (InArray [] # st) ?t"
      using head del 6(3) json_run_first[OF json_print_head[OF _ del]] by (simp add: prints_def)
    then show "json_run Value st (json_print nl col d (JArr (v # vs)) @ rest) = json_run (After (json_valid (JArr (v # vs)))) st rest"
      using run_array_tail[OF 6(4) 6(4) tail, where us = "[]"]
      by (simp add: json_run_punct json_run_ws_expect(3)[OF 6(4)])
  qed
next
  case (8 nl col d k v kvs)
  have head: "prints (json_print nl col (Suc d)) v" using 8 by simp
  have tail: "\<forall>(k, u) \<in> set kvs. prints (json_print nl col (Suc d)) u" using 8 by (fastforce simp: list_all_iff)
  show ?case
    unfolding prints_def
  proof (intro allI impI)
    fix st rest
    let ?p = "\<lambda>(k, v). '','' @ nl (Suc d) @ json_string k @ '':'' @ col @ json_print nl col (Suc d) v"
    let ?t = "concat (map ?p kvs) @ nl d @ ''}'' @ rest"
    have "delimited ?t"
      using delimited_tail[OF 8(4), of "CHR ''}''" kvs ?p] by fastforce
    with head have "json_run Value (InObject [] (valid_utf8 k) # st) (json_print nl col (Suc d) v @ ?t) =
        json_run (After (json_valid v)) (InObject [] (valid_utf8 k) # st) ?t"
      by (simp add: prints_def)
    then show "json_run Value st (json_print nl col d (JObj ((k, v) # kvs)) @ rest)
        = json_run (After (json_valid (JObj ((k, v) # kvs)))) st rest"
      using run_object_tail[OF 8(4) 8(4) 8(5) tail, where us = "[]"]
      by (simp add: json_run_punct json_run_ws_expect[OF 8(4)] json_run_key json_run_ws_expect(1)[OF 8(5)])
  qed
qed (auto simp: prints_def next_token_word[simplified] next_token_number next_token_string json_run_punct
  intro!: json_run_scalar)

lemma json_run_marshalled:
  assumes "json_numbers_ok j" "delimited rest"
  shows "json_run Value [] (json_marshal j @ rest) = Some (json_valid j, rest)"
    "json_run Value [] (json_marshal_indent j @ rest) = Some (json_valid j, rest)"
proof -
  have "list_all is_ws (CHR 0x0A # concat (replicate d ''  ''))" for d
    by (induction d) (simp_all add: is_ws_def)
  then have "prints (json_print (\<lambda>_. []) [] 0) j"
    "prints (json_print (\<lambda>d. CHR 0x0A # concat (replicate d ''  '')) '' '' 0) j"
    using assms(1) by (auto intro!: json_run_print simp: is_ws_def)
  with assms(2) show "json_run Value [] (json_marshal j @ rest) = Some (json_valid j, rest)"
    "json_run Value [] (json_marshal_indent j @ rest) = Some (json_valid j, rest)"
    by (simp_all add: prints_def json_marshal_def json_marshal_indent_def json_run.simps[of "After (json_valid j)" "[]"])
qed

lemma delimited_ws: "list_all is_ws w \<Longrightarrow> delimited w"
  by (cases w) (auto simp: delimited_def dest: ws_not_delimiter)

text \<open>Unmarshal inverts Marshal and MarshalIndent, up to the repair of ill-formed UTF-8.\<close>

lemma json_parse_marshal:
  "json_numbers_ok j \<Longrightarrow> list_all is_ws w \<Longrightarrow> json_parse (json_marshal j @ w) = Some (json_valid j)"
  "json_numbers_ok j \<Longrightarrow> list_all is_ws w \<Longrightarrow> json_parse (json_marshal_indent j @ w) = Some (json_valid j)"
  by (simp_all add: json_parse_def json_run_marshalled delimited_ws)

lemma json_first_marshal:
  "json_numbers_ok j \<Longrightarrow> delimited rest \<Longrightarrow> json_first (json_marshal j @ rest) = Some (json_valid j)"
  by (simp add: json_first_def json_run_marshalled)

lemma nat_dec_leading_zero: "hd (nat_dec n) = CHR ''0'' \<Longrightarrow> n = 0"
proof (induction n rule: nat_dec.induct)
  case (1 n)
  show ?case
  proof (cases "n < 10")
    case True
    have "of_char (CHR ''0'') = (48 :: nat)" by simp
    with True 1(2) have "48 + n = 48" by (metis list.sel(1) nat_dec_small of_char_digit)
    then show ?thesis by simp
  next
    case False
    then have "nat_dec n = nat_dec (n div 10) @ [char_of (48 + n mod 10)]" by (intro nat_dec_step) simp
    with 1(2) have "hd (nat_dec (n div 10)) = CHR ''0''" by (simp add: hd_append)
    with 1(1) False have "n div 10 = 0" by blast
    with False show ?thesis by simp
  qed
qed

lemma valid_number_itoa [simp]: "valid_number (itoa i)"
proof -
  have span: "takeWhile is_digit (nat_dec n) = nat_dec n" "dropWhile is_digit (nat_dec n) = []" for n
    using nat_dec_chars by (simp_all add: takeWhile_eq_all_conv)
  have zero: "hd (nat_dec n) = CHR ''0'' \<longrightarrow> length (nat_dec n) = 1" for n
    using nat_dec_leading_zero[of n] by (auto simp: nat_dec_small)
  have "hd (nat_dec n) \<noteq> CHR ''-''" for n
    by (metis hd_in_set nat_dec_nonempty nat_dec_not_in(4))
  then have "valid_number (nat_dec n)" "valid_number (CHR ''-'' # nat_dec n)" for n
    using zero by (simp_all only: valid_number_def Let_def span list.sel valid_exponent_def if_False if_True simp_thms
        nat_dec_nonempty list.case list.distinct)
  then show ?thesis by (simp add: itoa_def)
qed

lemma valid_utf8_ascii: "list_all (\<lambda>c. (of_char c :: nat) < 0x80) s \<Longrightarrow> valid_utf8 s = s"
proof (induction s)
  case (Cons c s)
  then have "rune_len (c # s) = 1" by (simp add: rune_len_ascii)
  with Cons show ?case by (simp add: valid_utf8.simps)
qed simp

section \<open>Decoding into Go values\<close>

text \<open>
  A decoder stores a JSON value into a variable that already has a value: \<open>null\<close> leaves a string,
  number, bool or struct as it is and clears a pointer or slice; a value of another type is an error.
  An object goes into a struct key by key: a key names a field if they agree up to case (with the two
  non-ASCII letters that fold to k and s), other keys are skipped. The text of the errors is abridged.
\<close>

type_synonym 'a decoder = "json \<Rightarrow> 'a \<Rightarrow> go_error + 'a"

definition json_type_error :: go_error where
  "json_type_error = errorf ''json: cannot unmarshal value into Go struct field''"

definition json_syntax_error :: go_error where
  "json_syntax_error = errorf ''json: invalid JSON input''"

fun fold_name :: "string \<Rightarrow> string" where
  "fold_name [] = []"
| "fold_name (c # cs) =
     (if prefix [CHR 0xC5, CHR 0xBF] (c # cs) then CHR ''s'' # fold_name (drop 1 cs)
      else if prefix [CHR 0xE2, CHR 0x84, CHR 0xAA] (c # cs) then CHR ''k'' # fold_name (drop 2 cs)
      else lower_char c # fold_name cs)"

fun into_string :: "string decoder" where
  "into_string (JStr s) _ = Inr s" | "into_string JNull x = Inr x" | "into_string _ _ = Inl json_type_error"

fun into_bool :: "bool decoder" where
  "into_bool (JBool b) _ = Inr b" | "into_bool JNull x = Inr x" | "into_bool _ _ = Inl json_type_error"

fun into_int :: "int decoder" where
  "into_int (JNum lit) _ = (case atoi lit of Inl _ \<Rightarrow> Inl json_type_error | Inr i \<Rightarrow> Inr i)"
| "into_int JNull x = Inr x" | "into_int _ _ = Inl json_type_error"

definition into_pointer :: "'a \<Rightarrow> 'a decoder \<Rightarrow> 'a option decoder" where
  "into_pointer zero dec j old =
     (if j = JNull then Inr None
      else case dec j (case old of None \<Rightarrow> zero | Some x \<Rightarrow> x) of Inl e \<Rightarrow> Inl e | Inr x \<Rightarrow> Inr (Some x))"

fun into_elements :: "'a \<Rightarrow> 'a decoder \<Rightarrow> json list \<Rightarrow> 'a list \<Rightarrow> go_error + 'a list" where
  "into_elements zero dec [] old = Inr []"
| "into_elements zero dec (j # js) old =
     (case dec j (case old of [] \<Rightarrow> zero | x # _ \<Rightarrow> x) of
        Inl e \<Rightarrow> Inl e
      | Inr x \<Rightarrow> (case into_elements zero dec js (drop 1 old) of Inl e \<Rightarrow> Inl e | Inr xs \<Rightarrow> Inr (x # xs)))"

fun into_slice :: "'a \<Rightarrow> 'a decoder \<Rightarrow> 'a list decoder" where
  "into_slice zero dec (JArr js) old = into_elements zero dec js old"
| "into_slice zero dec JNull old = Inr []" | "into_slice zero dec _ _ = Inl json_type_error"

definition field :: "('r \<Rightarrow> 'a) \<Rightarrow> ('a \<Rightarrow> 'r \<Rightarrow> 'r) \<Rightarrow> 'a decoder \<Rightarrow> 'r decoder" where
  "field get put dec j r = (case dec j (get r) of Inl e \<Rightarrow> Inl e | Inr x \<Rightarrow> Inr (put x r))"

definition lookup_field :: "(string \<times> 'r decoder) list \<Rightarrow> string \<Rightarrow> (string \<times> 'r decoder) option" where
  "lookup_field fs key = find (\<lambda>(name, _). fold_name name = fold_name key) fs"

fun into_fields :: "(string \<times> 'r decoder) list \<Rightarrow> (string \<times> json) list \<Rightarrow> 'r \<Rightarrow> go_error + 'r" where
  "into_fields fs [] r = Inr r"
| "into_fields fs ((k, v) # kvs) r =
     (case lookup_field fs k of
        None \<Rightarrow> into_fields fs kvs r
      | Some (_, dec) \<Rightarrow> (case dec v r of Inl e \<Rightarrow> Inl e | Inr r' \<Rightarrow> into_fields fs kvs r'))"

fun into_struct :: "(string \<times> 'r decoder) list \<Rightarrow> 'r decoder" where
  "into_struct fs (JObj kvs) r = into_fields fs kvs r"
| "into_struct fs JNull r = Inr r" | "into_struct fs _ _ = Inl json_type_error"

definition json_unmarshal :: "'a decoder \<Rightarrow> 'a \<Rightarrow> string \<Rightarrow> go_error + 'a" where
  "json_unmarshal dec zero text =
     (case json_parse text of None \<Rightarrow> Inl json_syntax_error | Some j \<Rightarrow> dec j zero)"

definition json_decode :: "'a decoder \<Rightarrow> 'a \<Rightarrow> string \<Rightarrow> go_error + 'a" where
  "json_decode dec zero text =
     (case json_first text of None \<Rightarrow> Inl json_syntax_error | Some j \<Rightarrow> dec j zero)"

section \<open>Codecs\<close>

text \<open>
  What a type's encoder (its struct tags read by Marshal) and decoder (the same tags read by Unmarshal)
  owe each other, and what the files written with them may then rely on. \<open>repair\<close> is the effect of a
  trip on a value, \<open>fits\<close> the values whose numbers a 64-bit integer holds.
\<close>

locale json_codec =
  fixes enc :: "'a \<Rightarrow> json" and dec :: "'a decoder" and zero :: 'a and repair :: "'a \<Rightarrow> 'a" and fits :: "'a \<Rightarrow> bool"
  assumes numbers_ok: "json_numbers_ok (enc x)"
    and decodes: "fits x \<Longrightarrow> dec (json_valid (enc x)) zero = Inr (repair x)"
begin

lemma unmarshal_marshal:
  "fits x \<Longrightarrow> list_all is_ws w \<Longrightarrow> json_unmarshal dec zero (json_marshal (enc x) @ w) = Inr (repair x)"
  by (simp add: json_unmarshal_def json_parse_marshal numbers_ok decodes)

lemma unmarshal_marshal_indent:
  "fits x \<Longrightarrow> list_all is_ws w \<Longrightarrow> json_unmarshal dec zero (json_marshal_indent (enc x) @ w) = Inr (repair x)"
  by (simp add: json_unmarshal_def json_parse_marshal numbers_ok decodes)

lemma decode_marshal:
  "fits x \<Longrightarrow> delimited rest \<Longrightarrow> json_decode dec zero (json_marshal (enc x) @ rest) = Inr (repair x)"
  by (simp add: json_decode_def json_first_marshal numbers_ok decodes)

end

end
