(* ===== verification/GoOs.thy ===== *)
theory GoOs
  imports GoStrings
begin

text \<open>
  The parts of \<open>path/filepath\<close> and \<open>os\<close> the program uses. A disk maps paths to files; every call may
  fail, with an error and (for a write) a number of bytes that got through, both taken from a script
  that theorems quantify over. The disk also remembers every state its files went through, so that a
  statement can speak of what a crash between two calls would leave. Directories are not tracked;
  other processes do not write below the directories used here.

  The record is extensible: a larger world is a disk with more fields.
\<close>

section \<open>Paths\<close>

fun split_slash :: "string \<Rightarrow> string \<Rightarrow> string list" where
  "split_slash acc [] = [rev acc]"
| "split_slash acc (c # s) = (if c = CHR ''/'' then rev acc # split_slash [] s else split_slash (c # acc) s)"

fun clean_components :: "bool \<Rightarrow> string list \<Rightarrow> string list \<Rightarrow> string list" where
  "clean_components rooted out [] = rev out"
| "clean_components rooted out (x # xs) =
     (if x = '''' \<or> x = ''.'' then clean_components rooted out xs
      else if x = ''..'' then
        (if out \<noteq> [] \<and> hd out \<noteq> ''..'' then clean_components rooted (tl out) xs
         else if rooted then clean_components rooted out xs
         else clean_components rooted (x # out) xs)
      else clean_components rooted (x # out) xs)"

definition path_clean :: "string \<Rightarrow> string" where
  "path_clean p =
     (let rooted = (p \<noteq> [] \<and> hd p = CHR ''/'');
          r = (if rooted then ''/'' else '''') @ str_join ''/'' (clean_components rooted [] (split_slash [] p))
      in if r = '''' then ''.'' else r)"

definition path_join :: "string \<Rightarrow> string \<Rightarrow> string" where
  "path_join a b =
     (let parts = filter (\<lambda>x. x \<noteq> '''') [a, b] in if parts = [] then '''' else path_clean (str_join ''/'' parts))"

definition path_dir :: "string \<Rightarrow> string" where
  "path_dir p = path_clean (rev (dropWhile (\<lambda>c. c \<noteq> CHR ''/'') (rev p)))"

definition path_base :: "string \<Rightarrow> string" where
  "path_base p =
     (if p = '''' then ''.''
      else let q = trim_right_chars ''/'' p;
               b = rev (takeWhile (\<lambda>c. c \<noteq> CHR ''/'') (rev q))
           in if b = '''' then ''/'' else b)"

section \<open>The disk\<close>

record disk_file =
  content :: string
  file_mode :: nat

datatype fault = NoFault | Fault go_error nat

record disk =
  files :: "string \<Rightarrow> disk_file option"
  history :: "(string \<Rightarrow> disk_file option) list"
  faults :: "fault list"
  temp_names :: "string list"
  temp_dir :: string

definition pop_fault :: "'a disk_scheme \<Rightarrow> fault \<times> 'a disk_scheme" where
  "pop_fault d = (case faults d of [] \<Rightarrow> (NoFault, d) | f # fs \<Rightarrow> (f, d\<lparr>faults := fs\<rparr>))"

definition set_file :: "string \<Rightarrow> disk_file option \<Rightarrow> 'a disk_scheme \<Rightarrow> 'a disk_scheme" where
  "set_file p f d = d\<lparr>files := (files d)(p := f), history := history d @ [(files d)(p := f)]\<rparr>"

text \<open>A call that either fails or does something to the disk.\<close>

definition os_call :: "('a disk_scheme, 'b) eff \<Rightarrow> ('a disk_scheme, 'b) eff" where
  "os_call m d = (case pop_fault d of (Fault e n, d') \<Rightarrow> (Inl e, d') | (NoFault, d') \<Rightarrow> m d')"

definition not_exist :: "string \<Rightarrow> string \<Rightarrow> go_error" where
  "not_exist op p = Leaf NotExist (op @ '' '' @ p @ '': no such file or directory'')"

definition os_read_file :: "string \<Rightarrow> ('a disk_scheme, string) eff" where
  "os_read_file p = os_call (\<lambda>d. case files d p of None \<Rightarrow> (Inl (not_exist ''open'' p), d) | Some f \<Rightarrow> (Inr (content f), d))"

definition os_mkdir_all :: "string \<Rightarrow> nat \<Rightarrow> ('a disk_scheme, unit) eff" where
  "os_mkdir_all dir perm = os_call (if dir = '''' then fail (not_exist ''mkdir'' dir) else ret ())"

text \<open>\<open>CreateTemp(dir, prefix*suffix)\<close>: the first of the random names that is not taken, with mode 0600.\<close>

definition temp_path :: "string \<Rightarrow> string \<Rightarrow> string \<Rightarrow> string \<Rightarrow> string" where
  "temp_path dir pre suf r =
     (if dir \<noteq> [] \<and> last dir = CHR ''/'' then dir else dir @ ''/'') @ pre @ r @ suf"

definition os_create_temp :: "string \<Rightarrow> string \<Rightarrow> string \<Rightarrow> ('a disk_scheme, string) eff" where
  "os_create_temp dir pre suf = os_call (\<lambda>d.
     let dir' = (if dir = '''' then temp_dir d else dir) in
     case find (\<lambda>r. files d (temp_path dir' pre suf r) = None) (temp_names d) of
       None \<Rightarrow> (Inl (errorf ''createtemp: file exists''), d)
     | Some r \<Rightarrow> (Inr (temp_path dir' pre suf r),
                  set_file (temp_path dir' pre suf r) (Some \<lparr>content = '''', file_mode = 0x180\<rparr>) d))"

definition os_chmod :: "string \<Rightarrow> nat \<Rightarrow> ('a disk_scheme, unit) eff" where
  "os_chmod p perm = os_call (\<lambda>d. case files d p of
       None \<Rightarrow> (Inl (not_exist ''chmod'' p), d)
     | Some f \<Rightarrow> (Inr (), set_file p (Some (f\<lparr>file_mode := perm\<rparr>)) d))"

definition append_file :: "string \<Rightarrow> string \<Rightarrow> 'a disk_scheme \<Rightarrow> 'a disk_scheme" where
  "append_file p data d =
     (case files d p of None \<Rightarrow> d | Some f \<Rightarrow> set_file p (Some (f\<lparr>content := content f @ data\<rparr>)) d)"

definition os_write :: "string \<Rightarrow> string \<Rightarrow> ('a disk_scheme, unit) eff" where
  "os_write p data d =
     (case pop_fault d of
        (Fault e n, d') \<Rightarrow> (Inl e, append_file p (take n data) d')
      | (NoFault, d') \<Rightarrow> (Inr (), append_file p data d'))"

definition os_sync :: "string \<Rightarrow> ('a disk_scheme, unit) eff" where
  "os_sync p = os_call (ret ())"

definition os_close :: "string \<Rightarrow> ('a disk_scheme, unit) eff" where
  "os_close p = os_call (ret ())"

definition os_rename :: "string \<Rightarrow> string \<Rightarrow> ('a disk_scheme, unit) eff" where
  "os_rename a b = os_call (\<lambda>d. case files d a of
       None \<Rightarrow> (Inl (not_exist ''rename'' a), d)
     | Some f \<Rightarrow> (Inr (), d\<lparr>files := (files d)(a := None, b := Some f),
                          history := history d @ [(files d)(a := None, b := Some f)]\<rparr>))"

definition os_remove :: "string \<Rightarrow> ('a disk_scheme, unit) eff" where
  "os_remove p = os_call (\<lambda>d. case files d p of
       None \<Rightarrow> (Inl (not_exist ''remove'' p), d)
     | Some _ \<Rightarrow> (Inr (), set_file p None d))"

text \<open>\<open>WriteFile\<close>: open with truncation (an existing file keeps its mode), write, close.\<close>

definition os_write_file :: "string \<Rightarrow> string \<Rightarrow> nat \<Rightarrow> ('a disk_scheme, unit) eff" where
  "os_write_file p data perm =
     andThen (os_call (\<lambda>d. (Inr (), set_file p (Some \<lparr>content = '''',
        file_mode = (case files d p of None \<Rightarrow> perm | Some f \<Rightarrow> file_mode f)\<rparr>) d))) (\<lambda>_.
     attempt (os_write p data) (\<lambda>r.
     attempt (os_close p) (\<lambda>c. case r of Inl e \<Rightarrow> fail e
       | Inr _ \<Rightarrow> (case c of Inl e \<Rightarrow> fail e | Inr _ \<Rightarrow> ret ()))))"

section \<open>What a call leaves alone\<close>

text \<open>\<open>only_touches p d d'\<close>: from \<open>d\<close> to \<open>d'\<close> no file but \<open>p\<close> was ever different.\<close>

definition only_touches :: "string \<Rightarrow> 'a disk_scheme \<Rightarrow> 'a disk_scheme \<Rightarrow> bool" where
  "only_touches p d d' \<longleftrightarrow>
     (\<exists>hs. history d' = history d @ hs \<and> (\<forall>F \<in> set hs. \<forall>q. q \<noteq> p \<longrightarrow> F q = files d q)) \<and>
     (\<forall>q. q \<noteq> p \<longrightarrow> files d' q = files d q)"

lemma only_touches_refl [simp]: "only_touches p d d"
  by (simp add: only_touches_def)

lemma only_touches_trans: "only_touches p d d' \<Longrightarrow> only_touches p d' d'' \<Longrightarrow> only_touches p d d''"
  by (fastforce simp: only_touches_def)

lemma pop_fault_files: "pop_fault d = (f, d') \<Longrightarrow> files d' = files d \<and> history d' = history d"
  by (auto simp: pop_fault_def split: list.splits)

lemma only_touches_pop: "pop_fault d = (f, d') \<Longrightarrow> only_touches p d d'"
  by (auto simp: only_touches_def dest: pop_fault_files)

lemma only_touches_set: "only_touches p d (set_file p f d)"
  by (simp add: only_touches_def set_file_def)

lemma only_touches_append: "only_touches p d (append_file p text d)"
  by (auto simp: append_file_def only_touches_set split: option.split)

lemma only_touches_call:
  assumes "\<And>d. only_touches p d (snd (m d))"
  shows "only_touches p d (snd (os_call m d))"
proof -
  obtain f d1 where pop: "pop_fault d = (f, d1)" by (cases "pop_fault d")
  then have "only_touches p d d1" by (rule only_touches_pop)
  with pop assms[of d1] only_touches_trans show ?thesis by (cases f) (auto simp: os_call_def)
qed

named_theorems touches \<open>calls that touch one file only\<close>

lemma touches_ret [touches]: "only_touches p d (snd (ret x d))" "only_touches p d (snd (fail e d))"
  by simp_all

lemma touches_calls [touches]:
  "only_touches p d (snd (os_read_file q d))"
  "only_touches p d (snd (os_mkdir_all q n d))"
  "only_touches p d (snd (os_chmod p n d))"
  "only_touches p d (snd (os_sync q d))"
  "only_touches p d (snd (os_close q d))"
  "only_touches p d (snd (os_remove p d))"
  unfolding os_read_file_def os_mkdir_all_def os_chmod_def os_sync_def os_close_def os_remove_def
  by (rule only_touches_call; simp add: only_touches_set split: option.split)+

lemma touches_write [touches]: "only_touches p d (snd (os_write p text d))"
proof -
  obtain f d1 where pop: "pop_fault d = (f, d1)" by (cases "pop_fault d")
  then have "only_touches p d d1" by (rule only_touches_pop)
  then show ?thesis using pop
    by (cases f) (auto simp: os_write_def intro: only_touches_trans[OF _ only_touches_append])
qed

lemma touches_andThen [touches]:
  fixes m :: "('a disk_scheme, 'b) eff"
  assumes "\<And>d. only_touches p d (snd (m d))" "\<And>x d. only_touches p d (snd (f x d))"
  shows "only_touches p d (snd (andThen m f d))"
proof -
  obtain r d1 where run: "m d = (r, d1)" by (cases "m d")
  then have "only_touches p d d1" using assms(1)[of d] by simp
  from only_touches_trans[OF this assms(2)] this run show ?thesis
    by (cases r) (auto simp: andThen_def)
qed

lemma touches_wrappers [touches]:
  "(\<And>d. only_touches p d (snd (m d))) \<Longrightarrow> only_touches p d (snd (wrapping s m d))"
  "(\<And>d. only_touches p d (snd (k d))) \<Longrightarrow> only_touches p d (snd (ignoring k d))"
  by (simp_all add: eff_simps ignoring_def)

lemma touches_on_error [touches]:
  fixes m :: "('a disk_scheme, 'b) eff"
  assumes "\<And>d. only_touches p d (snd (m d))" "\<And>d. only_touches p d (snd (k d))"
  shows "only_touches p d (snd (on_error m k d))"
proof -
  obtain r d1 where run: "m d = (r, d1)" by (cases "m d")
  then have "only_touches p d d1" using assms(1)[of d] by simp
  from only_touches_trans[OF this assms(2)] this run show ?thesis
    by (cases r) (auto simp: on_error_def)
qed

text \<open>\<open>stays p P d d'\<close>: from \<open>d\<close> to \<open>d'\<close> the file \<open>p\<close> satisfied \<open>P\<close> at every moment.\<close>

definition stays :: "string \<Rightarrow> (disk_file option \<Rightarrow> bool) \<Rightarrow> 'a disk_scheme \<Rightarrow> 'a disk_scheme \<Rightarrow> bool" where
  "stays p P d d' \<longleftrightarrow>
     (\<exists>hs. history d' = history d @ hs \<and> (\<forall>F \<in> set hs. P (F p))) \<and> P (files d' p)"

lemma stays_touches: "only_touches q d d' \<Longrightarrow> q \<noteq> p \<Longrightarrow> P (files d p) \<Longrightarrow> stays p P d d'"
  by (fastforce simp: only_touches_def stays_def)

lemma stays_trans: "stays p P d d' \<Longrightarrow> stays p P d' d'' \<Longrightarrow> stays p P d d''"
  by (fastforce simp: stays_def)

lemma stays_end: "stays p P d d' \<Longrightarrow> P (files d' p)"
  by (simp add: stays_def)

lemma stays_rename:
  assumes "files d q = Some f" "P (files d p)" "P (Some f)"
  shows "stays p P d (snd (os_rename q p d))"
proof -
  obtain t d1 where pop: "pop_fault d = (t, d1)" by (cases "pop_fault d")
  then have "files d1 = files d" "history d1 = history d" using pop_fault_files by blast+
  with assms pop show ?thesis by (cases t) (auto simp: os_rename_def os_call_def stays_def)
qed

lemma stays_chmod:
  assumes "P (files d p)" "\<And>f. files d p = Some f \<Longrightarrow> P (Some (f\<lparr>file_mode := m\<rparr>))"
  shows "stays p P d (snd (os_chmod p m d))"
proof -
  obtain t d1 where pop: "pop_fault d = (t, d1)" by (cases "pop_fault d")
  then have "files d1 = files d" "history d1 = history d" using pop_fault_files by blast+
  with assms pop show ?thesis
    by (cases t) (auto simp: os_chmod_def os_call_def stays_def set_file_def split: option.split)
qed

lemma create_temp_Inl: "os_create_temp dir pre suf d = (Inl e, d') \<Longrightarrow> only_touches q d d'"
  by (auto simp: os_create_temp_def os_call_def Let_def split: prod.splits fault.splits option.splits
      dest: only_touches_pop)

end
