(* ===== verification/Socks5_File.thy ===== *)
theory Socks5_File
  imports Socks5_Wire GoJson GoOs
begin

text \<open>
  The configuration file of the SOCKS5 process (\<open>internal/socks5/config.go\<close>): written by the runtime,
  read by the supervisor and by the process itself.
\<close>

record file_config =
  f_listen_addr :: string
  f_public_host :: string
  f_public_port :: int
  f_allow_udp :: bool
  f_upstream :: string
  f_auth :: "auth_config option"

definition empty_auth :: auth_config where
  "empty_auth = \<lparr>auth_username = '''', auth_password = ''''\<rparr>"

definition empty_file_config :: file_config where
  "empty_file_config = \<lparr>f_listen_addr = '''', f_public_host = '''', f_public_port = 0, f_allow_udp = False, f_upstream = '''',
     f_auth = None\<rparr>"

definition auth_json :: "auth_config \<Rightarrow> json" where
  "auth_json a = JObj [(''Username'', JStr (auth_username a)), (''Password'', JStr (auth_password a))]"

definition file_config_json :: "file_config \<Rightarrow> json" where
  "file_config_json c = JObj (concat [
     [(''listen_addr'', JStr (f_listen_addr c))],
     [(''public_host'', JStr (f_public_host c))],
     (if f_public_port c = 0 then [] else [(''public_port'', JNum (itoa (f_public_port c)))]),
     [(''allow_udp'', JBool (f_allow_udp c))],
     (if f_upstream c = '''' then [] else [(''upstream_socks5_addr'', JStr (f_upstream c))]),
     (case f_auth c of None \<Rightarrow> [] | Some a \<Rightarrow> [(''auth'', auth_json a)])])"

definition into_auth :: "auth_config decoder" where
  "into_auth = into_struct
     [(''Username'', field auth_username (\<lambda>x r. r\<lparr>auth_username := x\<rparr>) into_string),
      (''Password'', field auth_password (\<lambda>x r. r\<lparr>auth_password := x\<rparr>) into_string)]"

definition into_file_config :: "file_config decoder" where
  "into_file_config = into_struct
     [(''listen_addr'', field f_listen_addr (\<lambda>x r. r\<lparr>f_listen_addr := x\<rparr>) into_string),
      (''public_host'', field f_public_host (\<lambda>x r. r\<lparr>f_public_host := x\<rparr>) into_string),
      (''public_port'', field f_public_port (\<lambda>x r. r\<lparr>f_public_port := x\<rparr>) into_int),
      (''allow_udp'', field f_allow_udp (\<lambda>x r. r\<lparr>f_allow_udp := x\<rparr>) into_bool),
      (''upstream_socks5_addr'', field f_upstream (\<lambda>x r. r\<lparr>f_upstream := x\<rparr>) into_string),
      (''auth'', field f_auth (\<lambda>x r. r\<lparr>f_auth := x\<rparr>) (into_pointer empty_auth into_auth))]"

definition write_file_config :: "string \<Rightarrow> file_config \<Rightarrow> ('a disk_scheme, unit) eff" where
  "write_file_config path cfg =
     (if path = '''' then fail (errorf ''socks5 config path is required'')
      else if f_listen_addr cfg = '''' then fail (errorf ''socks5 listen address is required'')
      else
      let cfg = (if f_public_host cfg = '''' then cfg\<lparr>f_public_host := ''127.0.0.1''\<rparr> else cfg) in
      andThen (wrapping ''create config dir'' (os_mkdir_all (path_dir path) 0x1E8)) (\<lambda>_.
      wrapping ''write socks5 config''
        (os_write_file path (json_marshal_indent (file_config_json cfg) @ [CHR 0x0A]) 0x1A0)))"

definition server_config_of :: "file_config \<Rightarrow> server_config" where
  "server_config_of c = \<lparr>listen_addr = f_listen_addr c, public_host = f_public_host c, public_port = f_public_port c,
     allow_udp = f_allow_udp c, upstream_socks5_addr = f_upstream c, srv_auth = f_auth c, udp_timeout = 0\<rparr>"

definition load_file_config :: "string \<Rightarrow> ('a disk_scheme, server_config) eff" where
  "load_file_config path =
     andThen (wrapping ''read socks5 config'' (os_read_file path)) (\<lambda>text.
     case json_unmarshal into_file_config empty_file_config text of
       Inl e \<Rightarrow> fail (wrap ''decode socks5 config'' e)
     | Inr c \<Rightarrow> ret (server_config_of c))"

definition valid_auth :: "auth_config \<Rightarrow> auth_config" where
  "valid_auth a = \<lparr>auth_username = valid_utf8 (auth_username a), auth_password = valid_utf8 (auth_password a)\<rparr>"

definition valid_file_config :: "file_config \<Rightarrow> file_config" where
  "valid_file_config c = c\<lparr>f_listen_addr := valid_utf8 (f_listen_addr c), f_public_host := valid_utf8 (f_public_host c),
     f_upstream := valid_utf8 (f_upstream c), f_auth := map_option valid_auth (f_auth c)\<rparr>"

lemma into_auth_json: "into_auth (json_valid (auth_json a)) empty_auth = Inr (valid_auth a)"
proof -
  have "valid_utf8 ''Username'' = ''Username''" "valid_utf8 ''Password'' = ''Password''"
    by (rule valid_utf8_ascii; simp)+
  then show ?thesis
    by (simp add: into_auth_def auth_json_def lookup_field_def lower_char_def field_def empty_auth_def valid_auth_def)
qed

lemma into_file_config_json:
  assumes "- (2 ^ 63) \<le> f_public_port c" "f_public_port c < 2 ^ 63"
  shows "into_file_config (json_valid (file_config_json c)) empty_file_config = Inr (valid_file_config c)"
proof -
  have names: "list_all (\<lambda>c. (of_char c :: nat) < 0x80) name \<Longrightarrow> valid_utf8 name = name" for name
    by (rule valid_utf8_ascii)
  have obj: "json_valid (auth_json a) \<noteq> JNull" for a by (simp add: auth_json_def)
  show ?thesis
    using assms obj
    by (cases c; cases "f_auth c")
       (auto simp: into_file_config_def file_config_json_def names lookup_field_def lower_char_def field_def
          empty_file_config_def valid_file_config_def atoi_itoa into_pointer_def into_auth_json)
qed

interpretation file_codec: json_codec file_config_json into_file_config empty_file_config valid_file_config
    "\<lambda>c. - (2 ^ 63) \<le> f_public_port c \<and> f_public_port c < 2 ^ 63"
  by unfold_locales (simp add: file_config_json_def auth_json_def split: option.split, simp add: into_file_config_json)

lemma write_file_Inr:
  assumes "os_write_file path text perm d = (Inr (), d')"
  shows "\<exists>f. files d' path = Some f \<and> content f = text"
proof -
  obtain d1 where opened: "os_call (\<lambda>d. (Inr (), set_file path (Some \<lparr>content = '''',
        file_mode = (case files d path of None \<Rightarrow> perm | Some f \<Rightarrow> file_mode f)\<rparr>) d)) d = (Inr (), d1)"
    and rest: "attempt (os_write path text) (\<lambda>r. attempt (os_close path) (\<lambda>c. case r of Inl e \<Rightarrow> fail e
       | Inr _ \<Rightarrow> (case c of Inl e \<Rightarrow> fail e | Inr _ \<Rightarrow> ret ()))) d1 = (Inr (), d')"
    using assms by (auto simp: os_write_file_def andThen_Inr_iff)
  obtain f where f: "files d1 path = Some f" "content f = ''''"
    using opened by (auto simp: os_call_def set_file_def split: prod.splits fault.splits)
  obtain r2 d2 where w: "os_write path text d1 = (r2, d2)" by (cases "os_write path text d1")
  obtain r3 d3 where c: "os_close path d2 = (r3, d3)" by (cases "os_close path d2")
  have "r2 = Inr ()" "d' = d3" using rest w c by (auto split: sum.splits)
  moreover have "files d3 = files d2"
    using c by (auto simp: os_close_def os_call_def split: prod.splits fault.splits dest!: pop_fault_files)
  moreover have "\<exists>g. files d2 path = Some g \<and> content g = text" if "r2 = Inr ()"
    using w that f by (auto simp: os_write_def append_file_def set_file_def split: prod.splits fault.splits option.splits
        dest!: pop_fault_files)
  ultimately show ?thesis by simp
qed

text \<open>The file carries the configuration: what \<open>WriteFileConfig\<close> wrote, \<open>LoadFileConfig\<close> loads back, with an
  empty public host replaced by 127.0.0.1 and strings repaired to UTF-8; in particular the server
  requires authentication exactly if the file was written with credentials, and with these.\<close>

lemma write_load_file_config:
  assumes "write_file_config path cfg d = (Inr (), d')" "pop_fault d' = (NoFault, d'')"
    "- (2 ^ 63) \<le> f_public_port cfg" "f_public_port cfg < 2 ^ 63"
  shows "load_file_config path d' =
    (Inr (server_config_of (valid_file_config
       (if f_public_host cfg = '''' then cfg\<lparr>f_public_host := ''127.0.0.1''\<rparr> else cfg))), d'')"
proof -
  define c where "c = (if f_public_host cfg = '''' then cfg\<lparr>f_public_host := ''127.0.0.1''\<rparr> else cfg)"
  obtain d1 where "os_write_file path (json_marshal_indent (file_config_json c) @ [CHR 0x0A]) 0x1A0 d1 = (Inr (), d')"
    using assms(1) by (auto simp: write_file_config_def Let_def c_def[symmetric] andThen_Inr_iff wrapping_Inr_iff split: if_splits)
  then obtain f where f: "files d' path = Some f" "content f = json_marshal_indent (file_config_json c) @ [CHR 0x0A]"
    using write_file_Inr by blast
  have "os_read_file path d' = (Inr (content f), d'')"
    using assms(2) f(1) pop_fault_files[OF assms(2)] by (simp add: os_read_file_def os_call_def)
  moreover have "json_unmarshal into_file_config empty_file_config (content f) = Inr (valid_file_config c)"
    unfolding f(2) by (rule file_codec.unmarshal_marshal_indent) (use assms(3,4) in \<open>simp_all add: c_def is_ws_def\<close>)
  ultimately show ?thesis by (simp add: load_file_config_def c_def)
qed

definition sample_file_config :: file_config where
  "sample_file_config = \<lparr>f_listen_addr = '':1080'', f_public_host = '''', f_public_port = 1080, f_allow_udp = True, f_upstream = '''',
     f_auth = Some \<lparr>auth_username = ''u'', auth_password = ''p''\<rparr>\<rparr>"

definition empty_disk :: disk where
  "empty_disk = \<lparr>files = (\<lambda>_. None), history = [], faults = [], temp_names = [], temp_dir = ''''\<rparr>"

lemma write_load_example:
  "\<exists>d' c. write_file_config ''r/socks5.json'' sample_file_config empty_disk = (Inr (), d') \<and>
     load_file_config ''r/socks5.json'' d' = (Inr c, d') \<and> srv_auth c = map_option valid_auth (f_auth sample_file_config)"
proof -
  have "path_dir ''r/socks5.json'' = ''r''" by (simp add: path_dir_def path_clean_def)
  then obtain d' where run: "write_file_config ''r/socks5.json'' sample_file_config empty_disk = (Inr (), d')" "pop_fault d' = (NoFault, d')"
    by (simp add: write_file_config_def Let_def os_mkdir_all_def os_call_def pop_fault_def os_write_file_def os_write_def
        os_close_def andThen_def attempt_def wrapping_def empty_disk_def sample_file_config_def set_file_def append_file_def)
  show ?thesis
    using run write_load_file_config[OF run]
    by (simp add: sample_file_config_def server_config_of_def valid_file_config_def)
qed

end
