(* ===== verification/Device_State.thy ===== *)
theory Device_State
  imports GoJson GoOs
begin

text \<open>
  \<open>internal/state/state.go\<close>: the persisted device state, its JSON form, and the store that loads it
  and replaces it atomically through a temporary file.
\<close>

record device_state =
  schema_version :: int
  device_id :: string
  access_token :: string
  private_key :: string
  public_key :: string
  client_id :: string
  ipv4 :: string
  ipv6 :: string
  peer_public_key :: string
  peer_endpoint :: string
  peer_endpoint_v4 :: string
  peer_endpoint_v6 :: string
  license :: string
  warp_enabled :: bool
  tunnel_protocol :: string
  created_at :: string
  updated_at :: string

definition empty_state :: device_state where
  "empty_state = \<lparr>schema_version = 0, device_id = '''', access_token = '''', private_key = '''', public_key = '''',
     client_id = '''', ipv4 = '''', ipv6 = '''', peer_public_key = '''', peer_endpoint = '''', peer_endpoint_v4 = '''',
     peer_endpoint_v6 = '''', license = '''', warp_enabled = False, tunnel_protocol = '''', created_at = '''',
     updated_at = ''''\<rparr>"

text \<open>A field with the \<open>omitempty\<close> tag.\<close>

definition omit_empty :: "string \<Rightarrow> string \<Rightarrow> (string \<times> json) list" where
  "omit_empty key s = (if s = '''' then [] else [(key, JStr s)])"

definition state_json :: "device_state \<Rightarrow> json" where
  "state_json st = JObj (concat [
     [(''schema_version'', JNum (itoa (schema_version st)))],
     omit_empty ''device_id'' (device_id st),
     omit_empty ''access_token'' (access_token st),
     omit_empty ''private_key'' (private_key st),
     omit_empty ''public_key'' (public_key st),
     omit_empty ''client_id'' (client_id st),
     omit_empty ''v4'' (ipv4 st),
     omit_empty ''v6'' (ipv6 st),
     omit_empty ''peer_public_key'' (peer_public_key st),
     omit_empty ''peer_endpoint'' (peer_endpoint st),
     omit_empty ''peer_endpoint_v4'' (peer_endpoint_v4 st),
     omit_empty ''peer_endpoint_v6'' (peer_endpoint_v6 st),
     omit_empty ''license'' (license st),
     (if warp_enabled st then [(''warp_enabled'', JBool True)] else []),
     omit_empty ''tunnel_protocol'' (tunnel_protocol st),
     omit_empty ''created_at'' (created_at st),
     omit_empty ''updated_at'' (updated_at st)])"

definition state_fields :: "(string \<times> device_state decoder) list" where
  "state_fields = [
     (''schema_version'', field schema_version (\<lambda>x r. r\<lparr>schema_version := x\<rparr>) into_int),
     (''device_id'', field device_id (\<lambda>x r. r\<lparr>device_id := x\<rparr>) into_string),
     (''access_token'', field access_token (\<lambda>x r. r\<lparr>access_token := x\<rparr>) into_string),
     (''private_key'', field private_key (\<lambda>x r. r\<lparr>private_key := x\<rparr>) into_string),
     (''public_key'', field public_key (\<lambda>x r. r\<lparr>public_key := x\<rparr>) into_string),
     (''client_id'', field client_id (\<lambda>x r. r\<lparr>client_id := x\<rparr>) into_string),
     (''v4'', field ipv4 (\<lambda>x r. r\<lparr>ipv4 := x\<rparr>) into_string),
     (''v6'', field ipv6 (\<lambda>x r. r\<lparr>ipv6 := x\<rparr>) into_string),
     (''peer_public_key'', field peer_public_key (\<lambda>x r. r\<lparr>peer_public_key := x\<rparr>) into_string),
     (''peer_endpoint'', field peer_endpoint (\<lambda>x r. r\<lparr>peer_endpoint := x\<rparr>) into_string),
     (''peer_endpoint_v4'', field peer_endpoint_v4 (\<lambda>x r. r\<lparr>peer_endpoint_v4 := x\<rparr>) into_string),
     (''peer_endpoint_v6'', field peer_endpoint_v6 (\<lambda>x r. r\<lparr>peer_endpoint_v6 := x\<rparr>) into_string),
     (''license'', field license (\<lambda>x r. r\<lparr>license := x\<rparr>) into_string),
     (''warp_enabled'', field warp_enabled (\<lambda>x r. r\<lparr>warp_enabled := x\<rparr>) into_bool),
     (''tunnel_protocol'', field tunnel_protocol (\<lambda>x r. r\<lparr>tunnel_protocol := x\<rparr>) into_string),
     (''created_at'', field created_at (\<lambda>x r. r\<lparr>created_at := x\<rparr>) into_string),
     (''updated_at'', field updated_at (\<lambda>x r. r\<lparr>updated_at := x\<rparr>) into_string)]"

definition into_state :: "device_state decoder" where
  "into_state = into_struct state_fields"

definition state_path :: "string \<Rightarrow> string" where
  "state_path dir = path_join dir ''state.json''"

definition store_load :: "string \<Rightarrow> ('a disk_scheme, device_state) eff" where
  "store_load dir =
     attempt (os_read_file (state_path dir)) (\<lambda>r.
     case r of
       Inl e \<Rightarrow> if has_kind NotExist e then ret empty_state else fail (wrap ''read state file'' e)
     | Inr text \<Rightarrow>
         (case json_unmarshal into_state empty_state text of
            Inl e \<Rightarrow> fail (wrap ''decode state file'' e)
          | Inr st \<Rightarrow> ret st))"

definition state_text :: "device_state \<Rightarrow> string" where
  "state_text st = json_marshal (state_json st) @ [CHR 0x0A]"

text \<open>\<open>Save\<close> between the creation of the temporary file and its deferred removal; a file is closed
  (its error ignored) when a step before the closing one fails.\<close>

definition write_temp_state :: "string \<Rightarrow> string \<Rightarrow> ('a disk_scheme, unit) eff" where
  "write_temp_state tmp text =
     andThen (on_error (wrapping ''chmod temp state file'' (os_chmod tmp 0x180)) (os_close tmp)) (\<lambda>_.
     andThen (on_error (wrapping ''write temp state file'' (os_write tmp text)) (os_close tmp)) (\<lambda>_.
     andThen (on_error (wrapping ''sync temp state file'' (os_sync tmp)) (os_close tmp)) (\<lambda>_.
     wrapping ''close temp state file'' (os_close tmp))))"

definition replace_state :: "string \<Rightarrow> string \<Rightarrow> ('a disk_scheme, unit) eff" where
  "replace_state tmp path =
     andThen (wrapping ''replace state file'' (os_rename tmp path)) (\<lambda>_.
     wrapping ''chmod state file'' (os_chmod path 0x180))"

definition store_save :: "string \<Rightarrow> device_state \<Rightarrow> ('a disk_scheme, unit) eff" where
  "store_save dir st =
     andThen (wrapping ''create state dir'' (os_mkdir_all dir 0x1C0)) (\<lambda>_.
     andThen (wrapping ''create temp state file'' (os_create_temp dir ''state-'' ''.json'')) (\<lambda>tmp.
     on_error (andThen (write_temp_state tmp (state_text st)) (\<lambda>_. replace_state tmp (state_path dir)))
       (os_remove tmp)))"

section \<open>The JSON form\<close>

text \<open>A state as it looks after a trip through JSON: strings repaired to UTF-8.\<close>

definition valid_state :: "device_state \<Rightarrow> device_state" where
  "valid_state st = st\<lparr>device_id := valid_utf8 (device_id st), access_token := valid_utf8 (access_token st),
     private_key := valid_utf8 (private_key st), public_key := valid_utf8 (public_key st),
     client_id := valid_utf8 (client_id st), ipv4 := valid_utf8 (ipv4 st), ipv6 := valid_utf8 (ipv6 st),
     peer_public_key := valid_utf8 (peer_public_key st), peer_endpoint := valid_utf8 (peer_endpoint st),
     peer_endpoint_v4 := valid_utf8 (peer_endpoint_v4 st), peer_endpoint_v6 := valid_utf8 (peer_endpoint_v6 st),
     license := valid_utf8 (license st), tunnel_protocol := valid_utf8 (tunnel_protocol st),
     created_at := valid_utf8 (created_at st), updated_at := valid_utf8 (updated_at st)\<rparr>"

text \<open>A string field of a struct that still has its zero value, read from its \<open>omitempty\<close> encoding.\<close>

lemma into_fields_omit_empty:
  assumes "lookup_field fs key = Some (n, field get put into_string)"
    "valid_utf8 key = key" "put '''' r = r"
  shows "into_fields fs (map (\<lambda>(k, v). (valid_utf8 k, json_valid v)) (omit_empty key s) @ rest) r
       = into_fields fs rest (put (valid_utf8 s) r)"
  using assms by (simp add: omit_empty_def field_def)

lemma state_fields_find:
  "lookup_field state_fields ''schema_version''
     = Some (''schema_version'', field schema_version (\<lambda>x r. r\<lparr>schema_version := x\<rparr>) into_int)"
  "lookup_field state_fields ''device_id''
     = Some (''device_id'', field device_id (\<lambda>x r. r\<lparr>device_id := x\<rparr>) into_string)"
  "lookup_field state_fields ''access_token''
     = Some (''access_token'', field access_token (\<lambda>x r. r\<lparr>access_token := x\<rparr>) into_string)"
  "lookup_field state_fields ''private_key''
     = Some (''private_key'', field private_key (\<lambda>x r. r\<lparr>private_key := x\<rparr>) into_string)"
  "lookup_field state_fields ''public_key''
     = Some (''public_key'', field public_key (\<lambda>x r. r\<lparr>public_key := x\<rparr>) into_string)"
  "lookup_field state_fields ''client_id''
     = Some (''client_id'', field client_id (\<lambda>x r. r\<lparr>client_id := x\<rparr>) into_string)"
  "lookup_field state_fields ''v4''
     = Some (''v4'', field ipv4 (\<lambda>x r. r\<lparr>ipv4 := x\<rparr>) into_string)"
  "lookup_field state_fields ''v6''
     = Some (''v6'', field ipv6 (\<lambda>x r. r\<lparr>ipv6 := x\<rparr>) into_string)"
  "lookup_field state_fields ''peer_public_key''
     = Some (''peer_public_key'', field peer_public_key (\<lambda>x r. r\<lparr>peer_public_key := x\<rparr>) into_string)"
  "lookup_field state_fields ''peer_endpoint''
     = Some (''peer_endpoint'', field peer_endpoint (\<lambda>x r. r\<lparr>peer_endpoint := x\<rparr>) into_string)"
  "lookup_field state_fields ''peer_endpoint_v4''
     = Some (''peer_endpoint_v4'', field peer_endpoint_v4 (\<lambda>x r. r\<lparr>peer_endpoint_v4 := x\<rparr>) into_string)"
  "lookup_field state_fields ''peer_endpoint_v6''
     = Some (''peer_endpoint_v6'', field peer_endpoint_v6 (\<lambda>x r. r\<lparr>peer_endpoint_v6 := x\<rparr>) into_string)"
  "lookup_field state_fields ''license''
     = Some (''license'', field license (\<lambda>x r. r\<lparr>license := x\<rparr>) into_string)"
  "lookup_field state_fields ''warp_enabled''
     = Some (''warp_enabled'', field warp_enabled (\<lambda>x r. r\<lparr>warp_enabled := x\<rparr>) into_bool)"
  "lookup_field state_fields ''tunnel_protocol''
     = Some (''tunnel_protocol'', field tunnel_protocol (\<lambda>x r. r\<lparr>tunnel_protocol := x\<rparr>) into_string)"
  "lookup_field state_fields ''created_at''
     = Some (''created_at'', field created_at (\<lambda>x r. r\<lparr>created_at := x\<rparr>) into_string)"
  "lookup_field state_fields ''updated_at''
     = Some (''updated_at'', field updated_at (\<lambda>x r. r\<lparr>updated_at := x\<rparr>) into_string)"
  by (simp_all add: state_fields_def lookup_field_def lower_char_def)

lemmas state_field_reads = state_fields_find(2,3,4,5,6,7,8,9,10,11,12,13,15,16,17)[THEN into_fields_omit_empty]

lemma into_state_json:
  assumes "- (2 ^ 63) \<le> schema_version st" "schema_version st < 2 ^ 63"
  shows "into_state (json_valid (state_json st)) empty_state = Inr (valid_state st)"
proof -
  have names: "list_all (\<lambda>c. (of_char c :: nat) < 0x80) name \<Longrightarrow> valid_utf8 name = name" for name
    by (rule valid_utf8_ascii)
  have flag: "into_fields state_fields
        (map (\<lambda>(k, v). (valid_utf8 k, json_valid v)) (if b then [(''warp_enabled'', JBool True)] else [])
         @ rest) r
      = into_fields state_fields rest (r\<lparr>warp_enabled := b\<rparr>)" if "\<not> warp_enabled r" for b rest r
    using that by (cases r) (simp add: names state_fields_find field_def)
  have fields: "into_fields state_fields (map (\<lambda>(k, v). (valid_utf8 k, json_valid v))
      ([(''schema_version'', JNum (itoa (schema_version st)))]) @ rest) r =
    into_fields state_fields rest (r\<lparr>schema_version := schema_version st\<rparr>)" for rest r
    using assms by (simp add: names state_fields_find field_def atoi_itoa)
  have last: "into_fields state_fields (map (\<lambda>(k, v). (valid_utf8 k, json_valid v)) (omit_empty ''updated_at'' s)) r
      = Inr (r\<lparr>updated_at := valid_utf8 s\<rparr>)" if "updated_at r = ''''" for s r
    using that by (cases r) (simp add: omit_empty_def names state_fields_find field_def)
  show ?thesis
    unfolding into_state_def state_json_def json_valid.simps into_struct.simps concat.simps map_append
    by (simp only: fields append_Nil2)
       (cases st; simp add: state_field_reads last flag names empty_state_def valid_state_def
         del: map_append list.map(2) split del: if_split)
qed

lemma omit_empty_numbers: "list_all (\<lambda>(k, v). json_numbers_ok v) (omit_empty key s)"
  by (simp add: omit_empty_def)

interpretation state_codec: json_codec state_json into_state empty_state valid_state
    "\<lambda>st. - (2 ^ 63) \<le> schema_version st \<and> schema_version st < 2 ^ 63"
  by unfold_locales (simp add: state_json_def omit_empty_numbers, simp add: into_state_json)

section \<open>Path facts\<close>

lemma split_slash_append: "split_slash acc (a @ CHR ''/'' # b) = split_slash acc a @ split_slash [] b"
  by (induction acc a rule: split_slash.induct) auto

lemma split_slash_plain: "CHR ''/'' \<notin> set b \<Longrightarrow> split_slash acc b = [rev acc @ b]"
  by (induction acc b rule: split_slash.induct) auto

lemma clean_components_last:
  "n \<notin> {'''', ''.'', ''..''} \<Longrightarrow> \<exists>ys. clean_components rooted out (xs @ [n]) = ys @ [n]"
proof (induction xs arbitrary: out)
  case Nil
  then show ?case by simp
next
  case (Cons x xs)
  then show ?case by (cases rooted) auto
qed

lemma str_join_last: "\<exists>p. str_join sep (ys @ [n]) = p @ n"
proof (induction ys)
  case (Cons y ys)
  then obtain p where "str_join sep (ys @ [n]) = p @ n" by blast
  moreover obtain z zs where "ys @ [n] = z # zs" by (cases "ys @ [n]") auto
  ultimately have "str_join sep ((y # ys) @ [n]) = (y @ sep @ p) @ n" by simp
  then show ?case by blast
qed (auto intro: exI[of _ "[]"])

lemma path_join_ends:
  assumes "CHR ''/'' \<notin> set n" "n \<notin> {'''', ''.'', ''..''}"
  shows "\<exists>p. path_join dir n = p @ n"
proof -
  have clean: "\<exists>p. path_clean q = p @ n" if "split_slash [] q = xs @ [n]" for q xs
  proof -
    obtain ys where "clean_components (q \<noteq> [] \<and> hd q = CHR ''/'') [] (xs @ [n]) = ys @ [n]"
      by (rule exE[OF clean_components_last[OF assms(2)]])
    moreover obtain p where "str_join ''/'' (ys @ [n]) = p @ n" using str_join_last by blast
    ultimately have "path_clean q = (if q \<noteq> [] \<and> hd q = CHR ''/'' then ''/'' else '''') @ p @ n"
      using assms(2) that by (simp add: path_clean_def Let_def)
    then show ?thesis by (metis append_assoc)
  qed
  show ?thesis
  proof (cases "dir = ''''")
    case True
    then show ?thesis using clean[of n "[]"] assms by (simp add: path_join_def split_slash_plain)
  next
    case False
    have "split_slash [] (dir @ CHR ''/'' # n) = split_slash [] dir @ [n]"
      using assms(1) by (simp add: split_slash_append split_slash_plain)
    with clean False assms(2) show ?thesis by (simp add: path_join_def)
  qed
qed

text \<open>A temporary file never has the name of the state file.\<close>

lemma temp_not_state_path:
  assumes "list_all is_digit r"
  shows "temp_path dir ''state-'' ''.json'' r \<noteq> state_path dir'"
proof
  assume eq: "temp_path dir ''state-'' ''.json'' r = state_path dir'"
  obtain p where "state_path dir' = p @ ''state.json''"
    unfolding state_path_def using path_join_ends[of "''state.json''"] by auto
  moreover define q where "q = (if dir \<noteq> [] \<and> last dir = CHR ''/'' then dir else dir @ ''/'')"
  then have "temp_path dir ''state-'' ''.json'' r = (q @ ''state-'' @ r) @ ''.json''"
    by (simp add: temp_path_def)
  ultimately have "(q @ ''state-'' @ r) @ ''.json'' = (p @ ''state'') @ ''.json''"
    using eq by simp
  then have "q @ ''state-'' @ r = p @ ''state''" by (simp only: append_same_eq)
  then have "last (q @ ''state-'' @ r) = CHR ''e''" by simp
  then show False using assms
    by (cases r rule: rev_cases) (auto simp: is_digit_def)
qed

section \<open>Saving and loading\<close>

lemma os_call_Inr: "os_call m d = (Inr x, d') \<Longrightarrow> \<exists>d1. pop_fault d = (NoFault, d1) \<and> m d1 = (Inr x, d')"
  by (auto simp: os_call_def split: prod.splits fault.splits)

lemma create_temp_Inr:
  assumes "os_create_temp dir pre suf d = (Inr tmp, d')"
  shows "files d' tmp = Some \<lparr>content = '''', file_mode = 0x180\<rparr>" "files d tmp = None"
    "\<exists>r \<in> set (temp_names d). tmp = temp_path (if dir = '''' then temp_dir d else dir) pre suf r"
    "only_touches tmp d d'"
proof -
  obtain d1 where pop: "pop_fault d = (NoFault, d1)" and run: "(let dir' = (if dir = '''' then temp_dir d1 else dir) in
     case find (\<lambda>r. files d1 (temp_path dir' pre suf r) = None) (temp_names d1) of
       None \<Rightarrow> (Inl (errorf ''createtemp: file exists''), d1)
     | Some r \<Rightarrow> (Inr (temp_path dir' pre suf r),
                  set_file (temp_path dir' pre suf r) (Some \<lparr>content = '''', file_mode = 0x180\<rparr>) d1)) = (Inr tmp, d')"
    using os_call_Inr[OF assms[unfolded os_create_temp_def]] by blast
  have same: "files d1 = files d" "temp_names d1 = temp_names d" "temp_dir d1 = temp_dir d"
    using pop by (auto simp: pop_fault_def split: list.splits)
  define dir' where "dir' = (if dir = '''' then temp_dir d1 else dir)"
  obtain r where r: "find (\<lambda>r. files d1 (temp_path dir' pre suf r) = None) (temp_names d1) = Some r"
    "tmp = temp_path dir' pre suf r" "d' = set_file tmp (Some \<lparr>content = '''', file_mode = 0x180\<rparr>) d1"
    using run unfolding dir'_def[symmetric] Let_def by (auto split: option.splits)
  then have free: "files d1 tmp = None" "r \<in> set (temp_names d1)"
    by (auto simp: find_Some_iff)
  show "files d' tmp = Some \<lparr>content = '''', file_mode = 0x180\<rparr>"
    using r(3) by (simp add: set_file_def)
  show "files d tmp = None" using free same by simp
  show "\<exists>r \<in> set (temp_names d). tmp = temp_path (if dir = '''' then temp_dir d else dir) pre suf r"
    using free(2) r(2) same by (auto simp: dir'_def)
  show "only_touches tmp d d'"
    using only_touches_trans[OF only_touches_pop[OF pop] only_touches_set] r(3) by simp
qed

lemma write_temp_Inr:
  assumes "write_temp_state tmp text d = (Inr (), d')" "files d tmp = Some \<lparr>content = '''', file_mode = m\<rparr>"
  shows "files d' tmp = Some \<lparr>content = text, file_mode = 0x180\<rparr>"
proof -
  obtain d1 d2 d3 where run: "os_chmod tmp 0x180 d = (Inr (), d1)" "os_write tmp text d1 = (Inr (), d2)"
    "os_sync tmp d2 = (Inr (), d3)" "os_close tmp d3 = (Inr (), d')"
    using assms(1) by (auto simp: write_temp_state_def andThen_Inr_iff on_error_Inr_iff wrapping_Inr_iff)
  have "files d1 tmp = Some \<lparr>content = '''', file_mode = 0x180\<rparr>"
    using os_call_Inr[OF run(1)[unfolded os_chmod_def]] assms(2)
    by (auto simp: set_file_def dest!: pop_fault_files split: option.splits)
  then have "files d2 tmp = Some \<lparr>content = text, file_mode = 0x180\<rparr>"
    using run(2) by (auto simp: os_write_def append_file_def set_file_def dest!: pop_fault_files
        split: prod.splits fault.splits option.splits)
  moreover have "files d3 = files d2" "files d' = files d3"
    using os_call_Inr[OF run(3)[unfolded os_sync_def]] os_call_Inr[OF run(4)[unfolded os_close_def]]
    by (auto dest!: pop_fault_files)
  ultimately show ?thesis by simp
qed

lemma touches_write_temp [touches]: "only_touches tmp d (snd (write_temp_state tmp text d))"
  unfolding write_temp_state_def by (intro touches)

lemma replace_state_Inr:
  assumes "replace_state tmp path d = (Inr (), d')" "files d tmp = Some f"
  shows "files d' path = Some (f\<lparr>file_mode := 0x180\<rparr>)"
proof -
  obtain d1 where run: "os_rename tmp path d = (Inr (), d1)" "os_chmod path 0x180 d1 = (Inr (), d')"
    using assms(1) by (auto simp: replace_state_def andThen_Inr_iff wrapping_Inr_iff)
  have "files d1 path = Some f"
    using os_call_Inr[OF run(1)[unfolded os_rename_def]] assms(2)
    by (auto dest!: pop_fault_files split: option.splits)
  then show ?thesis
    using os_call_Inr[OF run(2)[unfolded os_chmod_def]]
    by (auto simp: set_file_def dest!: pop_fault_files split: option.splits)
qed

lemma store_save_Inr:
  assumes "store_save dir st d = (Inr (), d')"
  shows "files d' (state_path dir) = Some \<lparr>content = state_text st, file_mode = 0x180\<rparr>"
proof -
  obtain d1 tmp d2 d3 where run: "os_create_temp dir ''state-'' ''.json'' d1 = (Inr tmp, d2)"
    "write_temp_state tmp (state_text st) d2 = (Inr (), d3)" "replace_state tmp (state_path dir) d3 = (Inr (), d')"
    using assms by (auto simp: store_save_def andThen_Inr_iff on_error_Inr_iff wrapping_Inr_iff)
  show ?thesis
    using replace_state_Inr[OF run(3) write_temp_Inr[OF run(2) create_temp_Inr(1)[OF run(1)]]] by simp
qed

text \<open>C14: A saved state is read back: after a successful \<open>Save\<close>, a \<open>Load\<close> whose read does not fail
  returns the state that was saved, with its strings repaired to UTF-8, provided the schema version
  is a 64-bit integer; the file has mode 0600.\<close>

theorem state_save_load:
  assumes "store_save dir st d = (Inr (), d')" "pop_fault d' = (NoFault, d'')"
    "- (2 ^ 63) \<le> schema_version st" "schema_version st < 2 ^ 63"
  shows "store_load dir d' = (Inr (valid_state st), d'') \<and>
    (\<exists>f. files d' (state_path dir) = Some f \<and> file_mode f = 0x180)"
proof -
  have saved: "files d' (state_path dir) = Some \<lparr>content = state_text st, file_mode = 0x180\<rparr>"
    using assms(1) by (rule store_save_Inr)
  have "json_unmarshal into_state empty_state (state_text st) = Inr (valid_state st)"
    unfolding state_text_def by (rule state_codec.unmarshal_marshal) (use assms(3,4) in \<open>simp_all add: is_ws_def\<close>)
  moreover have "os_read_file (state_path dir) d' = (Inr (state_text st), d'')"
    using assms(2) saved pop_fault_files[OF assms(2)] by (simp add: os_read_file_def os_call_def)
  ultimately show ?thesis using saved by (simp add: store_load_def)
qed

lemma stays_replace:
  assumes "files d tmp = Some new" "P (files d path)" "P (Some new)" "file_mode new = 0x180"
  shows "stays path P d (snd (replace_state tmp path d))"
proof -
  obtain r d1 where ren: "os_rename tmp path d = (r, d1)" by (cases "os_rename tmp path d")
  then have st: "stays path P d d1"
    using stays_rename[of d tmp new P path] assms by simp
  show ?thesis
  proof (cases r)
    case (Inl e)
    with ren st show ?thesis by (simp add: replace_state_def)
  next
    case (Inr u)
    then have "files d1 path = Some new"
      using os_call_Inr[OF ren[unfolded Inr os_rename_def]] assms(1)
      by (auto dest!: pop_fault_files split: option.splits)
    then have "stays path P d1 (snd (os_chmod path 0x180 d1))"
      using assms by (cases new) (intro stays_chmod, simp_all)
    with st have "stays path P d (snd (os_chmod path 0x180 d1))" by (rule stays_trans)
    with ren Inr show ?thesis by (simp add: replace_state_def eff_simps)
  qed
qed

lemma stays_on_error:
  fixes m :: "('a disk_scheme, 'b) eff"
  assumes "stays p P d (snd (m d))" "\<And>d. only_touches q d (snd (k d))" "q \<noteq> p"
  shows "stays p P d (snd (on_error m k d))"
proof -
  obtain r d1 where run: "m d = (r, d1)" by (cases "m d")
  with assms(1) have st: "stays p P d d1" by simp
  have "stays p P d1 (snd (k d1))" using assms(2,3) stays_end[OF st] by (rule stays_touches)
  with st run stays_trans[OF st] show ?thesis by (cases r) (auto simp: on_error_def)
qed

text \<open>\<open>Save\<close> once it has its temporary file, and what it does before.\<close>

lemma stays_save_body:
  assumes "files d tmp = Some \<lparr>content = '''', file_mode = m\<rparr>" "tmp \<noteq> path"
    "P (files d path)" "P (Some \<lparr>content = text, file_mode = 0x180\<rparr>)"
  shows "stays path P d
    (snd (on_error (andThen (write_temp_state tmp text) (\<lambda>_. replace_state tmp path)) (os_remove tmp) d))"
proof (rule stays_on_error[OF _ touches_calls(6) assms(2)])
  obtain r d1 where wt: "write_temp_state tmp text d = (r, d1)" by (cases "write_temp_state tmp text d")
  then have "only_touches tmp d d1" by (metis snd_conv touches_write_temp)
  then have st: "stays path P d d1" using assms(2,3) by (rule stays_touches)
  show "stays path P d (snd (andThen (write_temp_state tmp text) (\<lambda>_. replace_state tmp path) d))"
  proof (cases r)
    case (Inl e)
    with wt st show ?thesis by simp
  next
    case (Inr u)
    then have "files d1 tmp = Some \<lparr>content = text, file_mode = 0x180\<rparr>"
      using write_temp_Inr[OF _ assms(1)] wt by simp
    then have "stays path P d1 (snd (replace_state tmp path d1))"
      using stays_end[OF st] assms(4) by (rule stays_replace) simp
    with st wt Inr show ?thesis by (simp add: stays_trans[OF st])
  qed
qed

lemma mkdir_all_untouched:
  assumes "os_mkdir_all dir perm d = (r, d')"
  shows "only_touches q d d'" "temp_names d' = temp_names d"
proof -
  have "only_touches q d (snd (os_mkdir_all dir perm d))" by (rule touches_calls(2))
  with assms show "only_touches q d d'" by simp
  show "temp_names d' = temp_names d" using assms
    by (auto simp: os_mkdir_all_def os_call_def pop_fault_def split: prod.splits fault.splits list.splits if_splits)
qed

text \<open>C10: Saving is atomic: if the operating system's random names are digits, then at every moment of a
  \<open>Save\<close>, whatever calls fail, and after it, the state file is either the one that was there before or
  the complete new one with mode 0600; a crash never leaves a truncated or mixed state file.\<close>

theorem state_save_atomic:
  assumes "\<forall>r \<in> set (temp_names d). list_all is_digit r"
  shows "stays (state_path dir)
    (\<lambda>x. x = files d (state_path dir) \<or> x = Some \<lparr>content = state_text st, file_mode = 0x180\<rparr>)
    d (snd (store_save dir st d))" (is "stays ?path ?P d _")
proof -
  have other: "?path @ ''x'' \<noteq> ?path" by simp
  obtain r1 d1 where mk: "os_mkdir_all dir 0x1C0 d = (r1, d1)" by (cases "os_mkdir_all dir 0x1C0 d")
  have s1: "stays ?path ?P d d1"
    by (rule stays_touches[OF mkdir_all_untouched(1)[OF mk] other]) simp
  show ?thesis
  proof (cases r1)
    case (Inl e)
    with mk s1 show ?thesis by (simp add: store_save_def)
  next
    case made: (Inr u)
    obtain r2 d2 where ct: "os_create_temp dir ''state-'' ''.json'' d1 = (r2, d2)"
      by (cases "os_create_temp dir ''state-'' ''.json'' d1")
    show ?thesis
    proof (cases r2)
      case (Inl e)
      have "stays ?path ?P d1 d2"
        using create_temp_Inl[OF ct[unfolded Inl]] other stays_end[OF s1] by (rule stays_touches)
      with mk made ct Inl show ?thesis by (simp add: store_save_def stays_trans[OF s1])
    next
      case (Inr tmp)
      note temp = create_temp_Inr[OF ct[unfolded Inr]]
      have neq: "tmp \<noteq> ?path"
        using temp(3) assms mkdir_all_untouched(2)[OF mk] temp_not_state_path by metis
      note s2 = stays_trans[OF s1 stays_touches[where P = ?P, OF temp(4) neq stays_end[OF s1]]]
      from stays_trans[OF s2 stays_save_body[where P = ?P, OF temp(1) neq stays_end[OF s2]]]
      show ?thesis using mk ct made Inr by (simp add: store_save_def)
    qed
  qed
qed

definition sample_disk :: disk where
  "sample_disk = \<lparr>files = (\<lambda>_. None), history = [], faults = [], temp_names = [''7''], temp_dir = ''/tmp''\<rparr>"

lemma state_save_atomic_witness:
  "stays (state_path ''d'') (\<lambda>x. x = None \<or> x = Some \<lparr>content = state_text empty_state, file_mode = 0x180\<rparr>)
     sample_disk (snd (store_save ''d'' empty_state sample_disk))"
  using state_save_atomic[of sample_disk "''d''" empty_state]
  by (simp add: sample_disk_def is_digit_def)

lemma sample_save: "\<exists>d'. store_save ''d'' empty_state sample_disk = (Inr (), d') \<and> pop_fault d' = (NoFault, d')"
  by (simp add: store_save_def os_mkdir_all_def os_create_temp_def os_call_def pop_fault_def sample_disk_def
      temp_path_def set_file_def write_temp_state_def replace_state_def os_chmod_def os_write_def append_file_def
      os_sync_def os_close_def os_rename_def eff_simps on_error_def)

lemma state_save_load_witness:
  "\<exists>d'. store_save ''d'' empty_state sample_disk = (Inr (), d') \<and> store_load ''d'' d' = (Inr empty_state, d')"
proof -
  obtain d' where run: "store_save ''d'' empty_state sample_disk = (Inr (), d')" "pop_fault d' = (NoFault, d')"
    using sample_save by blast
  with state_save_load[OF run] show ?thesis by (auto simp: empty_state_def valid_state_def)
qed

text \<open>\<open>Load\<close> tells a missing file from an unreadable one: it returns the empty state exactly for an
  absent file (any error of the read that is \<open>ErrNotExist\<close>), the decoded contents of one that decodes,
  and an error for one that does not or cannot be read; it never changes a file.\<close>

theorem state_load_outcomes:
  "files (snd (store_load dir d)) = files d \<and>
   fst (store_load dir d) =
     (case pop_fault d of
        (Fault e n, _) \<Rightarrow> if has_kind NotExist e then Inr empty_state else Inl (wrap ''read state file'' e)
      | (NoFault, _) \<Rightarrow>
          (case files d (state_path dir) of
             None \<Rightarrow> Inr empty_state
           | Some f \<Rightarrow> (case json_unmarshal into_state empty_state (content f) of
                         Inl e \<Rightarrow> Inl (wrap ''decode state file'' e) | Inr st \<Rightarrow> Inr st)))"
proof -
  obtain t d1 where pop: "pop_fault d = (t, d1)" by (cases "pop_fault d")
  then have "files d1 = files d" using pop_fault_files by blast
  with pop show ?thesis
    by (auto simp: store_load_def os_read_file_def os_call_def attempt_def fail_def ret_def not_exist_def
        split: fault.split option.split sum.split)
qed

end
