(* ===== verification/App_Config.thy ===== *)
theory App_Config
  imports Prelude
begin

text \<open>
  \<open>internal/config/config.go\<close>: the configuration read from the environment. A nil \<open>getenv\<close> is \<open>None\<close>.
  The Go type \<open>StackMode\<close> is a string of which only the three constants occur.
\<close>

definition unspecified :: string where
  "unspecified = ''unspecified''"

datatype stack_mode = StackDual | Stack4 | Stack6

record auth_settings =
  auth_enabled :: bool
  auth_user :: string
  auth_pass :: string

record config =
  proxy_stack :: stack_mode
  warp_license :: string
  proxy_auth :: auth_settings

definition normalize_optional :: "string \<Rightarrow> string" where
  "normalize_optional value = (if value = '''' then unspecified else value)"

definition load_stack_mode :: "string \<Rightarrow> go_error + stack_mode" where
  "load_stack_mode value =
     (let v = normalize_optional value in
      if v = unspecified then Inr StackDual
      else if v = ''4'' then Inr Stack4
      else if v = ''6'' then Inr Stack6
      else Inl (errorf ''proxy-stack must be 4, 6, or unspecified''))"

definition load_from_env :: "(string \<Rightarrow> string) option \<Rightarrow> go_error + config" where
  "load_from_env getenv =
     (case getenv of
        None \<Rightarrow> Inl (errorf ''getenv is required'')
      | Some env \<Rightarrow>
          (case load_stack_mode (env ''proxy-stack'') of
             Inl e \<Rightarrow> Inl e
           | Inr stack \<Rightarrow>
               let username = normalize_optional (env ''uname'');
                   password = normalize_optional (env ''upwd'');
                   cfg = (\<lambda>auth. \<lparr>proxy_stack = stack, warp_license = normalize_optional (env ''warp-license''), proxy_auth = auth\<rparr>)
               in if username = unspecified \<and> password = unspecified
                  then Inr (cfg \<lparr>auth_enabled = False, auth_user = username, auth_pass = password\<rparr>)
                  else if username = unspecified \<or> password = unspecified
                  then Inl (errorf ''uname and upwd must be configured together'')
                  else Inr (cfg \<lparr>auth_enabled = True, auth_user = username, auth_pass = password\<rparr>)))"

text \<open>A variable counts as set if it is neither empty nor the word itself.\<close>

definition is_set :: "string \<Rightarrow> bool" where
  "is_set value = (value \<noteq> '''' \<and> value \<noteq> unspecified)"

lemma normalize_unspecified: "normalize_optional v = unspecified \<longleftrightarrow> \<not> is_set v"
  by (simp add: normalize_optional_def is_set_def)

lemma normalize_set: "is_set v \<Longrightarrow> normalize_optional v = v"
  by (simp add: normalize_optional_def is_set_def)

lemma normalize_unset: "\<not> is_set v \<Longrightarrow> normalize_optional v = unspecified"
  by (simp add: normalize_unspecified)

lemma is_setD: "is_set v \<Longrightarrow> v \<noteq> '''' \<and> v \<noteq> unspecified"
  by (simp add: is_set_def)

lemma stacks_set: "is_set ''4''" "is_set ''6''"
  by (simp_all add: is_set_def unspecified_def)

lemma load_stack_mode_outcome:
  "load_stack_mode v =
     (if \<not> is_set v then Inr StackDual else if v = ''4'' then Inr Stack4 else if v = ''6'' then Inr Stack6
      else Inl (errorf ''proxy-stack must be 4, 6, or unspecified''))"
  by (auto simp: load_stack_mode_def Let_def normalize_unspecified normalize_set)

definition stack_accepted :: "string \<Rightarrow> bool" where
  "stack_accepted value = (is_set value \<longrightarrow> value \<in> {''4'', ''6''})"

text \<open>C39: The configuration is accepted exactly if the stack is 4, 6 or not set and the user name and
  password are both set or both not set; authentication is then required exactly if both are set, with
  exactly these (never empty) credentials, and a nil \<open>getenv\<close> is refused.\<close>

theorem load_from_env_outcome:
  "(case load_from_env (Some env) of
      Inl _ \<Rightarrow> \<not> (stack_accepted (env ''proxy-stack'') \<and> is_set (env ''uname'') = is_set (env ''upwd''))
    | Inr cfg \<Rightarrow>
        stack_accepted (env ''proxy-stack'') \<and> is_set (env ''uname'') = is_set (env ''upwd'') \<and>
        auth_enabled (proxy_auth cfg) = is_set (env ''uname'') \<and>
        (if auth_enabled (proxy_auth cfg)
         then auth_user (proxy_auth cfg) = env ''uname'' \<and> auth_pass (proxy_auth cfg) = env ''upwd'' \<and>
              env ''uname'' \<noteq> '''' \<and> env ''upwd'' \<noteq> ''''
         else auth_user (proxy_auth cfg) = unspecified \<and> auth_pass (proxy_auth cfg) = unspecified) \<and>
        proxy_stack cfg = (if \<not> is_set (env ''proxy-stack'') then StackDual
                           else if env ''proxy-stack'' = ''4'' then Stack4 else Stack6)) \<and>
   (\<exists>e. load_from_env None = Inl e)"
  by (cases "is_set (env ''uname'')"; cases "is_set (env ''upwd'')"; cases "is_set (env ''proxy-stack'')";
      cases "env ''proxy-stack'' = ''4''"; cases "env ''proxy-stack'' = ''6''")
     (simp_all add: load_from_env_def stack_accepted_def load_stack_mode_outcome Let_def normalize_set normalize_unset is_setD stacks_set)

end
