(* ===== verification/Health.thy ===== *)
theory Health
  imports GoJson
begin

text \<open>
  \<open>internal/runtime/status.go\<close> and \<open>internal/health/server.go\<close>: the readiness flag the application
  sets, and the HTTP endpoints that show it. A time is the number of nanoseconds since the zero time,
  \<open>format_time\<close> its JSON form. The lock of the status makes every operation atomic; each is one step.
\<close>

record runtime_status =
  status_ready :: bool
  started_at :: int

definition new_status :: "int \<Rightarrow> int \<Rightarrow> runtime_status" where
  "new_status now at = \<lparr>status_ready = False, started_at = (if at = 0 then now else at)\<rparr>"

definition set_ready :: "bool \<Rightarrow> runtime_status \<Rightarrow> runtime_status" where
  "set_ready ready s = s\<lparr>status_ready := ready\<rparr>"

definition snapshot_json :: "(int \<Rightarrow> string) \<Rightarrow> runtime_status \<Rightarrow> json" where
  "snapshot_json format_time s =
     JObj [(''ready'', JBool (status_ready s)), (''startedAt'', JStr (format_time (started_at s)))]"

record response =
  resp_code :: nat
  content_type :: string
  resp_body :: string

text \<open>The first 512 bytes decide a content type that is not set; for these short ASCII texts it is plain text.\<close>

definition plain :: "nat \<Rightarrow> string \<Rightarrow> response" where
  "plain code text = \<lparr>resp_code = code, content_type = ''text/plain; charset=utf-8'', resp_body = text\<rparr>"

definition handle_healthz :: response where
  "handle_healthz = plain 200 ''ok''"

definition handle_readyz :: "runtime_status option \<Rightarrow> response" where
  "handle_readyz source =
     (case source of
        Some s \<Rightarrow> if status_ready s then plain 200 ''ready'' else plain 503 (''not ready'' @ [CHR 0x0A])
      | None \<Rightarrow> plain 503 (''not ready'' @ [CHR 0x0A]))"

definition handle_status :: "(int \<Rightarrow> string) \<Rightarrow> runtime_status option \<Rightarrow> response" where
  "handle_status format_time source =
     \<lparr>resp_code = 200, content_type = ''application/json'',
      resp_body = json_marshal (case source of None \<Rightarrow> JObj [] | Some s \<Rightarrow> snapshot_json format_time s) @ [CHR 0x0A]\<rparr>"

text \<open>The routes of \<open>NewHandler\<close>, for request paths in clean form (the mux redirects others to it).\<close>

definition serve_health :: "(int \<Rightarrow> string) \<Rightarrow> runtime_status option \<Rightarrow> string \<Rightarrow> response" where
  "serve_health format_time source path =
     (if path = ''/healthz'' then handle_healthz
      else if path = ''/readyz'' then handle_readyz source
      else if path = ''/status'' then handle_status format_time source
      else plain 404 (''404 page not found'' @ [CHR 0x0A]))"

text \<open>The status endpoint tells the truth: its body is JSON that parses to the snapshot of the flag
  and the (UTF-8) start time, and the readiness endpoint answers 200 exactly when that snapshot says
  ready; liveness is always 200.\<close>

theorem health_reports_status:
  "json_parse (resp_body (serve_health format_time (Some s) ''/status'')) =
     Some (JObj [(''ready'', JBool (status_ready s)), (''startedAt'', JStr (valid_utf8 (format_time (started_at s))))]) \<and>
   resp_code (serve_health format_time (Some s) ''/readyz'') = (if status_ready s then 200 else 503) \<and>
   resp_code (serve_health format_time source ''/healthz'') = 200 \<and>
   resp_code (serve_health format_time None ''/readyz'') = 503"
proof -
  have "valid_utf8 ''ready'' = ''ready''" "valid_utf8 ''startedAt'' = ''startedAt''"
    by (rule valid_utf8_ascii; simp)+
  then show ?thesis
    by (simp add: serve_health_def handle_status_def handle_readyz_def handle_healthz_def plain_def
        snapshot_json_def json_parse_marshal is_ws_def)
qed

end
