(* ===== verification/Sys_Runner.thy ===== *)
theory Sys_Runner
  imports GoOs
begin

text \<open>
  \<open>internal/system/runner.go\<close>: running a command. \<open>exec\<close> is the operating system's execution of a
  program with its combined output and its failure, if any; a runner (\<open>system.Runner\<close>) is what the
  network components receive, its output dropped on an error as its callers do.
\<close>

type_synonym 'w runner = "string \<Rightarrow> string list \<Rightarrow> ('w, string) eff"

definition exec_run :: "(string \<Rightarrow> string list \<Rightarrow> 'w \<Rightarrow> (string \<times> go_error option) \<times> 'w) \<Rightarrow> 'w runner" where
  "exec_run exec name args w =
     (case exec name args w of
        ((output, Some e), w') \<Rightarrow>
          (Inl (Wrapf (''run '' @ name @ '' '' @ str_join '' '' args @ '': '') e ('': '' @ trim_space output)), w')
      | ((output, None), w') \<Rightarrow> (Inr output, w'))"

section \<open>Recording the commands\<close>

text \<open>
  A world in which every command is recorded and its outcome is any function of the commands so far;
  it is used to state in which order a component issues its commands.
\<close>

type_synonym command = "string \<times> string list"

record cmd_world = disk +
  cmd_log :: "command list"
  cmd_outcome :: "command list \<Rightarrow> go_error + string"

definition logged_run :: "'a cmd_world_scheme runner" where
  "logged_run name args w =
     (let l = cmd_log w @ [(name, args)] in (cmd_outcome w l, w\<lparr>cmd_log := l\<rparr>))"

text \<open>\<open>issues m cs\<close>: \<open>m\<close> issues the commands \<open>cs\<close> in this order, possibly fewer if it fails.\<close>

definition issues :: "('a cmd_world_scheme, 'b) eff \<Rightarrow> command list \<Rightarrow> bool" where
  "issues m cs \<longleftrightarrow> (\<forall>w r w'. m w = (r, w') \<longrightarrow>
     cmd_outcome w' = cmd_outcome w \<and>
     (\<exists>ys. prefix ys cs \<and> cmd_log w' = cmd_log w @ ys \<and> ((\<exists>x. r = Inr x) \<longrightarrow> ys = cs)))"

named_theorems issues_intros \<open>commands issued, by the structure of a computation\<close>

lemma issuesD:
  assumes "issues m cs" "m w = (r, w')"
  shows "cmd_outcome w' = cmd_outcome w"
    "\<exists>ys. prefix ys cs \<and> cmd_log w' = cmd_log w @ ys \<and> ((\<exists>x. r = Inr x) \<longrightarrow> ys = cs)"
  using assms by (auto simp: issues_def)

lemma issues_run [issues_intros]: "issues (logged_run name args) [(name, args)]"
  by (simp add: issues_def logged_run_def Let_def)

lemma issues_ret [issues_intros]: "issues (ret x) []"
  by (simp add: issues_def)

lemma issues_fail [issues_intros]: "issues (fail e) cs"
  by (simp add: issues_def)

lemma issues_andThen [issues_intros]:
  assumes "issues m cs" "\<And>x. issues (f x) ds"
  shows "issues (andThen m f) (cs @ ds)"
  unfolding issues_def
proof (intro allI impI)
  fix w r w'
  assume run: "andThen m f w = (r, w')"
  obtain r1 w1 where m: "m w = (r1, w1)" by (cases "m w")
  obtain ys where ys: "prefix ys cs" "cmd_log w1 = cmd_log w @ ys" "(\<exists>x. r1 = Inr x) \<longrightarrow> ys = cs"
    using issuesD(2)[OF assms(1) m] by blast
  have out: "cmd_outcome w1 = cmd_outcome w" using issuesD(1)[OF assms(1) m] .
  show "cmd_outcome w' = cmd_outcome w \<and>
     (\<exists>ys. prefix ys (cs @ ds) \<and> cmd_log w' = cmd_log w @ ys \<and> ((\<exists>x. r = Inr x) \<longrightarrow> ys = cs @ ds))"
  proof (cases r1)
    case (Inl e)
    with run m ys out show ?thesis by (auto intro: prefix_prefix)
  next
    case (Inr x)
    then have f: "f x w1 = (r, w')" using run m by simp
    from issuesD[OF assms(2) f] obtain zs where
      "cmd_outcome w' = cmd_outcome w1" "prefix zs ds" "cmd_log w' = cmd_log w1 @ zs" "(\<exists>x. r = Inr x) \<longrightarrow> zs = ds"
      by blast
    with ys out Inr show ?thesis by (intro conjI exI[of _ "cs @ zs"]) auto
  qed
qed

lemma issues_run_ret [issues_intros]: "issues (andThen (logged_run name args) (\<lambda>_. ret x)) [(name, args)]"
  using issues_andThen[OF issues_run[of name args] issues_ret] by simp

lemma issues_for_each [issues_intros]:
  "(\<And>x. issues (f x) [c x]) \<Longrightarrow> issues (for_each f xs) (map c xs)"
proof (induction xs)
  case (Cons x xs)
  then have "issues (andThen (f x) (\<lambda>_. for_each f xs)) ([c x] @ map c xs)"
    by (intro issues_andThen) auto
  then show ?case by simp
qed (simp add: issues_ret)

lemma issues_attempt_run [issues_intros]:
  assumes "\<And>r. issues (f r) []"
  shows "issues (attempt (logged_run name args) f) [(name, args)]"
  unfolding issues_def
proof (intro allI impI)
  fix w r w'
  assume "attempt (logged_run name args) f w = (r, w')"
  then obtain r1 where "f r1 (w\<lparr>cmd_log := cmd_log w @ [(name, args)]\<rparr>) = (r, w')"
    by (auto simp: attempt_def logged_run_def Let_def)
  from issuesD[OF assms this] show "cmd_outcome w' = cmd_outcome w \<and>
     (\<exists>ys. prefix ys [(name, args)] \<and> cmd_log w' = cmd_log w @ ys \<and> ((\<exists>x. r = Inr x) \<longrightarrow> ys = [(name, args)]))"
    by auto
qed

lemma issues_wrapping [issues_intros]: "issues m cs \<Longrightarrow> issues (wrapping p m) cs"
  by (fastforce simp: issues_def wrapping_def split: prod.splits sum.splits)

end
