(* ===== verification/Route_Manager.thy ===== *)
theory Route_Manager
  imports App_Config Sys_Runner GoJson
begin

text \<open>
  \<open>internal/router/router.go\<close>: the plan of tunnel and bypass routes, and the manager that applies it
  with the \<open>ip\<close> command and restores the default routes it found. The manager's fields are the first
  component of the state, the outside world the second; \<open>on_world\<close> runs a command on the latter.
\<close>

definition on_world :: "('w, 'a) eff \<Rightarrow> ('s \<times> 'w, 'a) eff" where
  "on_world m = (\<lambda>(s, w). case m w of (r, w') \<Rightarrow> (r, (s, w')))"

definition on_self :: "('s \<Rightarrow> 's) \<Rightarrow> ('s \<times> 'w, unit) eff" where
  "on_self f = (\<lambda>(s, w). (Inr (), (f s, w)))"

definition with_self :: "('s \<Rightarrow> ('s \<times> 'w, 'a) eff) \<Rightarrow> ('s \<times> 'w, 'a) eff" where
  "with_self f = (\<lambda>(s, w). f s (s, w))"

lemma state_eval [eff_simps]:
  "on_world m (s, w) = (fst (m w), (s, snd (m w)))"
  "on_self g (s, w) = (Inr (), (g s, w))"
  "with_self f (s, w) = f s (s, w)"
  by (simp_all add: on_world_def on_self_def with_self_def split: prod.split)

section \<open>Plans\<close>

definition default_route_v4 :: prefix4or6 where
  "default_route_v4 = NetPrefix (Addr4 [0, 0, 0, 0]) 0"

definition default_route_v6 :: prefix4or6 where
  "default_route_v6 = NetPrefix (Addr6 (replicate 16 0) []) 0"

record route_input =
  stack_of :: stack_mode
  peer_addr :: netip

record route_plan =
  tunnel_routes :: "prefix4or6 list"
  bypass_routes :: "prefix4or6 list"

fun tunnel_routes_for :: "stack_mode \<Rightarrow> prefix4or6 list" where
  "tunnel_routes_for Stack4 = [default_route_v4]"
| "tunnel_routes_for Stack6 = [default_route_v6]"
| "tunnel_routes_for StackDual = [default_route_v4, default_route_v6]"

definition build_plan :: "route_input \<Rightarrow> route_plan" where
  "build_plan i =
     (let plan = \<lparr>tunnel_routes = tunnel_routes_for (stack_of i), bypass_routes = []\<rparr> in
      if \<not> addr_is_valid (peer_addr i) then plan
      else let endpoint = addr_unmap (peer_addr i)
           in plan\<lparr>bypass_routes := [prefix_from endpoint (addr_bit_len endpoint)]\<rparr>)"

section \<open>Default routes\<close>

record default_route =
  route_dst :: string
  route_gateway :: string
  route_dev :: string

definition empty_route :: default_route where
  "empty_route = \<lparr>route_dst = '''', route_gateway = '''', route_dev = ''''\<rparr>"

definition into_default_route :: "default_route decoder" where
  "into_default_route = into_struct
     [(''dst'', field route_dst (\<lambda>x r. r\<lparr>route_dst := x\<rparr>) into_string),
      (''gateway'', field route_gateway (\<lambda>x r. r\<lparr>route_gateway := x\<rparr>) into_string),
      (''dev'', field route_dev (\<lambda>x r. r\<lparr>route_dev := x\<rparr>) into_string)]"

definition discover_default_route :: "'w runner \<Rightarrow> bool \<Rightarrow> ('w, default_route option) eff" where
  "discover_default_route run v6 =
     attempt (run ''ip'' ([''-j''] @ (if v6 then [''-6''] else []) @ [''route'', ''show'', ''default''])) (\<lambda>r.
     case r of
       Inl e \<Rightarrow> if v6 \<and> str_contains (error_text e) ''ipv6'' then ret None else fail e
     | Inr output \<Rightarrow>
         (case json_unmarshal (into_slice empty_route into_default_route) [] output of
            Inl e \<Rightarrow> fail (wrap ''decode default routes'' e)
          | Inr [] \<Rightarrow> ret None
          | Inr (route # _) \<Rightarrow> ret (Some route)))"

definition via_dev :: "default_route \<Rightarrow> string list" where
  "via_dev route =
     (if route_gateway route \<noteq> '''' then [''via'', route_gateway route] else []) @
     (if route_dev route \<noteq> '''' then [''dev'', route_dev route] else [])"

definition apply_route :: "'w runner \<Rightarrow> string \<Rightarrow> prefix4or6 \<Rightarrow> default_route option \<Rightarrow> ('w, unit) eff" where
  "apply_route run action pfx original =
     (case original of
        None \<Rightarrow> fail (errorf (''missing original route for '' @ prefix_string pfx))
      | Some route \<Rightarrow>
          andThen (run ''ip'' ((if addr_is6 (prefix_addr pfx) then [''-6''] else [])
                   @ [''route'', action, prefix_string pfx] @ via_dev route)) (\<lambda>_. ret ()))"

definition delete_route :: "'w runner \<Rightarrow> prefix4or6 \<Rightarrow> ('w, unit) eff" where
  "delete_route run pfx =
     attempt (run ''ip'' ((if addr_is6 (prefix_addr pfx) then [''-6''] else [])
                @ [''route'', ''del'', prefix_string pfx])) (\<lambda>r.
     case r of
       Inl e \<Rightarrow> if str_contains (error_text e) ''No such process'' then ret () else fail e
     | Inr _ \<Rightarrow> ret ())"

definition restore_default_route :: "'w runner \<Rightarrow> bool \<Rightarrow> default_route \<Rightarrow> ('w, unit) eff" where
  "restore_default_route run v6 route =
     andThen (run ''ip'' ((if v6 then [''-6''] else []) @ [''route'', ''replace'', ''default''] @ via_dev route)) (\<lambda>_. ret ())"

definition selected_original_route :: "prefix4or6 \<Rightarrow> default_route option \<Rightarrow> default_route option \<Rightarrow> default_route option" where
  "selected_original_route pfx v4 v6 = (if addr_is6 (prefix_addr pfx) then v6 else v4)"

section \<open>The manager\<close>

record route_manager =
  original_v4 :: "default_route option"
  original_v6 :: "default_route option"
  installed_bypass :: "prefix4or6 list"

definition new_route_manager :: route_manager where
  "new_route_manager = \<lparr>original_v4 = None, original_v6 = None, installed_bypass = []\<rparr>"

definition discover_once :: "'w runner \<Rightarrow> bool \<Rightarrow> (route_manager \<Rightarrow> default_route option)
    \<Rightarrow> (default_route option \<Rightarrow> route_manager \<Rightarrow> route_manager) \<Rightarrow> (route_manager \<times> 'w, unit) eff" where
  "discover_once run v6 get put =
     with_self (\<lambda>m. if get m \<noteq> None then ret ()
       else andThen (on_world (discover_default_route run v6)) (\<lambda>route. on_self (put route)))"

definition switch_default :: "'w runner \<Rightarrow> string \<Rightarrow> prefix4or6 \<Rightarrow> ('w, unit) eff" where
  "switch_default run dev route =
     andThen (run ''ip'' ((if addr_is6 (prefix_addr route) then [''-6''] else [])
                @ [''route'', ''replace'', ''default'', ''dev'', dev])) (\<lambda>_. ret ())"

definition route_apply :: "'w runner option \<Rightarrow> string \<Rightarrow> route_plan \<Rightarrow> (route_manager \<times> 'w, unit) eff" where
  "route_apply runner dev plan =
     (case runner of
        None \<Rightarrow> fail (errorf ''runner is required'')
      | Some run \<Rightarrow>
          if dev = '''' then fail (errorf ''interface name is required'')
          else
          andThen (discover_once run False original_v4 (\<lambda>r m. m\<lparr>original_v4 := r\<rparr>)) (\<lambda>_.
          andThen (discover_once run True original_v6 (\<lambda>r m. m\<lparr>original_v6 := r\<rparr>)) (\<lambda>_.
          andThen (with_self (\<lambda>m. for_each (\<lambda>bypass. on_world (apply_route run ''replace'' bypass
                     (selected_original_route bypass (original_v4 m) (original_v6 m)))) (bypass_routes plan))) (\<lambda>_.
          andThen (on_self (\<lambda>m. m\<lparr>installed_bypass := bypass_routes plan\<rparr>)) (\<lambda>_.
          for_each (\<lambda>route. on_world (switch_default run dev route)) (tunnel_routes plan))))))"

definition restore_if_known :: "'w runner \<Rightarrow> bool \<Rightarrow> default_route option \<Rightarrow> ('w, unit) eff" where
  "restore_if_known run v6 route = (case route of None \<Rightarrow> ret () | Some r \<Rightarrow> restore_default_route run v6 r)"

definition route_cleanup :: "'w runner option \<Rightarrow> (route_manager \<times> 'w, unit) eff" where
  "route_cleanup runner =
     (case runner of
        None \<Rightarrow> fail (errorf ''runner is required'')
      | Some run \<Rightarrow>
          andThen (with_self (\<lambda>m. for_each (\<lambda>bypass. on_world (delete_route run bypass)) (installed_bypass m))) (\<lambda>_.
          andThen (on_self (\<lambda>m. m\<lparr>installed_bypass := []\<rparr>)) (\<lambda>_.
          with_self (\<lambda>m.
          andThen (on_world (restore_if_known run False (original_v4 m))) (\<lambda>_.
          on_world (restore_if_known run True (original_v6 m)))))))"

section \<open>Properties of a plan\<close>

text \<open>The plan keeps the tunnel's own traffic out of the tunnel: with a valid endpoint address there is
  exactly one bypass route, the host route of that address (an IPv4-mapped one as IPv4, never a default
  route), and the tunnel takes the default routes of exactly the families of the stack mode.\<close>

theorem plan_bypasses_endpoint:
  "tunnel_routes (build_plan i) =
     (if stack_of i = Stack6 then [] else [NetPrefix (Addr4 [0, 0, 0, 0]) 0]) @
     (if stack_of i = Stack4 then [] else [NetPrefix (Addr6 (replicate 16 0) []) 0]) \<and>
   (case peer_addr i of
      NoAddr \<Rightarrow> bypass_routes (build_plan i) = []
    | Addr4 b \<Rightarrow> bypass_routes (build_plan i) = [NetPrefix (Addr4 b) 32]
    | Addr6 b zone \<Rightarrow>
        bypass_routes (build_plan i) =
          (if is_4in6 b then [NetPrefix (Addr4 (drop 12 b)) 32] else [NetPrefix (Addr6 b []) 128]))"
  by (cases "stack_of i"; cases "peer_addr i")
     (auto simp: build_plan_def Let_def default_route_v4_def default_route_v6_def)

section \<open>What the manager does to the routing table\<close>

lemma andThen_on_world: "andThen (on_world m) (\<lambda>x. on_world (f x)) = on_world (andThen m f)"
  by (rule ext) (simp add: andThen_def on_world_def split: prod.split sum.split)

lemma for_each_on_world: "for_each (\<lambda>x. on_world (f x)) xs = on_world (for_each f xs)"
  by (induction xs) (simp_all add: andThen_on_world, simp add: fun_eq_iff on_world_def)

lemma on_world_iff: "on_world m (s, w) = (r, (s', w')) \<longleftrightarrow> m w = (r, w') \<and> s' = s"
  by (auto simp: on_world_def split: prod.split)

lemma on_self_iff: "on_self g (s, w) = (r, (s', w')) \<longleftrightarrow> r = Inr () \<and> s' = g s \<and> w' = w"
  by (auto simp: on_self_def)

lemma with_self_iff: "with_self f (s, w) = x \<longleftrightarrow> f s (s, w) = x"
  by (simp add: with_self_def)

lemmas self_world_iff = on_world_iff on_self_iff with_self_iff

lemma discover_once_iff:
  "discover_once run v6 get put (m, w) = (r, (m', w')) \<longleftrightarrow>
     (if get m \<noteq> None then r = Inr () \<and> m' = m \<and> w' = w
      else case discover_default_route run v6 w of
             (Inl e, w1) \<Rightarrow> r = Inl e \<and> m' = m \<and> w' = w1
           | (Inr route, w1) \<Rightarrow> r = Inr () \<and> m' = put route m \<and> w' = w1)"
  by (auto simp: discover_once_def andThen_def self_world_iff split: prod.split sum.split)

lemma discover_Inr_Some:
  assumes "discover_default_route run v6 w = (Inr (Some route), w')"
  obtains out rest where
    "run ''ip'' ([''-j''] @ (if v6 then [''-6''] else []) @ [''route'', ''show'', ''default'']) w = (Inr out, w')"
    "json_unmarshal (into_slice empty_route into_default_route) [] out = Inr (route # rest)"
proof -
  obtain r w1 where run: "run ''ip'' ([''-j''] @ (if v6 then [''-6''] else []) @ [''route'', ''show'', ''default'']) w = (r, w1)"
    by (cases "run ''ip'' ([''-j''] @ (if v6 then [''-6''] else []) @ [''route'', ''show'', ''default'']) w")
  then show ?thesis
    using assms that by (auto simp: discover_default_route_def split: sum.splits if_splits list.splits)
qed

text \<open>The world at the end of a successful \<open>Cleanup\<close>, by its commands.\<close>

lemma route_cleanup_Inr:
  assumes "route_cleanup (Some run) (m, w) = (Inr (), (m', w'))"
  obtains w1 w2 where "for_each (delete_route run) (installed_bypass m) w = (Inr (), w1)"
    "restore_if_known run False (original_v4 m) w1 = (Inr (), w2)"
    "restore_if_known run True (original_v6 m) w2 = (Inr (), w')"
    "m' = m\<lparr>installed_bypass := []\<rparr>"
  using assms by (auto simp: route_cleanup_def andThen_Inr_iff for_each_on_world self_world_iff)

lemma for_each_keeps: "(\<And>x. keeps P (f x)) \<Longrightarrow> P w \<Longrightarrow> for_each f xs w = (r, w') \<Longrightarrow> P w'"
  by (rule keepsD[OF keeps_for_each])

text \<open>
  What the manager relies on of \<open>ip\<close>, stated for the commands it issues. \<open>slot\<close> is the entry of a
  family's main table that \<open>ip route replace default\<close> without further attributes changes or adds, as
  gateway (empty for a route without one) and device. Routes that \<open>ip\<close> printed without a device, as it
  prints multipath routes, are left out: the code then issues a command whose device \<open>ip\<close> chooses.
\<close>

definition ip_prints :: "'w runner \<Rightarrow> bool \<Rightarrow> default_route \<Rightarrow> bool" where
  "ip_prints run v6 route \<longleftrightarrow> (\<exists>w out w' routes.
     run ''ip'' ([''-j''] @ (if v6 then [''-6''] else []) @ [''route'', ''show'', ''default'']) w = (Inr out, w') \<and>
     json_unmarshal (into_slice empty_route into_default_route) [] out = Inr routes \<and> route \<in> set routes)"

definition ip_replaces :: "'w runner \<Rightarrow> bool \<Rightarrow> ('w \<Rightarrow> (string \<times> string) option) \<Rightarrow> bool" where
  "ip_replaces run v6 slot \<longleftrightarrow> (\<forall>route w out w'. ip_prints run v6 route \<longrightarrow> route_dev route \<noteq> '''' \<longrightarrow>
     run ''ip'' ((if v6 then [''-6''] else []) @ [''route'', ''replace'', ''default''] @ via_dev route) w = (Inr out, w') \<longrightarrow>
     slot w' = Some (route_gateway route, route_dev route))"

definition ip6_leaves :: "'w runner \<Rightarrow> ('w \<Rightarrow> (string \<times> string) option) \<Rightarrow> bool" where
  "ip6_leaves run slot \<longleftrightarrow> (\<forall>opts w.
     slot (snd (run ''ip'' ([''-6'', ''route'', ''replace'', ''default''] @ opts) w)) = slot w)"

lemma restore_sets:
  assumes "restore_if_known run v6 (Some route) w = (Inr (), w')" "ip_replaces run v6 slot"
    "ip_prints run v6 route" "route_dev route \<noteq> ''''"
  shows "slot w' = Some (route_gateway route, route_dev route)"
proof -
  from assms(1) obtain out where
    "run ''ip'' ((if v6 then [''-6''] else []) @ [''route'', ''replace'', ''default''] @ via_dev route) w = (Inr out, w')"
    by (auto simp: restore_if_known_def restore_default_route_def andThen_Inr_iff)
  with assms(2-4) show ?thesis unfolding ip_replaces_def by blast
qed

lemma restore_leaves:
  assumes "ip6_leaves run slot" "restore_if_known run True route w = (r, w')"
  shows "slot w' = slot w"
proof (cases route)
  case (Some x)
  obtain r1 w1 where run: "run ''ip'' ([''-6'', ''route'', ''replace'', ''default''] @ via_dev x) w = (r1, w1)"
    by (metis prod.collapse)
  then have "slot w1 = slot w" using assms(1) unfolding ip6_leaves_def by (metis snd_conv)
  with assms(2) Some run show ?thesis
    by (cases r1) (auto simp: restore_if_known_def restore_default_route_def)
qed (use assms in \<open>simp add: restore_if_known_def\<close>)

lemma discovered_is_printed:
  assumes "discover_default_route run v6 w = (Inr (Some route), w')"
  shows "ip_prints run v6 route"
proof -
  from assms obtain out rest where
    "run ''ip'' ([''-j''] @ (if v6 then [''-6''] else []) @ [''route'', ''show'', ''default'']) w = (Inr out, w')"
    "json_unmarshal (into_slice empty_route into_default_route) [] out = Inr (route # rest)"
    by (rule discover_Inr_Some)
  then show ?thesis unfolding ip_prints_def by force
qed

lemma keeps_self [keeps_intros]:
  "keeps (\<lambda>(s, w). Q s) (on_world m)"
  "(\<And>s. Q s \<Longrightarrow> Q (g s)) \<Longrightarrow> keeps (\<lambda>(s, w). Q s) (on_self g)"
  "(\<And>s. keeps P (f s)) \<Longrightarrow> keeps P (with_self f)"
  by (auto simp: keeps_def eff_simps)

lemma route_apply_originals:
  fixes run :: "'w runner"
  assumes "dev \<noteq> ''''" "route_apply (Some run) dev plan (new_route_manager, w) = (r, (m, w'))"
    "discover_default_route run False w = (Inr x, w4)" "discover_default_route run True w4 = (Inr y, w6)"
  shows "original_v4 m = x \<and> original_v6 m = y"
proof -
  let ?m = "new_route_manager\<lparr>original_v4 := x\<rparr>"
  define rest :: "(route_manager \<times> 'w, unit) eff" where "rest =
    andThen (with_self (\<lambda>m. for_each (\<lambda>bypass. on_world (apply_route run ''replace'' bypass
               (selected_original_route bypass (original_v4 m) (original_v6 m)))) (bypass_routes plan))) (\<lambda>_.
    andThen (on_self (\<lambda>m. m\<lparr>installed_bypass := bypass_routes plan\<rparr>)) (\<lambda>_.
    for_each (\<lambda>route. on_world (switch_default run dev route)) (tunnel_routes plan)))"
  have rest: "keeps (\<lambda>(m, w). original_v4 m = a \<and> original_v6 m = b) rest" for a b
    unfolding rest_def by (intro keeps_intros) simp
  have "route_apply (Some run) dev plan (new_route_manager, w) =
      andThen (discover_once run True original_v6 (\<lambda>r m. m\<lparr>original_v6 := r\<rparr>)) (\<lambda>_. rest) (?m, w4)"
    using assms(1,3) by (simp add: route_apply_def rest_def andThen_def discover_once_def eff_simps new_route_manager_def)
  then have "rest (?m\<lparr>original_v6 := y\<rparr>, w6) = (r, (m, w'))"
    using assms(2,4) by (simp add: andThen_def discover_once_def eff_simps new_route_manager_def)
  from keepsD[OF rest _ this, of x y] show ?thesis by simp
qed

text \<open>C7: Cleanup undoes Apply. A new manager's \<open>Apply\<close> asks \<open>ip\<close> for the default routes; whether it
  then succeeds or fails, and whatever happens to the tables before \<open>Cleanup\<close>, a successful \<open>Cleanup\<close>
  leaves in each family's slot the gateway and the device of the default route that was shown before the
  \<open>Apply\<close>, provided one was shown and with a device, and no bypass to remove. The hypotheses are \<open>ip\<close>'s
  documented behaviour for the commands the code issues: \<open>replace default\<close> with the gateway and the
  device of a route \<open>ip\<close> printed sets that entry, and a \<open>-6\<close> command leaves the IPv4 table alone. Other
  attributes of the shown route, like its metric, are not restored: the code does not read them.\<close>

theorem route_cleanup_restores:
  assumes "ip_replaces run False slot4" "ip_replaces run True slot6" "ip6_leaves run slot4"
    and "dev \<noteq> ''''"
    and "discover_default_route run False w = (Inr shown4, w4)"
    and "discover_default_route run True w4 = (Inr shown6, w6)"
    and "route_apply (Some run) dev plan (new_route_manager, w) = (r, (m, w1))"
    and "route_cleanup (Some run) (m, w2) = (Inr (), (m', w3))"
  shows "(\<forall>route. shown4 = Some route \<longrightarrow> route_dev route \<noteq> '''' \<longrightarrow>
            slot4 w3 = Some (route_gateway route, route_dev route)) \<and>
         (\<forall>route. shown6 = Some route \<longrightarrow> route_dev route \<noteq> '''' \<longrightarrow>
            slot6 w3 = Some (route_gateway route, route_dev route)) \<and>
         installed_bypass m' = []"
proof -
  have orig: "original_v4 m = shown4" "original_v6 m = shown6"
    using route_apply_originals[OF assms(4,7,5,6)] by simp_all
  obtain u1 u2 where clean: "restore_if_known run False shown4 u1 = (Inr (), u2)"
    "restore_if_known run True shown6 u2 = (Inr (), w3)" "m' = m\<lparr>installed_bypass := []\<rparr>"
    using assms(8) orig by (auto elim: route_cleanup_Inr)
  have "slot4 w3 = Some (route_gateway route, route_dev route)" if "shown4 = Some route" "route_dev route \<noteq> ''''" for route
    using restore_sets[of run False route u1 u2 slot4] restore_leaves[OF assms(3) clean(2)] clean(1) that
      discovered_is_printed[of run False w route w4] assms(1,5) by simp
  moreover have "slot6 w3 = Some (route_gateway route, route_dev route)" if "shown6 = Some route" "route_dev route \<noteq> ''''" for route
    using restore_sets[of run True route u2 w3 slot6] clean(2) that
      discovered_is_printed[of run True w4 route w6] assms(2,6) by simp
  ultimately show ?thesis using clean(3) by simp
qed

text \<open>An \<open>ip\<close> for examples: the world is the pair of the two slots, shown while they hold what the host
  started with, and every \<open>replace default\<close> sets the slot of its family.\<close>

definition sample_default :: default_route where
  "sample_default = \<lparr>route_dst = '''', route_gateway = ''10.0.0.1'', route_dev = ''eth0''\<rparr>"

definition sample_default6 :: default_route where
  "sample_default6 = \<lparr>route_dst = '''', route_gateway = ''fe80::1'', route_dev = ''eth0''\<rparr>"

definition sample_show :: "default_route \<Rightarrow> string" where
  "sample_show route = json_marshal (JArr [JObj [(''gateway'', JStr (route_gateway route)), (''dev'', JStr (route_dev route))]])"

fun sample_entry :: "string list \<Rightarrow> (string \<times> string) option" where
  "sample_entry [_, dev] = Some ('''', dev)"
| "sample_entry [_, gateway, _, dev] = Some (gateway, dev)"
| "sample_entry _ = None"

definition sample_ip :: "((string \<times> string) option \<times> (string \<times> string) option) runner" where
  "sample_ip name args t =
     (if args = [''-j'', ''route'', ''show'', ''default'']
      then (Inr (if fst t = Some (''10.0.0.1'', ''eth0'') then sample_show sample_default else ''[]''), t)
      else if args = [''-j'', ''-6'', ''route'', ''show'', ''default'']
      then (Inr (if snd t = Some (''fe80::1'', ''eth0'') then sample_show sample_default6 else ''[]''), t)
      else if take 3 args = [''route'', ''replace'', ''default''] then (Inr '''', (sample_entry (drop 3 args), snd t))
      else if take 4 args = [''-6'', ''route'', ''replace'', ''default''] then (Inr '''', (fst t, sample_entry (drop 4 args)))
      else (Inr '''', t))"

lemma sample_show_decodes:
  "json_unmarshal (into_slice empty_route into_default_route) [] (sample_show sample_default) = Inr [sample_default]"
  "json_unmarshal (into_slice empty_route into_default_route) [] (sample_show sample_default6) = Inr [sample_default6]"
  "json_unmarshal (into_slice empty_route into_default_route) [] ''[]'' = Inr []"
proof -
  have ascii: "valid_utf8 s = s" if "list_all (\<lambda>c. (of_char c :: nat) < 0x80) s" for s
    using that by (rule valid_utf8_ascii)
  have shown: "json_parse (sample_show route @ []) =
      Some (json_valid (JArr [JObj [(''gateway'', JStr (route_gateway route)), (''dev'', JStr (route_dev route))]]))" for route
    unfolding sample_show_def by (rule json_parse_marshal) simp_all
  show "json_unmarshal (into_slice empty_route into_default_route) [] (sample_show sample_default) = Inr [sample_default]"
    using shown[of sample_default] by (simp add: json_unmarshal_def into_default_route_def ascii lookup_field_def
      lower_char_def field_def empty_route_def sample_default_def)
  show "json_unmarshal (into_slice empty_route into_default_route) [] (sample_show sample_default6) = Inr [sample_default6]"
    using shown[of sample_default6] by (simp add: json_unmarshal_def into_default_route_def ascii lookup_field_def
      lower_char_def field_def empty_route_def sample_default6_def)
  have "json_parse (json_marshal (JArr []) @ []) = Some (json_valid (JArr []))"
    by (rule json_parse_marshal) simp_all
  then show "json_unmarshal (into_slice empty_route into_default_route) [] ''[]'' = Inr []"
    by (simp add: json_unmarshal_def json_marshal_def)
qed

lemma sample_ip_prints:
  "ip_prints sample_ip v6 route \<Longrightarrow> route = (if v6 then sample_default6 else sample_default)"
  by (auto simp: ip_prints_def sample_ip_def sample_show_decodes split: if_splits)

lemma sample_ip_documented:
  "ip_replaces sample_ip False fst" "ip_replaces sample_ip True snd" "ip6_leaves sample_ip fst"
  by (auto simp: ip_replaces_def ip6_leaves_def sample_ip_def via_dev_def sample_default_def sample_default6_def
      dest!: sample_ip_prints)

lemma sample_discovers:
  "discover_default_route sample_ip False (Some (''10.0.0.1'', ''eth0''), x) =
     (Inr (Some sample_default), (Some (''10.0.0.1'', ''eth0''), x))"
  "discover_default_route sample_ip True (x, Some (''fe80::1'', ''eth0'')) =
     (Inr (Some sample_default6), (x, Some (''fe80::1'', ''eth0'')))"
  by (simp_all add: discover_default_route_def sample_ip_def sample_show_decodes eff_simps)

lemmas sample_manager_simps = andThen_def attempt_def on_world_def on_self_def with_self_def sample_ip_def
  build_plan_def

lemma route_cleanup_restores_witness:
  fixes w :: "(string \<times> string) option \<times> (string \<times> string) option"
  defines "w \<equiv> (Some (''10.0.0.1'', ''eth0''), Some (''fe80::1'', ''eth0''))"
  shows "\<exists>m m' w3. route_apply (Some sample_ip) ''wg''
       (build_plan \<lparr>stack_of = StackDual, peer_addr = Addr4 [162, 159, 192, 1]\<rparr>) (new_route_manager, w) =
       (Inr (), (m, (Some ('''', ''wg''), Some ('''', ''wg'')))) \<and>
     installed_bypass m = [NetPrefix (Addr4 [162, 159, 192, 1]) 32] \<and>
     route_cleanup (Some sample_ip) (m, (Some ('''', ''wg''), Some ('''', ''wg''))) = (Inr (), (m', w3)) \<and>
     installed_bypass m' = [] \<and> fst w3 = Some (''10.0.0.1'', ''eth0'') \<and> snd w3 = Some (''fe80::1'', ''eth0'')"
proof -
  let ?plan = "build_plan \<lparr>stack_of = StackDual, peer_addr = Addr4 [162, 159, 192, 1]\<rparr>"
  let ?m = "\<lparr>original_v4 = Some sample_default, original_v6 = Some sample_default6,
    installed_bypass = [NetPrefix (Addr4 [162, 159, 192, 1]) 32]\<rparr>"
  let ?t = "(Some ('''', ''wg''), Some ('''', ''wg'')) :: (string \<times> string) option \<times> (string \<times> string) option"
  have run: "route_apply (Some sample_ip) ''wg'' ?plan (new_route_manager, w) = (Inr (), (?m, ?t))"
    by (simp add: route_apply_def discover_once_def w_def sample_discovers sample_manager_simps
        new_route_manager_def apply_route_def selected_original_route_def switch_default_def
        default_route_v4_def default_route_v6_def)
  obtain m' w3 where clean: "route_cleanup (Some sample_ip) (?m, ?t) = (Inr (), (m', w3))"
    by (simp add: route_cleanup_def delete_route_def restore_if_known_def restore_default_route_def sample_manager_simps)
  have "fst w3 = Some (''10.0.0.1'', ''eth0'') \<and> snd w3 = Some (''fe80::1'', ''eth0'') \<and> installed_bypass m' = []"
    using route_cleanup_restores[OF sample_ip_documented _ sample_discovers(1) sample_discovers(2) run[unfolded w_def] clean]
    by (simp add: sample_default_def sample_default6_def)
  with run clean show ?thesis
    by (intro exI[of _ ?m] exI[of _ m'] exI[of _ w3]) simp
qed

section \<open>The order of the commands\<close>

definition show_command :: "bool \<Rightarrow> command" where
  "show_command v6 = (''ip'', [''-j''] @ (if v6 then [''-6''] else []) @ [''route'', ''show'', ''default''])"

definition bypass_command :: "route_manager \<Rightarrow> prefix4or6 \<Rightarrow> command" where
  "bypass_command m pfx = (''ip'', (if addr_is6 (prefix_addr pfx) then [''-6''] else []) @ [''route'', ''replace'', prefix_string pfx]
     @ via_dev (the (selected_original_route pfx (original_v4 m) (original_v6 m))))"

definition switch_command :: "string \<Rightarrow> prefix4or6 \<Rightarrow> command" where
  "switch_command dev route = (''ip'', (if addr_is6 (prefix_addr route) then [''-6''] else [])
     @ [''route'', ''replace'', ''default'', ''dev'', dev])"

lemma discover_once_logged:
  assumes "discover_once logged_run v6 get put (m, w) = (r, (m', w'))"
  shows "\<exists>s. cmd_log w' = cmd_log w @ s \<and> set s \<subseteq> {show_command v6}"
proof (cases "get m = None")
  case True
  have "issues (discover_default_route logged_run v6) [show_command v6]"
    unfolding discover_default_route_def show_command_def
    by (rule issues_attempt_run) (auto intro: issues_intros split: sum.split list.split)
  moreover obtain r1 w1 where "discover_default_route logged_run v6 w = (r1, w1)" by (metis prod.collapse)
  ultimately obtain ys where "prefix ys [show_command v6]" "cmd_log w1 = cmd_log w @ ys" "w' = w1"
    using assms True issuesD(2) by (fastforce simp: discover_once_iff split: sum.splits)
  then show ?thesis by (auto dest!: set_mono_prefix)
next
  case False
  with assms show ?thesis by (auto simp: discover_once_iff)
qed

lemma issues_bypass:
  "issues (for_each (\<lambda>pfx. apply_route logged_run ''replace'' pfx (selected_original_route pfx (original_v4 m) (original_v6 m))) ps)
     (map (bypass_command m) ps)"
proof (rule issues_for_each)
  fix pfx
  show "issues (apply_route logged_run ''replace'' pfx (selected_original_route pfx (original_v4 m) (original_v6 m)))
      [bypass_command m pfx]"
    by (auto simp: apply_route_def bypass_command_def issues_fail issues_run_ret split: option.split)
qed

lemma issues_switch: "issues (for_each (switch_default logged_run dev) rs) (map (switch_command dev) rs)"
proof (rule issues_for_each)
  fix route
  show "issues (switch_default logged_run dev route) [switch_command dev route]"
    unfolding switch_default_def switch_command_def by (rule issues_run_ret)
qed

text \<open>What an \<open>Apply\<close> did, stage by stage: the two discoveries, the bypass routes, the default routes.\<close>

lemma route_apply_logged:
  assumes "route_apply (Some logged_run) dev plan (m0, w) = (r, (m, w'))" "dev \<noteq> ''''"
  obtains r1 m1 w1 s1 r2 m2 w2 s2 r3 w3 b r4 w4 c where
    "cmd_log w1 = cmd_log w @ s1" "set s1 \<subseteq> {show_command False}"
    "cmd_log w2 = cmd_log w1 @ s2" "set s2 \<subseteq> {show_command True}"
    "prefix b (map (bypass_command m2) (bypass_routes plan))" "cmd_log w3 = cmd_log w2 @ b"
    "(\<exists>x. r3 = Inr x) \<longrightarrow> b = map (bypass_command m2) (bypass_routes plan)"
    "prefix c (map (switch_command dev) (tunnel_routes plan))" "cmd_log w4 = cmd_log w3 @ c"
    "(\<exists>x. r4 = Inr x) \<longrightarrow> c = map (switch_command dev) (tunnel_routes plan)"
    "(r, (m, w')) =
      (case r1 of Inl e \<Rightarrow> (Inl e, (m1, w1)) | Inr (_ :: unit) \<Rightarrow>
       case r2 of Inl e \<Rightarrow> (Inl e, (m2, w2)) | Inr (_ :: unit) \<Rightarrow>
       case r3 of Inl e \<Rightarrow> (Inl e, (m2, w3)) | Inr (_ :: unit) \<Rightarrow> (r4, (m2\<lparr>installed_bypass := bypass_routes plan\<rparr>, w4)))"
proof -
  obtain r1 m1 w1 where p1: "discover_once logged_run False original_v4 (\<lambda>r m. m\<lparr>original_v4 := r\<rparr>) (m0, w) = (r1, (m1, w1))"
    by (metis prod.collapse)
  obtain r2 m2 w2 where p2: "discover_once logged_run True original_v6 (\<lambda>r m. m\<lparr>original_v6 := r\<rparr>) (m1, w1) = (r2, (m2, w2))"
    by (metis prod.collapse)
  let ?bypass = "for_each (\<lambda>pfx. apply_route logged_run ''replace'' pfx
    (selected_original_route pfx (original_v4 m2) (original_v6 m2))) (bypass_routes plan)"
  obtain r3 w3 where p3: "?bypass w2 = (r3, w3)" by (cases "?bypass w2")
  obtain r4 w4 where p4: "for_each (switch_default logged_run dev) (tunnel_routes plan) w3 = (r4, w4)"
    by (cases "for_each (switch_default logged_run dev) (tunnel_routes plan) w3")
  obtain s1 s2 where s: "cmd_log w1 = cmd_log w @ s1" "set s1 \<subseteq> {show_command False}"
    "cmd_log w2 = cmd_log w1 @ s2" "set s2 \<subseteq> {show_command True}"
    using discover_once_logged[OF p1] discover_once_logged[OF p2] by blast
  obtain b where b: "prefix b (map (bypass_command m2) (bypass_routes plan))" "cmd_log w3 = cmd_log w2 @ b"
    "(\<exists>x. r3 = Inr x) \<longrightarrow> b = map (bypass_command m2) (bypass_routes plan)"
    using issuesD(2)[OF issues_bypass p3] by blast
  obtain c where c: "prefix c (map (switch_command dev) (tunnel_routes plan))" "cmd_log w4 = cmd_log w3 @ c"
    "(\<exists>x. r4 = Inr x) \<longrightarrow> c = map (switch_command dev) (tunnel_routes plan)"
    using issuesD(2)[OF issues_switch p4] by blast
  have "(r, (m, w')) =
      (case r1 of Inl e \<Rightarrow> (Inl e, (m1, w1)) | Inr _ \<Rightarrow>
       case r2 of Inl e \<Rightarrow> (Inl e, (m2, w2)) | Inr _ \<Rightarrow>
       case r3 of Inl e \<Rightarrow> (Inl e, (m2, w3)) | Inr _ \<Rightarrow> (r4, (m2\<lparr>installed_bypass := bypass_routes plan\<rparr>, w4)))"
    using assms(2) p1 p2 p3 p4 unfolding assms(1)[symmetric] route_apply_def for_each_on_world
    by (simp add: andThen_def on_world_def on_self_def with_self_def split: sum.split)
  from that[OF s b c this] show ?thesis .
qed

text \<open>C16: The default route moves last: an \<open>Apply\<close> first asks for the default routes, then installs the
  bypass routes in order, and only when all of them are in place and recorded for \<open>Cleanup\<close> does it
  point a default route at the tunnel; a failure stops it at that command.\<close>

theorem route_apply_order:
  assumes "route_apply (Some logged_run) dev plan (m0, w) = (r, (m, w'))"
  shows "\<exists>shown bypassed switched.
    cmd_log w' = cmd_log w @ shown @ bypassed @ switched \<and>
    set shown \<subseteq> {show_command False, show_command True} \<and>
    prefix bypassed (map (bypass_command m) (bypass_routes plan)) \<and>
    prefix switched (map (switch_command dev) (tunnel_routes plan)) \<and>
    (switched \<noteq> [] \<longrightarrow> bypassed = map (bypass_command m) (bypass_routes plan) \<and>
                     installed_bypass m = bypass_routes plan) \<and>
    (r = Inr () \<longrightarrow> switched = map (switch_command dev) (tunnel_routes plan))" (is "?goal w' m r")
proof (cases "dev = ''''")
  case True
  with assms show ?thesis by (auto simp: route_apply_def)
next
  case False
  obtain r1 m1 w1 s1 r2 m2 w2 s2 r3 w3 b r4 w4 c where
    s: "cmd_log w1 = cmd_log w @ s1" "set s1 \<subseteq> {show_command False}" "cmd_log w2 = cmd_log w1 @ s2" "set s2 \<subseteq> {show_command True}"
    and b: "prefix b (map (bypass_command m2) (bypass_routes plan))" "cmd_log w3 = cmd_log w2 @ b"
      "(\<exists>x. r3 = Inr x) \<longrightarrow> b = map (bypass_command m2) (bypass_routes plan)"
    and c: "prefix c (map (switch_command dev) (tunnel_routes plan))" "cmd_log w4 = cmd_log w3 @ c"
      "(\<exists>x. r4 = Inr x) \<longrightarrow> c = map (switch_command dev) (tunnel_routes plan)"
    and run: "(r, (m, w')) = (case r1 of Inl e \<Rightarrow> (Inl e, (m1, w1)) | Inr (_ :: unit) \<Rightarrow>
       case r2 of Inl e \<Rightarrow> (Inl e, (m2, w2)) | Inr (_ :: unit) \<Rightarrow>
       case r3 of Inl e \<Rightarrow> (Inl e, (m2, w3)) | Inr (_ :: unit) \<Rightarrow> (r4, (m2\<lparr>installed_bypass := bypass_routes plan\<rparr>, w4)))"
    by (rule route_apply_logged[OF assms False])
  consider "\<exists>e. r1 = Inl e" | "\<exists>e. r1 = Inr () \<and> r2 = Inl e" | "\<exists>e. r1 = Inr () \<and> r2 = Inr () \<and> r3 = Inl e"
    | "r1 = Inr ()" "r2 = Inr ()" "r3 = Inr ()"
    by (cases r1; cases r2; cases r3) auto
  then show ?thesis
  proof cases
    case 1
    with run have "w' = w1" "\<exists>e. r = Inl e" by auto
    with s show ?thesis by (intro exI[of _ s1] exI[of _ "[]"]) auto
  next
    case 2
    with run have "w' = w2" "\<exists>e. r = Inl e" by auto
    with s show ?thesis by (intro exI[of _ "s1 @ s2"] exI[of _ "[]"]) auto
  next
    case 3
    with run have "w' = w3" "m = m2" "\<exists>e. r = Inl e" by auto
    with s b show ?thesis by (intro exI[of _ "s1 @ s2"] exI[of _ b] exI[of _ "[]"]) auto
  next
    case 4
    with run have "w' = w4" "m = m2\<lparr>installed_bypass := bypass_routes plan\<rparr>" "r = r4" by auto
    moreover have "bypass_command (m2\<lparr>installed_bypass := x\<rparr>) = bypass_command m2" for x
      by (simp add: bypass_command_def fun_eq_iff)
    ultimately show ?thesis using 4 s b c by (intro exI[of _ "s1 @ s2"] exI[of _ b] exI[of _ c]) auto
  qed
qed

lemma route_apply_order_witness:
  fixes w defines "w \<equiv> \<lparr>files = \<lambda>_. None, history = [], faults = [], temp_names = [], temp_dir = '''', cmd_log = [],
    cmd_outcome = \<lambda>cmds. if last cmds = show_command False then Inr (sample_show sample_default) else Inr ''[]''\<rparr>"
  shows "\<exists>m w' shown. route_apply (Some logged_run) ''wg''
       (build_plan \<lparr>stack_of = Stack4, peer_addr = Addr4 [162, 159, 192, 1]\<rparr>) (new_route_manager, w) = (Inr (), (m, w')) \<and>
     cmd_log w' = shown @ [bypass_command m (NetPrefix (Addr4 [162, 159, 192, 1]) 32), switch_command ''wg'' default_route_v4] \<and>
     set shown \<subseteq> {show_command False, show_command True}"
proof -
  let ?plan = "build_plan \<lparr>stack_of = Stack4, peer_addr = Addr4 [162, 159, 192, 1]\<rparr>"
  obtain m w' where run: "route_apply (Some logged_run) ''wg'' ?plan (new_route_manager, w) = (Inr (), (m, w'))"
    by (simp add: route_apply_def discover_once_def discover_default_route_def andThen_def attempt_def on_world_def
        on_self_def with_self_def logged_run_def Let_def w_def sample_show_decodes new_route_manager_def build_plan_def
        switch_default_def show_command_def apply_route_def selected_original_route_def default_route_v4_def)
  have "\<exists>shown. cmd_log w' = shown @ [bypass_command m (NetPrefix (Addr4 [162, 159, 192, 1]) 32),
      switch_command ''wg'' default_route_v4] \<and> set shown \<subseteq> {show_command False, show_command True}"
    using route_apply_order[OF run] by (auto simp: w_def build_plan_def)
  with run show ?thesis by blast
qed

end
