(* ===== verification/Wg_Device.thy ===== *)
theory Wg_Device
  imports App_Config Sys_Runner GoNet
begin

text \<open>
  \<open>internal/wgdev/device.go\<close>: configuring the WireGuard interface with \<open>ip\<close> and \<open>wg\<close>. The key goes to
  \<open>wg setconf\<close> through a temporary file that is removed when \<open>Apply\<close> returns.
\<close>

definition default_mtu :: int where
  "default_mtu = 1280"

record desired_config =
  if_name :: string
  if_stack :: stack_mode
  if_private_key :: string
  address_v4 :: string
  address_v6 :: string
  if_peer_key :: string
  if_endpoint :: string
  if_mtu :: int

fun allowed_ips_for :: "stack_mode \<Rightarrow> prefix4or6 list" where
  "allowed_ips_for Stack4 = [NetPrefix (Addr4 [0, 0, 0, 0]) 0]"
| "allowed_ips_for Stack6 = [NetPrefix (Addr6 (replicate 16 0) []) 0]"
| "allowed_ips_for StackDual = [NetPrefix (Addr4 [0, 0, 0, 0]) 0, NetPrefix (Addr6 (replicate 16 0) []) 0]"

definition interface_addresses :: "desired_config \<Rightarrow> string list" where
  "interface_addresses d =
     (let v4 = (if address_v4 d = '''' then [] else [address_v4 d @ ''/32'']);
          v6 = (if address_v6 d = '''' then [] else [address_v6 d @ ''/128''])
      in case if_stack d of Stack4 \<Rightarrow> v4 | Stack6 \<Rightarrow> v6 | StackDual \<Rightarrow> v4 @ v6)"

definition validate_desired_config :: "desired_config \<Rightarrow> go_error option" where
  "validate_desired_config d =
     (if if_name d = '''' then Some (errorf ''interface name is required'')
      else if if_private_key d = '''' then Some (errorf ''private key is required'')
      else if if_peer_key d = '''' then Some (errorf ''peer public key is required'')
      else if if_endpoint d = '''' then Some (errorf ''peer endpoint is required'')
      else if interface_addresses d = [] then Some (errorf ''at least one interface address is required'')
      else None)"

definition set_conf_text :: "desired_config \<Rightarrow> string" where
  "set_conf_text d =
     ''[Interface]'' @ [CHR 0x0A] @ ''PrivateKey = '' @ if_private_key d @ [CHR 0x0A] @
     ''[Peer]'' @ [CHR 0x0A] @ ''PublicKey = '' @ if_peer_key d @ [CHR 0x0A] @
     ''AllowedIPs = '' @ str_join '', '' (map prefix_string (allowed_ips_for (if_stack d))) @ [CHR 0x0A] @
     ''Endpoint = '' @ if_endpoint d @ [CHR 0x0A]"

text \<open>The file is closed (\<open>defer\<close>, its error ignored) however the function returns, but only \<open>Apply\<close>
  removes it, and only once \<open>writeSetConf\<close> has succeeded.\<close>

definition write_set_conf :: "desired_config \<Rightarrow> ('a disk_scheme, string) eff" where
  "write_set_conf d =
     andThen (wrapping ''create wireguard config'' (os_create_temp '''' (path_base (if_name d) @ ''-'') ''.conf'')) (\<lambda>tmp.
     attempt (andThen (wrapping ''chmod wireguard config'' (os_chmod tmp 0x180)) (\<lambda>_.
              wrapping ''write wireguard config'' (os_write tmp (set_conf_text d)))) (\<lambda>r.
     andThen (ignoring (os_close tmp)) (\<lambda>_.
     case r of Inl e \<Rightarrow> fail e | Inr _ \<Rightarrow> ret tmp)))"

definition wg_delete :: "'w runner option \<Rightarrow> string \<Rightarrow> ('w, unit) eff" where
  "wg_delete runner name =
     (case runner of
        None \<Rightarrow> fail (errorf ''runner is required'')
      | Some run \<Rightarrow>
          if name = '''' then fail (errorf ''interface name is required'')
          else attempt (run ''ip'' [''link'', ''del'', ''dev'', name]) (\<lambda>r.
          case r of
            Inl e \<Rightarrow> if str_contains (error_text e) ''Cannot find device'' \<or> str_contains (error_text e) ''does not exist''
                     then ret () else fail e
          | Inr _ \<Rightarrow> ret ()))"

definition add_address :: "'w runner \<Rightarrow> string \<Rightarrow> string \<Rightarrow> ('w, unit) eff" where
  "add_address run name address =
     andThen (run ''ip'' ((if str_contains address '':'' then [''-6''] else []) @ [''address'', ''add'', address, ''dev'', name]))
       (\<lambda>_. ret ())"

definition wg_configure :: "'w runner \<Rightarrow> desired_config \<Rightarrow> string \<Rightarrow> ('w, unit) eff" where
  "wg_configure run d conf =
     andThen (run ''wg'' [''setconf'', if_name d, conf]) (\<lambda>_.
     andThen (for_each (add_address run (if_name d)) (interface_addresses d)) (\<lambda>_.
     let mtu = (if if_mtu d = 0 then default_mtu else if_mtu d) in
     andThen (run ''ip'' [''link'', ''set'', ''dev'', if_name d, ''mtu'', itoa mtu, ''up'']) (\<lambda>_. ret ())))"

definition wg_apply :: "'a disk_scheme runner option \<Rightarrow> desired_config \<Rightarrow> ('a disk_scheme, unit) eff" where
  "wg_apply runner d =
     (case runner of
        None \<Rightarrow> fail (errorf ''runner is required'')
      | Some run \<Rightarrow>
          (case validate_desired_config d of
             Some e \<Rightarrow> fail e
           | None \<Rightarrow>
               andThen (wg_delete runner (if_name d)) (\<lambda>_.
               andThen (run ''ip'' [''link'', ''add'', ''dev'', if_name d, ''type'', ''wireguard'']) (\<lambda>_.
               andThen (write_set_conf d) (\<lambda>conf.
               attempt (wg_configure run d conf) (\<lambda>r.
               andThen (ignoring (os_remove conf)) (\<lambda>_.
               case r of Inl e \<Rightarrow> fail e | Inr _ \<Rightarrow> ret ())))))))"

section \<open>The commands of an Apply\<close>

definition wg_commands :: "desired_config \<Rightarrow> string \<Rightarrow> command list" where
  "wg_commands d conf =
     [(''ip'', [''link'', ''del'', ''dev'', if_name d]),
      (''ip'', [''link'', ''add'', ''dev'', if_name d, ''type'', ''wireguard'']),
      (''wg'', [''setconf'', if_name d, conf])] @
     map (\<lambda>a. (''ip'', (if str_contains a '':'' then [''-6''] else []) @ [''address'', ''add'', a, ''dev'', if_name d]))
       (interface_addresses d) @
     [(''ip'', [''link'', ''set'', ''dev'', if_name d, ''mtu'', itoa (if if_mtu d = 0 then default_mtu else if_mtu d), ''up''])]"

lemma issues_quiet:
  assumes "\<And>w. cmd_log (snd (m w)) = cmd_log w \<and> cmd_outcome (snd (m w)) = cmd_outcome w"
  shows "issues m []"
  unfolding issues_def using assms by (metis append_Nil2 prefix_order.refl snd_conv)

lemma os_call_quiet:
  fixes m :: "('a cmd_world_scheme, 'b) eff"
  assumes "\<And>w. cmd_log (snd (m w)) = cmd_log w \<and> cmd_outcome (snd (m w)) = cmd_outcome w"
  shows "cmd_log (snd (os_call m w)) = cmd_log w \<and> cmd_outcome (snd (os_call m w)) = cmd_outcome w"
  using assms by (auto simp: os_call_def pop_fault_def split: list.split fault.split)

lemma issues_os [issues_intros]:
  "issues (os_create_temp dir pre suf) []" "issues (os_chmod p m) []" "issues (os_close p) []" "issues (os_remove p) []"
  unfolding os_create_temp_def os_chmod_def os_close_def os_remove_def
  by (rule issues_quiet, rule os_call_quiet, simp add: set_file_def Let_def split: option.split)+

lemma issues_write [issues_intros]: "issues (os_write p t) []"
  by (rule issues_quiet)
     (auto simp: os_write_def pop_fault_def append_file_def set_file_def split: list.split fault.split option.split)

lemma issues_ignoring [issues_intros]:
  assumes "issues m []"
  shows "issues (ignoring m) []"
proof (rule issues_quiet)
  fix w
  obtain r w' where "m w = (r, w')" by (cases "m w")
  from this issuesD[OF assms this]
  show "cmd_log (snd (ignoring m w)) = cmd_log w \<and> cmd_outcome (snd (ignoring m w)) = cmd_outcome w"
    by (simp add: ignoring_def)
qed

lemma issues_finally:
  assumes "issues m cs" "issues k []"
  shows "issues (attempt m (\<lambda>r. andThen (ignoring k) (\<lambda>_. case r of Inl e \<Rightarrow> fail e | Inr _ \<Rightarrow> ret x))) cs"
  unfolding issues_def
proof (intro allI impI)
  fix w r w'
  assume run: "attempt m (\<lambda>r. andThen (ignoring k) (\<lambda>_. case r of Inl e \<Rightarrow> fail e | Inr _ \<Rightarrow> ret x)) w = (r, w')"
  obtain r1 w1 where m: "m w = (r1, w1)" by (cases "m w")
  obtain r2 w2 where k: "ignoring k w1 = (r2, w2)" by (cases "ignoring k w1")
  then have "r2 = Inr ()" by (simp add: ignoring_def)
  then have "w' = w2" "(\<exists>x. r = Inr x) = (\<exists>x. r1 = Inr x)"
    using run m k by (auto split: sum.splits)
  then show "cmd_outcome w' = cmd_outcome w \<and>
     (\<exists>ys. prefix ys cs \<and> cmd_log w' = cmd_log w @ ys \<and> ((\<exists>x. r = Inr x) \<longrightarrow> ys = cs))"
    using issuesD[OF assms(1) m] issuesD[OF issues_ignoring[OF assms(2)] k] by auto
qed

lemma issues_attempt_quiet:
  "issues m [] \<Longrightarrow> (\<And>r. issues (f r) cs) \<Longrightarrow> issues (attempt m f) cs"
  by (fastforce simp: issues_def attempt_def split: prod.splits)

lemma issues_nil_andThen: "issues m [] \<Longrightarrow> (\<And>x. issues (f x) cs) \<Longrightarrow> issues (andThen m f) cs"
  using issues_andThen[of m "[]" f cs] by simp

lemma issues_write_set_conf: "issues (write_set_conf d) []"
  unfolding write_set_conf_def
  by (intro issues_nil_andThen issues_attempt_quiet issues_intros)
     (auto intro: issues_intros split: sum.split)

lemma issues_wg_delete:
  "name \<noteq> '''' \<Longrightarrow> issues (wg_delete (Some logged_run) name) [(''ip'', [''link'', ''del'', ''dev'', name])]"
  unfolding wg_delete_def by (auto intro!: issues_attempt_run intro: issues_intros split: sum.split)

lemma issues_configure:
  "issues (wg_configure logged_run d conf) (drop 2 (wg_commands d conf))"
proof -
  have add: "issues (add_address logged_run name a)
      [(''ip'', (if str_contains a '':'' then [''-6''] else []) @ [''address'', ''add'', a, ''dev'', name])]" for name a
    unfolding add_address_def by (rule issues_run_ret)
  have "drop 2 (wg_commands d conf) = [(''wg'', [''setconf'', if_name d, conf])] @
     (map (\<lambda>a. (''ip'', (if str_contains a '':'' then [''-6''] else []) @ [''address'', ''add'', a, ''dev'', if_name d]))
       (interface_addresses d) @
     [(''ip'', [''link'', ''set'', ''dev'', if_name d, ''mtu'', itoa (if if_mtu d = 0 then default_mtu else if_mtu d), ''up''])])"
    by (simp add: wg_commands_def)
  then show ?thesis
    unfolding wg_configure_def Let_def
    by (simp only:) (intro issues_andThen issues_run issues_for_each add issues_run_ret)
qed

lemma wg_apply_issues:
  fixes w :: "'a cmd_world_scheme"
  assumes None: "validate_desired_config d = None" and "wg_apply (Some logged_run) d w = (r, w')"
  shows "\<exists>conf ys. prefix ys (wg_commands d conf) \<and> cmd_log w' = cmd_log w @ ys \<and>
    (r = Inr () \<longrightarrow> ys = wg_commands d conf)"
proof -
  from None have name: "if_name d \<noteq> ''''" by (auto simp: validate_desired_config_def split: if_splits)
  define prep :: "('a cmd_world_scheme, string) eff" where "prep = andThen (wg_delete (Some logged_run) (if_name d)) (\<lambda>_.
     andThen (logged_run ''ip'' [''link'', ''add'', ''dev'', if_name d, ''type'', ''wireguard'']) (\<lambda>_. write_set_conf d))"
  define work :: "string \<Rightarrow> ('a cmd_world_scheme, unit) eff" where "work = (\<lambda>conf. attempt (wg_configure logged_run d conf) (\<lambda>r.
     andThen (ignoring (os_remove conf)) (\<lambda>_. case r of Inl e \<Rightarrow> fail e | Inr _ \<Rightarrow> ret ())))"
  have "issues prep ([(''ip'', [''link'', ''del'', ''dev'', if_name d])] @
      [(''ip'', [''link'', ''add'', ''dev'', if_name d, ''type'', ''wireguard''])] @ [])"
    unfolding prep_def by (intro issues_andThen issues_wg_delete issues_run issues_write_set_conf name)
  then have prep: "issues prep (take 2 (wg_commands d conf))" for conf by (simp add: wg_commands_def)
  have work: "issues (work conf) (drop 2 (wg_commands d conf))" for conf
    unfolding work_def by (intro issues_finally issues_configure issues_intros)
  have run: "andThen prep work w = (r, w')"
    using assms by (simp add: wg_apply_def prep_def work_def andThen_assoc)
  obtain r1 w1 where s: "prep w = (r1, w1)" by (cases "prep w")
  show ?thesis
  proof (cases r1)
    case (Inl e)
    then show ?thesis using run s None issuesD(2)[OF prep s, of "''''"] take_is_prefix[of 2 "wg_commands d ''''"]
      by (auto intro: prefix_order.trans)
  next
    case (Inr conf)
    then have "work conf w1 = (r, w')" using run s by simp
    from issuesD(2)[OF work this] obtain ys where ys: "prefix ys (drop 2 (wg_commands d conf))"
      "cmd_log w' = cmd_log w1 @ ys" "(\<exists>x. r = Inr x) \<longrightarrow> ys = drop 2 (wg_commands d conf)" by blast
    moreover have "cmd_log w1 = cmd_log w @ take 2 (wg_commands d conf)"
      using issuesD(2)[OF prep s] Inr by blast
    moreover have "prefix (take 2 (wg_commands d conf) @ ys) (wg_commands d conf)"
      using ys(1) by (metis append_take_drop_id same_prefix_prefix)
    ultimately show ?thesis using None
      by (auto intro!: exI[of _ conf] exI[of _ "take 2 (wg_commands d conf) @ ys"])
  qed
qed

text \<open>C28: \<open>Apply\<close> of a configuration that does not validate fails with the validation error and touches
  nothing; otherwise it issues, in this order and stopping at the first failure, the commands that
  delete a stale interface, create it, load the key file, add the addresses of the stack mode (IPv6 ones
  with the IPv6 flag) and bring it up with the configured or default MTU; it succeeds only after all of them.\<close>

theorem wg_apply_commands:
  fixes w :: "'a cmd_world_scheme"
  assumes "wg_apply (Some logged_run) d w = (r, w')"
  shows "case validate_desired_config d of
      Some e \<Rightarrow> r = Inl e \<and> w' = w
    | None \<Rightarrow> \<exists>conf ys. prefix ys (wg_commands d conf) \<and> cmd_log w' = cmd_log w @ ys \<and>
                (r = Inr () \<longrightarrow> ys = wg_commands d conf)"
proof (cases "validate_desired_config d")
  case (Some e)
  with assms show ?thesis by (simp add: wg_apply_def)
next
  case None
  with wg_apply_issues[OF None assms] show ?thesis by simp
qed

definition sample_desired :: desired_config where
  "sample_desired = \<lparr>if_name = ''wg'', if_stack = Stack4, if_private_key = ''k'', address_v4 = ''10.0.0.2'', address_v6 = '''',
     if_peer_key = ''p'', if_endpoint = ''e:1'', if_mtu = 0\<rparr>"

definition sample_commands_world :: cmd_world where
  "sample_commands_world = \<lparr>files = \<lambda>_. None, history = [], faults = [], temp_names = [''7''], temp_dir = ''/tmp'',
     cmd_log = [], cmd_outcome = \<lambda>_. Inr ''''\<rparr>"

lemma wg_apply_commands_witness:
  "\<exists>r w' conf ys. wg_apply (Some logged_run) sample_desired sample_commands_world = (r, w') \<and>
     cmd_log w' = ys \<and> prefix ys (wg_commands sample_desired conf)"
proof -
  obtain r w' where run: "wg_apply (Some logged_run) sample_desired sample_commands_world = (r, w')"
    by (cases "wg_apply (Some logged_run) sample_desired sample_commands_world")
  have "validate_desired_config sample_desired = None"
    by (simp add: validate_desired_config_def sample_desired_def interface_addresses_def)
  with wg_apply_commands[OF run] run show ?thesis by (auto simp: sample_commands_world_def)
qed

section \<open>The key file\<close>

lemma keeps_finally:
  "keeps P m \<Longrightarrow> keeps P k \<Longrightarrow>
   keeps P (attempt m (\<lambda>r. andThen (ignoring k) (\<lambda>_. case r of Inl e \<Rightarrow> fail e | Inr _ \<Rightarrow> ret x)))"
  by (intro keeps_intros)

lemma keeps_wg_delete: "(\<And>n a. keeps P (run n a)) \<Longrightarrow> keeps P (wg_delete (Some run) name)"
  unfolding wg_delete_def by (auto intro!: keeps_intros)

lemma keeps_wg_configure: "(\<And>n a. keeps P (run n a)) \<Longrightarrow> keeps P (wg_configure run d conf)"
  unfolding wg_configure_def add_address_def Let_def by (auto intro!: keeps_intros)

text \<open>C32: The private key does not stay on disk: if the commands leave the files alone and no file call
  fails, the files after \<open>Apply\<close> are those before it, whether or not the commands succeed.\<close>

theorem wg_key_file_removed:
  fixes run :: "'a disk_scheme runner"
  assumes "\<And>name args F. keeps (\<lambda>d. files d = F \<and> faults d = []) (run name args)" and "faults w = []"
  shows "files (snd (wg_apply (Some run) d w)) = files w"
proof (cases "validate_desired_config d")
  case (Some e)
  then show ?thesis by (simp add: wg_apply_def)
next
  case None
  let ?add = "run ''ip'' [''link'', ''add'', ''dev'', if_name d, ''type'', ''wireguard'']"
  obtain r1 w1 where del: "wg_delete (Some run) (if_name d) w = (r1, w1)" by (cases "wg_delete (Some run) (if_name d) w")
  have q1: "files w1 = files w \<and> faults w1 = []"
    using keepsD[OF keeps_wg_delete[OF assms(1)] _ del, of "files w"] assms(2) by simp
  obtain r2 w2 where add: "?add w1 = (r2, w2)" by (cases "?add w1")
  have q2: "files w2 = files w \<and> faults w2 = []"
    using keepsD[OF assms(1) _ add, of "files w"] q1 by simp
  obtain r3 w3 where wr: "write_set_conf d w2 = (r3, w3)" by (cases "write_set_conf d w2")
  have q3: "case r3 of Inl _ \<Rightarrow> files w3 = files w
      | Inr conf \<Rightarrow> faults w3 = [] \<and> files w conf = None \<and> (\<exists>f. files w3 = (files w)(conf \<mapsto> f))"
    using wr q2
    by (auto simp: write_set_conf_def os_create_temp_def os_call_def pop_fault_def os_chmod_def os_write_def os_close_def
        set_file_def append_file_def andThen_def attempt_def wrapping_def ignoring_def Let_def find_Some_iff
        split: option.splits)
  have fin: "files (snd (attempt (wg_configure run d conf) (\<lambda>r. andThen (ignoring (os_remove conf))
      (\<lambda>_. case r of Inl e \<Rightarrow> fail e | Inr _ \<Rightarrow> ret ())) w3)) = files w" if "r3 = Inr conf" for conf
  proof -
    obtain f where f: "faults w3 = []" "files w conf = None" "files w3 = (files w)(conf \<mapsto> f)" using q3 \<open>r3 = Inr conf\<close> by auto
    obtain r4 w4 where cfg: "wg_configure run d conf w3 = (r4, w4)" by (cases "wg_configure run d conf w3")
    have "files w4 = files w3 \<and> faults w4 = []"
      using keepsD[OF keeps_wg_configure[OF assms(1)] _ cfg, of "files w3"] f by simp
    with cfg f show ?thesis
      by (auto simp: attempt_def andThen_def ignoring_def os_remove_def os_call_def pop_fault_def set_file_def split: sum.split)
  qed
  show ?thesis
    using None del add wr q1 q2 q3 fin
    by (cases r1; cases r2; cases r3) (simp_all add: wg_apply_def)
qed

lemma wg_key_file_removed_witness:
  "files (snd (wg_apply (Some logged_run) sample_desired sample_commands_world)) = files sample_commands_world"
  by (rule wg_key_file_removed)
     (simp_all add: keeps_def logged_run_def Let_def sample_commands_world_def)

text \<open>But a failed write leaves it there: if the temporary file can be created and secured but writing
  to it fails after \<open>n\<close> bytes, the configuration is refused and the file stays behind with the bytes
  written so far.\<close>

theorem wg_key_file_left_on_write_error:
  assumes "faults w = NoFault # NoFault # Fault e n # fs" "temp_names w = r # rs"
    "tmp = temp_path (temp_dir w) (path_base (if_name d) @ ''-'') ''.conf'' r" "files w tmp = None"
  shows "\<exists>w'. write_set_conf d w = (Inl (wrap ''write wireguard config'' e), w') \<and>
    files w' tmp = Some \<lparr>content = take n (set_conf_text d), file_mode = 0x180\<rparr>"
  using assms
  by (cases fs; cases "hd fs")
     (auto simp: write_set_conf_def os_create_temp_def os_call_def pop_fault_def os_chmod_def os_write_def os_close_def
        set_file_def append_file_def andThen_def attempt_def wrapping_def ignoring_def Let_def split: list.split fault.split)

lemma wg_key_file_left_on_write_error_witness:
  "\<exists>w'. write_set_conf sample_desired (sample_commands_world\<lparr>faults := [NoFault, NoFault, Fault (errorf ''disk full'') 40]\<rparr>)
      = (Inl (wrap ''write wireguard config'' (errorf ''disk full'')), w') \<and>
    files w' (temp_path ''/tmp'' (path_base ''wg'' @ ''-'') ''.conf'' ''7'') \<noteq> None"
  using wg_key_file_left_on_write_error[of "sample_commands_world\<lparr>faults := [NoFault, NoFault, Fault (errorf ''disk full'') 40]\<rparr>"
      "errorf ''disk full''" 40 "[]" "''7''" "[]" _ sample_desired, OF _ _ refl]
  by (auto simp: sample_commands_world_def sample_desired_def)

end
