(* ===== verification/Warp_Client.thy ===== *)
theory Warp_Client
  imports GoJson
begin

text \<open>
  \<open>internal/warpapi/client.go\<close>: the registration API's types and the client's four calls. Sending a
  request (\<open>http.Client.Do\<close>) and the URL check of \<open>http.NewRequestWithContext\<close> are parameters; header
  names are in canonical form, and a response is its status and the bytes of its body.
\<close>

record registration_input =
  fcm_token :: string
  install_id :: string
  reg_key :: string
  locale_name :: string
  reg_model :: string
  tos :: string
  reg_type :: string

record endpoint =
  ep_host :: string
  ep_v4 :: string
  ep_v6 :: string
  ep_ports :: "int list"

record peer =
  peer_ep :: endpoint
  peer_key :: string

record device =
  dev_id :: string
  dev_token :: string
  dev_key :: string
  key_type :: string
  tunnel_type :: string
  dev_created :: string
  dev_updated :: string
  dev_warp_enabled :: bool
  policy_protocol :: string
  account_license :: string
  config_client_id :: string
  config_v4 :: string
  config_v6 :: string
  config_peers :: "peer list"

definition empty_endpoint :: endpoint where
  "empty_endpoint = \<lparr>ep_host = '''', ep_v4 = '''', ep_v6 = '''', ep_ports = []\<rparr>"

definition empty_peer :: peer where
  "empty_peer = \<lparr>peer_ep = empty_endpoint, peer_key = ''''\<rparr>"

definition empty_device :: device where
  "empty_device = \<lparr>dev_id = '''', dev_token = '''', dev_key = '''', key_type = '''', tunnel_type = '''', dev_created = '''',
     dev_updated = '''', dev_warp_enabled = False, policy_protocol = '''', account_license = '''', config_client_id = '''',
     config_v4 = '''', config_v6 = '''', config_peers = []\<rparr>"

definition registration_json :: "registration_input \<Rightarrow> json" where
  "registration_json i = JObj
     [(''fcm_token'', JStr (fcm_token i)), (''install_id'', JStr (install_id i)), (''key'', JStr (reg_key i)),
      (''locale'', JStr (locale_name i)), (''model'', JStr (reg_model i)), (''tos'', JStr (tos i)),
      (''type'', JStr (reg_type i))]"

definition into_endpoint :: "endpoint decoder" where
  "into_endpoint = into_struct
     [(''host'', field ep_host (\<lambda>x r. r\<lparr>ep_host := x\<rparr>) into_string),
      (''v4'', field ep_v4 (\<lambda>x r. r\<lparr>ep_v4 := x\<rparr>) into_string),
      (''v6'', field ep_v6 (\<lambda>x r. r\<lparr>ep_v6 := x\<rparr>) into_string),
      (''ports'', field ep_ports (\<lambda>x r. r\<lparr>ep_ports := x\<rparr>) (into_slice 0 into_int))]"

definition into_peer :: "peer decoder" where
  "into_peer = into_struct
     [(''endpoint'', field peer_ep (\<lambda>x r. r\<lparr>peer_ep := x\<rparr>) into_endpoint),
      (''public_key'', field peer_key (\<lambda>x r. r\<lparr>peer_key := x\<rparr>) into_string)]"

text \<open>The nested structs \<open>Policy\<close>, \<open>Account\<close> and \<open>DeviceConfig\<close> are flattened into the device's record.\<close>

definition into_device :: "device decoder" where
  "into_device = into_struct
     [(''id'', field dev_id (\<lambda>x r. r\<lparr>dev_id := x\<rparr>) into_string),
      (''token'', field dev_token (\<lambda>x r. r\<lparr>dev_token := x\<rparr>) into_string),
      (''key'', field dev_key (\<lambda>x r. r\<lparr>dev_key := x\<rparr>) into_string),
      (''key_type'', field key_type (\<lambda>x r. r\<lparr>key_type := x\<rparr>) into_string),
      (''tunnel_type'', field tunnel_type (\<lambda>x r. r\<lparr>tunnel_type := x\<rparr>) into_string),
      (''created'', field dev_created (\<lambda>x r. r\<lparr>dev_created := x\<rparr>) into_string),
      (''updated'', field dev_updated (\<lambda>x r. r\<lparr>dev_updated := x\<rparr>) into_string),
      (''warp_enabled'', field dev_warp_enabled (\<lambda>x r. r\<lparr>dev_warp_enabled := x\<rparr>) into_bool),
      (''policy'', into_struct [(''tunnel_protocol'', field policy_protocol (\<lambda>x r. r\<lparr>policy_protocol := x\<rparr>) into_string)]),
      (''account'', into_struct [(''license'', field account_license (\<lambda>x r. r\<lparr>account_license := x\<rparr>) into_string)]),
      (''config'', into_struct
         [(''client_id'', field config_client_id (\<lambda>x r. r\<lparr>config_client_id := x\<rparr>) into_string),
          (''interface'', into_struct [(''addresses'', into_struct
             [(''v4'', field config_v4 (\<lambda>x r. r\<lparr>config_v4 := x\<rparr>) into_string),
              (''v6'', field config_v6 (\<lambda>x r. r\<lparr>config_v6 := x\<rparr>) into_string)])]),
          (''peers'', field config_peers (\<lambda>x r. r\<lparr>config_peers := x\<rparr>) (into_slice empty_peer into_peer))])]"

section \<open>Requests\<close>

record http_request =
  req_method :: string
  req_url :: string
  req_headers :: "string \<Rightarrow> string option"
  req_body :: string

record 'w http_env =
  bad_url :: "string \<Rightarrow> go_error option"
  http_do :: "http_request \<Rightarrow> ('w, nat \<times> string) eff"

definition new_request :: "'w http_env \<Rightarrow> string \<Rightarrow> string \<Rightarrow> string \<Rightarrow> ('w, http_request) eff" where
  "new_request env meth url body =
     (case bad_url env url of
        Some e \<Rightarrow> fail (wrap ''create request'' e)
      | None \<Rightarrow> ret \<lparr>req_method = meth, req_url = url, req_headers = (\<lambda>_. None), req_body = body\<rparr>)"

definition header_set :: "string \<Rightarrow> string \<Rightarrow> http_request \<Rightarrow> http_request" where
  "header_set k v r = r\<lparr>req_headers := (req_headers r)(k := Some v)\<rparr>"

definition apply_default_headers :: "http_request \<Rightarrow> http_request" where
  "apply_default_headers r =
     header_set ''Cf-Client-Version'' ''a-6.3-1922'' (header_set ''User-Agent'' ''okhttp/3.12.1'' r)"

definition registration_base_path :: string where
  "registration_base_path = ''/v0a1922/reg''"

text \<open>A client is its base URL, without trailing slashes.\<close>

definition new_client :: "string \<Rightarrow> string" where
  "new_client base_url = trim_right_chars ''/'' base_url"

definition new_json_request :: "'w http_env \<Rightarrow> string \<Rightarrow> string \<Rightarrow> string \<Rightarrow> json \<Rightarrow> ('w, http_request) eff" where
  "new_json_request env base meth path body =
     andThen (new_request env meth (base @ path) (json_marshal body)) (\<lambda>r.
     ret (apply_default_headers (header_set ''Content-Type'' ''application/json'' r)))"

definition bearer :: "string \<Rightarrow> http_request \<Rightarrow> http_request" where
  "bearer token = header_set ''Authorization'' (''Bearer '' @ token)"

definition do_request :: "'w http_env \<Rightarrow> http_request \<Rightarrow> ('w, string) eff" where
  "do_request env r =
     andThen (wrapping ''perform request'' (http_do env r)) (\<lambda>(status, body).
     if 400 \<le> status then fail (errorf (''unexpected status code: '' @ nat_dec status)) else ret body)"

definition do_json :: "'w http_env \<Rightarrow> 'r decoder \<Rightarrow> 'r \<Rightarrow> http_request \<Rightarrow> ('w, 'r) eff" where
  "do_json env dec zero r =
     andThen (do_request env r) (\<lambda>body.
     case json_decode dec zero body of
       Inl e \<Rightarrow> fail (wrap ''decode response'' e)
     | Inr x \<Rightarrow> ret x)"

definition do_no_output :: "'w http_env \<Rightarrow> http_request \<Rightarrow> ('w, unit) eff" where
  "do_no_output env r = andThen (do_request env r) (\<lambda>_. ret ())"

definition client_register :: "'w http_env \<Rightarrow> string \<Rightarrow> registration_input \<Rightarrow> ('w, device) eff" where
  "client_register env base i =
     andThen (new_json_request env base ''POST'' registration_base_path (registration_json i)) (\<lambda>r.
     do_json env into_device empty_device r)"

definition client_get_device :: "'w http_env \<Rightarrow> string \<Rightarrow> string \<Rightarrow> string \<Rightarrow> ('w, device) eff" where
  "client_get_device env base device_id token =
     andThen (new_request env ''GET'' (base @ registration_base_path @ ''/'' @ device_id) '''') (\<lambda>r.
     do_json env into_device empty_device (apply_default_headers (bearer token r)))"

definition client_update_license :: "'w http_env \<Rightarrow> string \<Rightarrow> string \<Rightarrow> string \<Rightarrow> string \<Rightarrow> ('w, unit) eff" where
  "client_update_license env base device_id token license =
     andThen (new_json_request env base ''PUT'' (registration_base_path @ ''/'' @ device_id @ ''/account'')
        (JObj [(''license'', JStr license)])) (\<lambda>r.
     do_no_output env (bearer token r))"

definition client_set_warp_enabled :: "'w http_env \<Rightarrow> string \<Rightarrow> string \<Rightarrow> string \<Rightarrow> bool \<Rightarrow> ('w, unit) eff" where
  "client_set_warp_enabled env base device_id token enabled =
     andThen (new_json_request env base ''PATCH'' (registration_base_path @ ''/'' @ device_id)
        (JObj [(''warp_enabled'', JBool enabled)])) (\<lambda>r.
     do_no_output env (bearer token r))"

section \<open>What the client sends and accepts\<close>

text \<open>\<open>confined base auth r\<close>: the request goes below the registration path of the base URL, carries both
  identifying headers, and the authorization \<open>auth\<close> and no other.\<close>

definition confined :: "string \<Rightarrow> string option \<Rightarrow> http_request \<Rightarrow> bool" where
  "confined base auth r \<longleftrightarrow>
     prefix (base @ registration_base_path) (req_url r) \<and>
     req_headers r ''User-Agent'' = Some ''okhttp/3.12.1'' \<and>
     req_headers r ''Cf-Client-Version'' = Some ''a-6.3-1922'' \<and>
     req_headers r ''Authorization'' = auth"

lemma andThen_cong: "(\<And>x v. m w = (Inr x, v) \<Longrightarrow> f x v = g x v) \<Longrightarrow> andThen m f w = andThen m g w"
  by (auto simp: andThen_def split: prod.split sum.split)

lemma do_request_cong: "http_do e1 r w = http_do e2 r w \<Longrightarrow> do_request e1 r w = do_request e2 r w"
  by (simp add: do_request_def andThen_def wrapping_def)

lemma do_json_cong: "http_do e1 r w = http_do e2 r w \<Longrightarrow> do_json e1 dec zero r w = do_json e2 dec zero r w"
  using do_request_cong[of e1 r w e2] by (simp add: do_json_def andThen_def)

lemma do_no_output_cong: "http_do e1 r w = http_do e2 r w \<Longrightarrow> do_no_output e1 r w = do_no_output e2 r w"
  using do_request_cong[of e1 r w e2] by (simp add: do_no_output_def andThen_def)

text \<open>C33: The client talks only to its API and shows the token only there: two transports that agree on the
  requests below the registration path with the client's identifying headers and the device's bearer
  token give the same results for the three device calls, and two that agree on such requests without
  authorization give the same registration.\<close>

theorem client_requests_confined:
  assumes "bad_url e1 = bad_url e2"
    and "\<And>r w. confined base (Some (''Bearer '' @ token)) r \<Longrightarrow> http_do e1 r w = http_do e2 r w"
    and "\<And>r w. confined base None r \<Longrightarrow> http_do e1 r w = http_do e2 r w"
  shows "client_get_device e1 base dev token w = client_get_device e2 base dev token w \<and>
    client_update_license e1 base dev token license w = client_update_license e2 base dev token license w \<and>
    client_set_warp_enabled e1 base dev token on w = client_set_warp_enabled e2 base dev token on w \<and>
    client_register e1 base i w = client_register e2 base i w"
  using assms
  by (auto simp: client_get_device_def client_update_license_def client_set_warp_enabled_def client_register_def
      new_json_request_def new_request_def andThen_def ret_def fail_def bearer_def header_set_def
      apply_default_headers_def confined_def
      intro!: do_json_cong do_no_output_cong split: option.split)

definition sample_http :: "nat \<Rightarrow> string \<Rightarrow> unit http_env" where
  "sample_http status body = \<lparr>bad_url = \<lambda>_. None, http_do = \<lambda>_. ret (status, body)\<rparr>"

lemma client_requests_confined_witness:
  "client_set_warp_enabled (sample_http 200 ''x'') ''https://a'' ''d'' ''t'' True () =
   client_set_warp_enabled (sample_http 200 ''x'' \<lparr>http_do := \<lambda>r. if confined ''https://a'' (Some ''Bearer t'') r \<or>
      confined ''https://a'' None r then ret (200, ''x'') else fail (errorf ''never sent'')\<rparr>) ''https://a'' ''d'' ''t'' True ()"
  using client_requests_confined[of "sample_http 200 ''x''"
      "sample_http 200 ''x'' \<lparr>http_do := \<lambda>r. if confined ''https://a'' (Some ''Bearer t'') r \<or>
        confined ''https://a'' None r then ret (200, ''x'') else fail (errorf ''never sent'')\<rparr>" "''https://a''" "''t''"]
  by (simp add: sample_http_def)

text \<open>How a device is read from the API: a transport error, a status of 400 or more (whatever the body),
  and a body that does not start with a decodable JSON value are each an error of its own kind; otherwise
  the first JSON value of the body is decoded, and anything after it is ignored.\<close>

theorem client_get_device_outcomes:
  "fst (client_get_device env base dev token w) =
     (let url = base @ registration_base_path @ ''/'' @ dev;
          r = apply_default_headers (bearer token
                \<lparr>req_method = ''GET'', req_url = url, req_headers = (\<lambda>_. None), req_body = ''''\<rparr>)
      in case bad_url env url of
        Some e \<Rightarrow> Inl (wrap ''create request'' e)
      | None \<Rightarrow>
          (case fst (http_do env r w) of
             Inl e \<Rightarrow> Inl (wrap ''perform request'' e)
           | Inr (status, body) \<Rightarrow>
               if 400 \<le> status then Inl (errorf (''unexpected status code: '' @ nat_dec status))
               else (case json_first body of
                       None \<Rightarrow> Inl (wrap ''decode response'' json_syntax_error)
                     | Some j \<Rightarrow> (case into_device j empty_device of
                                   Inl e \<Rightarrow> Inl (wrap ''decode response'' e) | Inr d \<Rightarrow> Inr d))))"
  by (auto simp: client_get_device_def new_request_def do_json_def do_request_def json_decode_def Let_def
      andThen_def wrapping_def ret_def fail_def
      split: option.split sum.split prod.split)

end
