(* ===== verification/Legacy_Device.thy ===== *)
theory Legacy_Device
  imports App_Config Device_State Warp_Client GoNet6
begin

text \<open>
  The pure part of \<open>cmd/warp-socksd/legacy_backend.go\<close>: how a device answer of the API becomes the
  persisted state (credentials, tunnel protocol, endpoints with their port), and how an endpoint and the
  address it has to be reached by are chosen from a state.
\<close>

section \<open>Endpoints\<close>

definition endpoint_host :: "string \<Rightarrow> string" where
  "endpoint_host raw0 =
     (let raw = trim_space raw0 in
      if raw = '''' then ''''
      else case split_host_port raw of
        Inr (host, _) \<Rightarrow> trim_chars ''[]'' host
      | Inl _ \<Rightarrow> trim_chars ''[]'' raw)"

definition join_endpoint_host_and_port :: "string \<Rightarrow> string \<Rightarrow> string" where
  "join_endpoint_host_and_port ip ep =
     (if ip = '''' then ''''
      else let host = endpoint_host ip in
        if host = '''' then ''''
        else case split_host_port ep of
          Inl _ \<Rightarrow> host
        | Inr (_, port) \<Rightarrow> join_host_port host port)"

definition ensure_endpoint_port :: "string \<Rightarrow> string \<Rightarrow> string" where
  "ensure_endpoint_port raw fallback =
     (if raw = '''' then ''''
      else case split_host_port raw of Inr _ \<Rightarrow> raw | Inl _ \<Rightarrow> join_endpoint_host_and_port raw fallback)"

definition endpoint_port :: "string \<Rightarrow> string" where
  "endpoint_port raw0 =
     (let raw = trim_space raw0 in
      if raw = '''' then ''''
      else case split_host_port raw of Inr (_, port) \<Rightarrow> port | Inl _ \<Rightarrow> '''')"

definition parse_endpoint_addr :: "string \<Rightarrow> netip" where
  "parse_endpoint_addr raw0 =
     (let raw = trim_space raw0 in
      if raw = '''' then NoAddr
      else case parse_addr_port raw of
        Some (a, _) \<Rightarrow> addr_unmap a
      | None \<Rightarrow>
          (case parse_addr raw of
             Some a \<Rightarrow> addr_unmap a
           | None \<Rightarrow>
               (case split_host_port raw of
                  Inr (host, _) \<Rightarrow> (case parse_addr host of Some a \<Rightarrow> addr_unmap a | None \<Rightarrow> NoAddr)
                | Inl _ \<Rightarrow> NoAddr)))"

definition first_nonempty :: "string list \<Rightarrow> string \<Rightarrow> string" where
  "first_nonempty xs fallback = (case find (\<lambda>x. x \<noteq> '''') xs of Some x \<Rightarrow> x | None \<Rightarrow> fallback)"

definition select_peer_endpoint :: "device_state \<Rightarrow> stack_mode \<Rightarrow> string" where
  "select_peer_endpoint st stack =
     (let v4 = ensure_endpoint_port (peer_endpoint_v4 st) (peer_endpoint st);
          v6 = ensure_endpoint_port (peer_endpoint_v6 st) (peer_endpoint st)
      in case stack of
        Stack4 \<Rightarrow> first_nonempty [v4] (peer_endpoint st)
      | Stack6 \<Rightarrow> first_nonempty [v6] (peer_endpoint st)
      | StackDual \<Rightarrow> first_nonempty [v4, v6] (peer_endpoint st))"

definition select_peer_endpoint_address :: "device_state \<Rightarrow> stack_mode \<Rightarrow> netip" where
  "select_peer_endpoint_address st stack =
     (case stack of
        Stack4 \<Rightarrow> parse_endpoint_addr (peer_endpoint_v4 st)
      | Stack6 \<Rightarrow> parse_endpoint_addr (peer_endpoint_v6 st)
      | StackDual \<Rightarrow>
          (let a = parse_endpoint_addr (peer_endpoint_v4 st)
           in if addr_is_valid a then a else parse_endpoint_addr (peer_endpoint_v6 st)))"

section \<open>The tunnel protocol\<close>

definition normalize_tunnel_protocol :: "string \<Rightarrow> string" where
  "normalize_tunnel_protocol raw = to_lower (trim_space raw)"

definition device_looks_like_wireguard :: "device \<Rightarrow> bool" where
  "device_looks_like_wireguard d =
     (if equal_fold (trim_space (key_type d)) ''curve25519'' then True
      else case config_peers d of
        [] \<Rightarrow> False
      | p # _ \<Rightarrow>
          2408 \<in> set (ep_ports (peer_ep p)) \<or>
          (\<exists>c \<in> set [ep_host (peer_ep p), ep_v4 (peer_ep p), ep_v6 (peer_ep p)]. endpoint_port c = ''2408''))"

definition effective_tunnel_protocol :: "device \<Rightarrow> string" where
  "effective_tunnel_protocol d =
     (let normalized = normalize_tunnel_protocol (tunnel_type d);
          policy = normalize_tunnel_protocol (policy_protocol d)
      in if normalized \<noteq> '''' then normalized
         else if policy = ''wireguard'' then policy
         else if device_looks_like_wireguard d then ''wireguard''
         else policy)"

section \<open>From a device to a state\<close>

definition state_from_warp_device :: "device \<Rightarrow> string \<Rightarrow> string \<Rightarrow> string \<Rightarrow> string \<Rightarrow> go_error + device_state" where
  "state_from_warp_device d fallback_id fallback_token priv pub =
     (let did = (if dev_id d = '''' then fallback_id else dev_id d);
          token = (if dev_token d = '''' then fallback_token else dev_token d)
      in if did = '''' \<or> token = '''' then Inl (errorf ''warp device response is missing credentials'')
         else case config_peers d of
           [] \<Rightarrow> Inl (errorf ''warp device response is missing peers'')
         | p # _ \<Rightarrow>
             Inr \<lparr>schema_version = 1, device_id = did, access_token = token, private_key = priv,
                public_key = (if pub = '''' then dev_key d else pub), client_id = config_client_id d,
                ipv4 = config_v4 d, ipv6 = config_v6 d, peer_public_key = peer_key p,
                peer_endpoint = ep_host (peer_ep p),
                peer_endpoint_v4 = join_endpoint_host_and_port (ep_v4 (peer_ep p)) (ep_host (peer_ep p)),
                peer_endpoint_v6 = join_endpoint_host_and_port (ep_v6 (peer_ep p)) (ep_host (peer_ep p)),
                license = account_license d, warp_enabled = dev_warp_enabled d,
                tunnel_protocol = effective_tunnel_protocol d, created_at = dev_created d, updated_at = dev_updated d\<rparr>)"

definition is_reusable_legacy_state :: "device_state \<Rightarrow> bool" where
  "is_reusable_legacy_state st =
     (0 < schema_version st \<and> device_id st \<noteq> '''' \<and> access_token st \<noteq> '''' \<and> private_key st \<noteq> '''' \<and>
      peer_public_key st \<noteq> '''' \<and> peer_endpoint st \<noteq> '''' \<and> tunnel_protocol st = ''wireguard'')"

definition normalize_license :: "string \<Rightarrow> string" where
  "normalize_license raw0 = (let raw = trim_space raw0 in if raw = '''' \<or> raw = unspecified then '''' else raw)"

section \<open>Endpoint properties\<close>

text \<open>An address text, as the API gives endpoints: neither space nor bracket at its ends.\<close>

lemma trim_chars_id:
  assumes "s \<noteq> []" "hd s \<notin> set cs" "last s \<notin> set cs"
  shows "trim_chars cs s = s"
proof -
  have "dropWhile (\<lambda>c. c \<in> set cs) s = s" using assms by (cases s) auto
  moreover have "dropWhile (\<lambda>c. c \<in> set cs) (rev s) = rev s"
    using assms by (cases s rule: rev_cases) auto
  ultimately show ?thesis by (simp add: trim_chars_def trim_left_chars_def trim_right_chars_def)
qed

text \<open>White space and brackets at the ends are all that is trimmed.\<close>

definition plain_char :: "char \<Rightarrow> bool" where
  "plain_char c = (0x20 < (of_char c :: nat) \<and> (of_char c :: nat) < 0x7F)"

lemma space_not_plain: "\<forall>e \<in> set space_encodings. e \<noteq> [] \<and> \<not> plain_char (hd e) \<and> \<not> plain_char (last e)"
  by (simp add: space_encodings_def plain_char_def upt_conv_Cons)

lemma trim_prefixes_id:
  assumes "s \<noteq> []" "\<forall>e \<in> set encs. e \<noteq> [] \<longrightarrow> hd e \<noteq> hd s"
  shows "trim_prefixes encs s = s"
proof (rule trim_prefixes_None)
  show "find (\<lambda>e. e \<noteq> [] \<and> prefix e s) encs = None"
    using assms by (fastforce simp: find_None_iff prefix_def)
qed

lemma trim_space_id:
  assumes "s \<noteq> []" "plain_char (hd s)" "plain_char (last s)"
  shows "trim_space s = s"
proof -
  have "trim_prefixes space_encodings s = s"
    using assms space_not_plain by (intro trim_prefixes_id) auto
  moreover have "trim_prefixes (map rev space_encodings) (rev s) = rev s"
    using assms space_not_plain by (intro trim_prefixes_id) (auto simp: hd_rev)
  ultimately show ?thesis by (simp add: trim_space_def)
qed

text \<open>The text of an address, of either family, and what the API's parsers make of it.\<close>

definition addr_text :: "netip \<Rightarrow> string \<Rightarrow> bool" where
  "addr_text a t \<longleftrightarrow> (\<exists>b. (length b = 4 \<and> a = Addr4 b \<and> t = string4 b) \<or> (length b = 16 \<and> a = Addr6 b [] \<and> t = string6 b))"

lemma digit_hex: "is_digit c \<Longrightarrow> hex_val c \<noteq> None"
  by (simp add: is_digit_def hex_val_def Let_def)

lemma hex_plain: "hex_val c \<noteq> None \<or> c = CHR ''.'' \<or> c = CHR '':'' \<Longrightarrow> plain_char c \<and> c \<notin> {CHR ''['', CHR '']''}"
  by (auto simp: hex_val_def plain_char_def Let_def split: if_splits)

lemma addr_text_chars:
  assumes "addr_text a t" "c \<in> set t"
  shows "plain_char c \<and> c \<notin> {CHR ''['', CHR '']''}"
  using assms string4_chars string6_chars digit_hex hex_plain unfolding addr_text_def by blast

lemma string4_no_colon: "length b = 4 \<Longrightarrow> CHR '':'' \<notin> set (string4 b)"
  using string4_chars[of b "CHR '':''"] by (auto simp: is_digit_def)

lemma addr_text_parse: "addr_text a t \<Longrightarrow> parse_addr t = Some a"
  by (auto simp: addr_text_def parse_addr_string4 parse_addr_string6)

lemma addr_text_nonempty: "addr_text a t \<Longrightarrow> t \<noteq> []"
  using addr_text_parse[of a t] by (auto simp: parse_addr_def)

lemma addr_text_colon: "addr_text a t \<Longrightarrow> (CHR '':'' \<in> set t) = addr_is6 a"
  by (auto simp: addr_text_def string4_no_colon string6_has_colon)

lemma string6_two_colons:
  assumes "length b = 16"
  shows "\<exists>u v w. string6 b = u @ CHR '':'' # v @ CHR '':'' # w"
proof -
  have "length (v6_groups b) = 8" using assms by (simp add: length_v6_groups)
  then obtain x y z r where "v6_groups b = x # y # z # r"
    by (cases "v6_groups b"; cases "tl (v6_groups b)"; cases "tl (tl (v6_groups b))") auto
  moreover have "\<exists>u v w. str_join '':'' (map nat_hex (x # y # z # r)) = u @ CHR '':'' # v @ CHR '':'' # w"
    by (simp, metis append.assoc append_Cons)
  moreover have "\<exists>u v w. s @ ''::'' @ t = u @ CHR '':'' # v @ CHR '':'' # w" for s t
    by (intro exI[of _ s] exI[of _ "[]"] exI[of _ t]) simp
  ultimately show ?thesis by (auto simp: string6_def Let_def split: option.split)
qed

lemma split_bare_addr:
  assumes "addr_text a t"
  shows "\<exists>e. split_host_port t = Inl e"
proof (cases a)
  case (Addr4 b)
  then have "CHR '':'' \<notin> set t" using assms addr_text_colon by fastforce
  then show ?thesis by (simp add: split_host_port_def split_last_colon_def)
next
  case (Addr6 b z)
  then obtain u v w where t: "t = u @ CHR '':'' # v @ CHR '':'' # w"
    using assms string6_two_colons by (fastforce simp: addr_text_def)
  obtain host port where hp: "t = host @ CHR '':'' # port" "CHR '':'' \<notin> set port"
    using split_list_last[of "CHR '':''" t] t by auto
  have "count_list t CHR '':'' \<ge> 2" using t by simp
  then have "count_list host CHR '':'' \<noteq> 0" using hp by (simp add: count_notin)
  then have "CHR '':'' \<in> set host" using count_notin by metis
  moreover have "hd t \<noteq> CHR ''[''"
    using addr_text_chars[OF assms, of "hd t"] addr_text_nonempty[OF assms] by auto
  ultimately show ?thesis
    using split_last_colon_append[OF hp(2), of host] hp(1) by (simp add: split_host_port_def)
qed (use assms in \<open>auto simp: addr_text_def\<close>)

lemma split_join_addr:
  assumes "addr_text a t" "list_all is_digit port"
  shows "split_host_port (join_host_port t port) = Inr (t, port)"
proof (rule split_join_host_port)
  have "c \<notin> set port" if "\<not> is_digit c" for c
    using assms(2) that by (auto simp: list_all_iff)
  then show "CHR '':'' \<notin> set port" "CHR ''['' \<notin> set port" "CHR '']'' \<notin> set port"
    by (simp_all add: is_digit_def)
qed (use addr_text_chars[OF assms(1)] in auto)

lemma addr_text_ends:
  assumes "addr_text a t"
  shows "t \<noteq> []" "plain_char (hd t)" "plain_char (last t)" "hd t \<notin> set ''[]''" "last t \<notin> set ''[]''"
  using addr_text_chars[OF assms, of "hd t"] addr_text_chars[OF assms, of "last t"] addr_text_nonempty[OF assms]
  by simp_all

lemma trim_brackets_addr: "addr_text a t \<Longrightarrow> trim_chars ''[]'' t = t"
  by (rule trim_chars_id) (rule addr_text_ends, assumption)+

lemma trim_space_addr: "addr_text a t \<Longrightarrow> trim_space t = t"
  by (rule trim_space_id) (rule addr_text_ends, assumption)+

lemma join_host_port_nonempty [simp]: "join_host_port h p \<noteq> []"
  by (simp add: join_host_port_def)

lemma trim_space_addr_port:
  assumes "addr_text a t" "list_all is_digit port" "port \<noteq> []"
  shows "trim_space (join_host_port t port) = join_host_port t port"
proof (rule trim_space_id)
  have "is_digit (last port)" using assms(2,3) by (simp add: list_all_iff)
  then have "plain_char (last port)" using hex_plain[OF disjI1[OF digit_hex]] by simp
  then show "plain_char (last (join_host_port t port))"
    using assms(3) by (simp add: join_host_port_def)
  show "plain_char (hd (join_host_port t port))"
    using addr_text_ends[OF assms(1)] by (simp add: join_host_port_def plain_char_def)
qed (simp add: join_host_port_def)

lemma endpoint_host_addr:
  assumes "addr_text a t"
  shows "endpoint_host t = t"
    and "list_all is_digit port \<Longrightarrow> port \<noteq> [] \<Longrightarrow> endpoint_host (join_host_port t port) = t"
proof -
  show "endpoint_host t = t"
    using split_bare_addr[OF assms] trim_space_addr[OF assms] trim_brackets_addr[OF assms]
    by (auto simp: endpoint_host_def Let_def)
  assume "list_all is_digit port" "port \<noteq> []"
  then show "endpoint_host (join_host_port t port) = t"
    using split_join_addr[OF assms] trim_space_addr_port[OF assms] trim_brackets_addr[OF assms]
    by (auto simp: endpoint_host_def Let_def join_host_port_def)
qed

lemma parse_addr_port_join:
  assumes "addr_text a t" "p < 65536"
  shows "parse_addr_port (join_host_port t (nat_dec p)) = Some (a, p)"
proof -
  have no: "CHR '':'' \<notin> set (nat_dec p)" by simp
  have port: "parse_uint16 (nat_dec p) = Some p"
    using assms(2) by (simp add: parse_uint16_def nat_dec_digits)
  have br: "CHR ''['' \<notin> set t" using addr_text_chars[OF assms(1)] by blast
  show ?thesis
  proof (cases a)
    case (Addr4 b)
    then have "join_host_port t (nat_dec p) = t @ CHR '':'' # nat_dec p"
      using addr_text_colon[OF assms(1)] by (simp add: join_host_port_def)
    moreover have "hd t \<noteq> CHR ''[''" using br addr_text_nonempty[OF assms(1)] by (metis hd_in_set)
    ultimately show ?thesis
      using Addr4 port split_last_colon_append[OF no, of t] addr_text_parse[OF assms(1)] addr_text_nonempty[OF assms(1)]
      by (simp add: parse_addr_port_def)
  next
    case (Addr6 b z)
    then have "join_host_port t (nat_dec p) = (''['' @ t @ '']'') @ CHR '':'' # nat_dec p"
      using addr_text_colon[OF assms(1)] by (simp add: join_host_port_def)
    then show ?thesis
      using Addr6 port split_last_colon_append[OF no, of "''['' @ t @ '']''"] addr_text_parse[OF assms(1)]
        addr_text_nonempty[OF assms(1)]
      by (simp add: parse_addr_port_def butlast_append)
  qed (use assms in \<open>auto simp: addr_text_def\<close>)
qed

lemma parse_endpoint_addr_join:
  assumes "addr_text a t" "p < 65536"
  shows "parse_endpoint_addr (join_host_port t (nat_dec p)) = addr_unmap a"
  using trim_space_addr_port[OF assms(1) nat_dec_digits] parse_addr_port_join[OF assms]
  by (auto simp: parse_endpoint_addr_def Let_def join_host_port_def)

text \<open>The endpoint of one family of a device answer, with the port of its host name.\<close>

lemma join_endpoint_addr:
  assumes "addr_text a t" "raw = t \<or> raw = join_host_port t ''0''" "split_host_port ep = Inr (h, port)"
  shows "join_endpoint_host_and_port raw ep = join_host_port t port"
proof -
  have "endpoint_host raw = t"
    using endpoint_host_addr[OF assms(1)] assms(2) by (auto simp: is_digit_def)
  moreover have "raw \<noteq> []" using assms(1,2) addr_text_nonempty by (metis join_host_port_nonempty)
  ultimately show ?thesis
    using assms(3) addr_text_nonempty[OF assms(1)]
    by (simp add: join_endpoint_host_and_port_def Let_def)
qed

lemma ensure_endpoint_port_join:
  "addr_text a t \<Longrightarrow> list_all is_digit port \<Longrightarrow> ensure_endpoint_port (join_host_port t port) fallback = join_host_port t port"
  by (simp add: ensure_endpoint_port_def split_join_addr)

end
