(* ===== verification/Legacy_Backend.thy ===== *)
theory Legacy_Backend
  imports Legacy_Device Route_Manager Wg_Device
begin

text \<open>
  The effectful part of \<open>cmd/warp-socksd/legacy_backend.go\<close>: making sure there is a device
  (\<open>legacyBootstrapper\<close>) and bringing the tunnel up and down (\<open>legacyNetworkManager\<close>). The Go interfaces
  it calls are records of operations: \<open>warp_api\<close> (made of the HTTP client by \<open>client_api\<close>), \<open>wg_manager\<close>
  and \<open>routes_manager\<close> (made of the device and route managers). What key generation, the random source
  and the clock return is a parameter, \<open>entropy\<close>.
\<close>

section \<open>The device bootstrapper\<close>

record 'w warp_api =
  api_register :: "registration_input \<Rightarrow> ('w, device) eff"
  api_get_device :: "string \<Rightarrow> string \<Rightarrow> ('w, device) eff"
  api_update_license :: "string \<Rightarrow> string \<Rightarrow> string \<Rightarrow> ('w, unit) eff"
  api_set_enabled :: "string \<Rightarrow> string \<Rightarrow> bool \<Rightarrow> ('w, unit) eff"

definition client_api :: "'w http_env \<Rightarrow> string \<Rightarrow> 'w warp_api" where
  "client_api env base_url =
     (let base = new_client base_url in
      \<lparr>api_register = client_register env base, api_get_device = client_get_device env base,
       api_update_license = client_update_license env base, api_set_enabled = client_set_warp_enabled env base\<rparr>)"

record 'w entropy =
  generate_key :: "('w, string \<times> string) eff"
  rand_read :: "('w, byte list) eff"
  unix_nano :: "('w, int) eff"
  now_rfc3339 :: "('w, string) eff"

definition random_install_id :: "'w entropy \<Rightarrow> ('w, string) eff" where
  "random_install_id src =
     attempt (rand_read src) (\<lambda>r.
     case r of
       Inl _ \<Rightarrow> andThen (unix_nano src) (\<lambda>t. ret (''install-'' @ itoa t))
     | Inr buf \<Rightarrow> ret (hex_bytes buf))"

definition require_wireguard :: "device_state \<Rightarrow> ('w, device_state) eff" where
  "require_wireguard st =
     (if tunnel_protocol st \<noteq> ''wireguard''
      then fail (errorf (''legacy backend requires wireguard tunnel protocol, got '' @ quoted (tunnel_protocol st)))
      else ret st)"

text \<open>The calls \<open>refresh\<close> and \<open>register\<close> share: enable the device, fetch it, turn it into a state.\<close>

definition fetch_state :: "'w warp_api \<Rightarrow> string \<Rightarrow> string \<Rightarrow> string \<Rightarrow> string \<Rightarrow> ('w, device_state) eff" where
  "fetch_state api did token priv pub =
     andThen (wrapping ''enable warp device'' (api_set_enabled api did token True)) (\<lambda>_.
     andThen (wrapping ''fetch warp device'' (api_get_device api did token)) (\<lambda>d.
     case state_from_warp_device d did token priv pub of
       Inl e \<Rightarrow> fail e
     | Inr next_state \<Rightarrow> require_wireguard next_state))"

definition refresh :: "'w warp_api \<Rightarrow> device_state \<Rightarrow> ('w, device_state) eff" where
  "refresh api current =
     (if device_id current = '''' \<or> access_token current = '''' \<or> private_key current = ''''
      then fail (errorf ''state cannot be refreshed'')
      else fetch_state api (device_id current) (access_token current) (private_key current) (public_key current))"

definition register :: "'w warp_api \<Rightarrow> 'w entropy \<Rightarrow> config \<Rightarrow> ('w, device_state) eff" where
  "register api src cfg =
     andThen (wrapping ''generate wireguard private key'' (generate_key src)) (\<lambda>(priv, pub).
     andThen (random_install_id src) (\<lambda>iid.
     andThen (now_rfc3339 src) (\<lambda>now.
     andThen (wrapping ''register warp device'' (api_register api
        \<lparr>fcm_token = '''', install_id = iid, reg_key = pub, locale_name = ''en_US'', reg_model = ''PC'', tos = now,
         reg_type = ''Android''\<rparr>)) (\<lambda>registration.
     if dev_id registration = '''' \<or> dev_token registration = ''''
     then fail (errorf ''warp registration did not return device credentials'')
     else
     andThen (fetch_state api (dev_id registration) (dev_token registration) priv pub) (\<lambda>current.
     if normalize_license (warp_license cfg) \<noteq> ''''
     then andThen (wrapping ''update warp license''
            (api_update_license api (device_id current) (access_token current) (normalize_license (warp_license cfg)))) (\<lambda>_.
          ret (current\<lparr>license := normalize_license (warp_license cfg)\<rparr>))
     else ret current)))))"

definition apply_license :: "'w warp_api \<Rightarrow> config \<Rightarrow> device_state \<Rightarrow> ('w, device_state) eff" where
  "apply_license api cfg current =
     (let lic = normalize_license (warp_license cfg) in
      if lic = '''' \<or> lic = license current then ret current
      else if device_id current = '''' \<or> access_token current = ''''
      then fail (errorf ''legacy state is missing device credentials for license update'')
      else andThen (wrapping ''update warp license'' (api_update_license api (device_id current) (access_token current) lic)) (\<lambda>_.
           ret (current\<lparr>license := lic\<rparr>)))"

definition ensure_device :: "'w warp_api option \<Rightarrow> 'w entropy \<Rightarrow> config \<Rightarrow> device_state \<Rightarrow> ('w, device_state) eff" where
  "ensure_device client src cfg loaded =
     (case client of
        None \<Rightarrow> fail (errorf ''warp api client is required'')
      | Some api \<Rightarrow>
          (let current = loaded\<lparr>schema_version := 1\<rparr> in
           attempt (refresh api current) (\<lambda>r.
           case r of
             Inr refreshed \<Rightarrow> apply_license api cfg refreshed
           | Inl _ \<Rightarrow>
               if is_reusable_legacy_state current then apply_license api cfg current
               else andThen (register api src cfg) (\<lambda>created. apply_license api cfg created))))"

section \<open>The network manager\<close>

definition default_legacy_device_name :: string where
  "default_legacy_device_name = ''wgcf''"

definition value_or_default :: "string \<Rightarrow> string \<Rightarrow> string" where
  "value_or_default value fallback = (if value = '''' then fallback else value)"

record 'w wg_manager =
  wg_up :: "desired_config \<Rightarrow> ('w, unit) eff"
  wg_down :: "string \<Rightarrow> ('w, unit) eff"

record 'w routes_manager =
  routes_up :: "string \<Rightarrow> route_plan \<Rightarrow> ('w, unit) eff"
  routes_down :: "('w, unit) eff"

record 'w network_manager =
  net_device :: string
  net_mtu :: int
  net_wg :: "'w wg_manager option"
  net_routes :: "'w routes_manager option"

definition desired_for :: "string \<Rightarrow> int \<Rightarrow> config \<Rightarrow> device_state \<Rightarrow> desired_config" where
  "desired_for name mtu cfg st =
     \<lparr>if_name = value_or_default name default_legacy_device_name, if_stack = proxy_stack cfg,
      if_private_key = private_key st, address_v4 = ipv4 st, address_v6 = ipv6 st, if_peer_key = peer_public_key st,
      if_endpoint = select_peer_endpoint st (proxy_stack cfg), if_mtu = mtu\<rparr>"

definition plan_for :: "config \<Rightarrow> device_state \<Rightarrow> route_plan" where
  "plan_for cfg st = build_plan \<lparr>stack_of = proxy_stack cfg, peer_addr = select_peer_endpoint_address st (proxy_stack cfg)\<rparr>"

definition network_apply :: "'w network_manager \<Rightarrow> config \<Rightarrow> device_state \<Rightarrow> ('w, unit) eff" where
  "network_apply m cfg st =
     (case net_wg m of
        None \<Rightarrow> fail (errorf ''wireguard manager is required'')
      | Some wg \<Rightarrow>
          (case net_routes m of
             None \<Rightarrow> fail (errorf ''route manager is required'')
           | Some routes \<Rightarrow>
               let name = value_or_default (net_device m) default_legacy_device_name in
               andThen (wrapping ''apply wireguard device'' (wg_up wg (desired_for (net_device m) (net_mtu m) cfg st))) (\<lambda>_.
               attempt (routes_up routes name (plan_for cfg st)) (\<lambda>r.
               case r of
                 Inr _ \<Rightarrow> ret ()
               | Inl e \<Rightarrow>
                   andThen (ignoring (routes_down routes)) (\<lambda>_.
                   andThen (ignoring (wg_down wg name)) (\<lambda>_.
                   fail (wrap ''apply routes'' e)))))))"

definition network_cleanup :: "'w network_manager \<Rightarrow> ('w, unit) eff" where
  "network_cleanup m =
     attempt (case net_routes m of None \<Rightarrow> ret () | Some routes \<Rightarrow> wrapping ''cleanup routes'' (routes_down routes)) (\<lambda>r1.
     case net_wg m of
       None \<Rightarrow> (case r1 of Inl e1 \<Rightarrow> fail e1 | Inr _ \<Rightarrow> ret ())
     | Some wg \<Rightarrow>
         attempt (wg_down wg (value_or_default (net_device m) default_legacy_device_name)) (\<lambda>r2.
         case r2 of
           Inl e2 \<Rightarrow> (case r1 of Inl e1 \<Rightarrow> fail (Joined e1 (wrap ''delete wireguard device'' e2))
                     | Inr _ \<Rightarrow> fail (wrap ''delete wireguard device'' e2))
         | Inr _ \<Rightarrow> (case r1 of Inl e1 \<Rightarrow> fail e1 | Inr _ \<Rightarrow> ret ())))"

text \<open>The manager as \<open>buildLegacyRuntimeDependencies\<close> puts it together on one runner.\<close>

definition legacy_network :: "'a disk_scheme runner \<Rightarrow> string \<Rightarrow> int \<Rightarrow> (route_manager \<times> 'a disk_scheme) network_manager" where
  "legacy_network run name mtu =
     \<lparr>net_device = name, net_mtu = mtu,
      net_wg = Some \<lparr>wg_up = \<lambda>d. on_world (wg_apply (Some run) d), wg_down = \<lambda>n. on_world (wg_delete (Some run) n)\<rparr>,
      net_routes = Some \<lparr>routes_up = route_apply (Some run), routes_down = route_cleanup (Some run)\<rparr>\<rparr>"

section \<open>The device a bootstrap ends with\<close>

definition usable_state :: "config \<Rightarrow> device_state \<Rightarrow> bool" where
  "usable_state cfg st \<longleftrightarrow>
     schema_version st = 1 \<and> device_id st \<noteq> '''' \<and> access_token st \<noteq> '''' \<and> tunnel_protocol st = ''wireguard'' \<and>
     (let lic = normalize_license (warp_license cfg) in lic = '''' \<or> license st = lic)"

lemma require_wireguard_Inr:
  "require_wireguard st w = (Inr st', w') \<longleftrightarrow> tunnel_protocol st = ''wireguard'' \<and> st' = st \<and> w' = w"
  by (auto simp: require_wireguard_def)

lemma state_from_warp_device_Inr:
  assumes "state_from_warp_device d did token priv pub = Inr st"
  shows "schema_version st = 1 \<and> device_id st \<noteq> '''' \<and> access_token st \<noteq> '''' \<and> private_key st = priv"
  using assms by (auto simp: state_from_warp_device_def Let_def split: if_splits list.splits)

lemma fetch_state_Inr:
  assumes "fetch_state api did token priv pub w = (Inr st, w')"
  shows "schema_version st = 1 \<and> device_id st \<noteq> '''' \<and> access_token st \<noteq> '''' \<and> tunnel_protocol st = ''wireguard'' \<and>
    private_key st = priv"
proof -
  obtain d v where "(case state_from_warp_device d did token priv pub of Inl e \<Rightarrow> fail e | Inr st \<Rightarrow> require_wireguard st) v
      = (Inr st, w')"
    using assms by (auto simp: fetch_state_def andThen_Inr_iff)
  then obtain next_state where "state_from_warp_device d did token priv pub = Inr next_state"
    "require_wireguard next_state v = (Inr st, w')"
    by (auto split: sum.splits)
  then show ?thesis using state_from_warp_device_Inr by (auto simp: require_wireguard_Inr)
qed

lemma apply_license_Inr:
  assumes "apply_license api cfg current w = (Inr st, w')"
    "schema_version current = 1" "device_id current \<noteq> ''''" "access_token current \<noteq> ''''" "tunnel_protocol current = ''wireguard''"
  shows "usable_state cfg st \<and> private_key st = private_key current"
  using assms by (auto simp: apply_license_def usable_state_def Let_def andThen_Inr_iff split: if_splits)

lemma refresh_Inr:
  "refresh api current w = (Inr st, w') \<Longrightarrow> schema_version st = 1 \<and> device_id st \<noteq> '''' \<and> access_token st \<noteq> '''' \<and>
    tunnel_protocol st = ''wireguard'' \<and> private_key st = private_key current \<and> private_key current \<noteq> ''''"
  by (auto simp: refresh_def split: if_splits dest: fetch_state_Inr)

lemma register_Inr:
  assumes "register api src cfg w = (Inr st, w')"
  shows "schema_version st = 1 \<and> device_id st \<noteq> '''' \<and> access_token st \<noteq> '''' \<and> tunnel_protocol st = ''wireguard'' \<and>
    (\<exists>pub v. generate_key src w = (Inr (private_key st, pub), v))"
proof -
  obtain priv pub v where key: "generate_key src w = (Inr (priv, pub), v)"
    using assms by (auto simp: register_def andThen_Inr_iff wrapping_Inr_iff)
  have "\<exists>(d :: device) v1 current v2. fetch_state api (dev_id d) (dev_token d) priv pub v1 = (Inr current, v2) \<and>
    (st = current \<or> (\<exists>l. st = current\<lparr>license := l\<rparr>))"
    using assms key
    by (auto simp: register_def andThen_Inr_iff wrapping_Inr_iff split: if_splits)
  with fetch_state_Inr key show ?thesis by fastforce
qed

lemma ensure_device_result:
  assumes "ensure_device client src cfg loaded w = (Inr st, w')"
  shows "usable_state cfg st \<and>
    (private_key st = private_key loaded \<and> private_key loaded \<noteq> '''' \<or>
     (\<exists>pub v v'. generate_key src v = (Inr (private_key st, pub), v')))"
proof -
  let ?cur = "loaded\<lparr>schema_version := 1\<rparr>"
  obtain api where api: "client = Some api" using assms by (auto simp: ensure_device_def split: option.splits)
  obtain r w1 where refresh: "refresh api ?cur w = (r, w1)" by (cases "refresh api ?cur w")
  consider (refreshed) x where "r = Inr x" | (reuse) e where "r = Inl e" "is_reusable_legacy_state ?cur"
    | (register) e where "r = Inl e" "\<not> is_reusable_legacy_state ?cur"
    by (cases r) auto
  then show ?thesis
  proof cases
    case refreshed
    then have "apply_license api cfg x w1 = (Inr st, w')"
      using assms api refresh by (simp add: ensure_device_def Let_def)
    with refresh_Inr[of api ?cur w x w1] refresh refreshed apply_license_Inr show ?thesis by fastforce
  next
    case reuse
    then have "apply_license api cfg ?cur w1 = (Inr st, w')"
      using assms api refresh by (simp add: ensure_device_def Let_def)
    with reuse(2) apply_license_Inr[of api cfg ?cur] show ?thesis by (auto simp: is_reusable_legacy_state_def)
  next
    case register
    then obtain created w2 where created: "register api src cfg w1 = (Inr created, w2)"
      "apply_license api cfg created w2 = (Inr st, w')"
      using assms api refresh by (auto simp: ensure_device_def Let_def andThen_Inr_iff)
    with register_Inr[OF created(1)] apply_license_Inr[OF created(2)] show ?thesis by metis
  qed
qed

text \<open>C12: A bootstrap that succeeds leaves a device the tunnel can use: whatever the API answers and whatever was
  persisted, the state has schema version 1, non-empty device id and access token, the WireGuard protocol,
  and the configured license if one is configured; its private key is the persisted (non-empty) one or one
  that was just generated, never anything the API sent.\<close>

theorem ensure_device_usable:
  assumes "ensure_device client src cfg loaded w = (Inr st, w')"
  shows "schema_version st = 1 \<and> device_id st \<noteq> '''' \<and> access_token st \<noteq> '''' \<and> tunnel_protocol st = ''wireguard'' \<and>
    normalize_license (warp_license cfg) \<in> {'''', license st} \<and>
    (private_key st \<in> ({private_key loaded} - {''''}) \<union> {priv. \<exists>pub v v'. generate_key src v = (Inr (priv, pub), v')})"
  using ensure_device_result[OF assms] by (auto simp: usable_state_def Let_def)

definition sample_state :: device_state where
  "sample_state = empty_state\<lparr>device_id := ''d'', access_token := ''t'', private_key := ''k'', peer_public_key := ''p'',
     peer_endpoint := ''engage.example:2408'', license := ''L'', tunnel_protocol := ''wireguard''\<rparr>"

definition sample_config :: "string \<Rightarrow> config" where
  "sample_config lic = \<lparr>proxy_stack = StackDual, warp_license = lic,
     proxy_auth = \<lparr>auth_enabled = False, auth_user = unspecified, auth_pass = unspecified\<rparr>\<rparr>"

definition sample_api :: "unit warp_api" where
  "sample_api = \<lparr>api_register = \<lambda>_. fail (errorf ''offline''), api_get_device = \<lambda>_ _. fail (errorf ''offline''),
     api_update_license = \<lambda>_ _ _. ret (), api_set_enabled = \<lambda>_ _ _. fail (errorf ''offline'')\<rparr>"

definition sample_entropy :: "unit entropy" where
  "sample_entropy = \<lparr>generate_key = ret (''priv'', ''pub''), rand_read = ret (replicate 16 0), unix_nano = ret 0,
     now_rfc3339 = ret ''2024-01-01T00:00:00Z''\<rparr>"

lemma sample_licenses: "normalize_license ''unspecified'' = ''''" "normalize_license ''M'' = ''M''"
proof -
  have "trim_space ''unspecified'' = ''unspecified''" "trim_space ''M'' = ''M''"
    by (rule trim_space_id; simp add: plain_char_def)+
  then show "normalize_license ''unspecified'' = ''''" "normalize_license ''M'' = ''M''"
    by (simp_all add: normalize_license_def unspecified_def)
qed

lemma sample_reusable: "is_reusable_legacy_state (sample_state\<lparr>schema_version := 1\<rparr>)"
  by (simp add: is_reusable_legacy_state_def sample_state_def empty_state_def)

lemma sample_bootstrap:
  "ensure_device (Some sample_api) sample_entropy (sample_config ''M'') sample_state () =
     (Inr (sample_state\<lparr>schema_version := 1, license := ''M''\<rparr>), ())"
  using sample_reusable
  by (simp add: ensure_device_def Let_def refresh_def fetch_state_def apply_license_def sample_api_def sample_config_def
      sample_licenses attempt_def andThen_def wrapping_def)
     (simp add: sample_state_def empty_state_def)

lemma ensure_device_usable_witness:
  "normalize_license (warp_license (sample_config ''M'')) \<in> {'''', license (sample_state\<lparr>schema_version := 1, license := ''M''\<rparr>)}"
  using ensure_device_usable[OF sample_bootstrap] by blast

text \<open>C25: Which states one \<open>EnsureDevice\<close> call gives up for a new device: if the state it is given is complete,
  its result does not depend on what registering or key generation would do (it never registers), and if
  the API cannot be reached and no other license is configured it goes on with the given state; given the
  empty state, which \<open>Run\<close> passes when it retries with a fresh device, it does nothing but register.\<close>

theorem registers_only_unusable_state:
  assumes "is_reusable_legacy_state (loaded\<lparr>schema_version := 1\<rparr>)"
  shows "ensure_device (Some api) src cfg loaded w =
      ensure_device (Some (api\<lparr>api_register := other_register\<rparr>)) other_src cfg loaded w \<and>
    (case api_set_enabled api (device_id loaded) (access_token loaded) True w of
       (Inl _, w1) \<Rightarrow>
         normalize_license (warp_license cfg) \<in> {'''', license loaded} \<longrightarrow>
         ensure_device (Some api) src cfg loaded w = (Inr (loaded\<lparr>schema_version := 1\<rparr>), w1)
     | _ \<Rightarrow> True) \<and>
    ensure_device (Some api) src cfg empty_state w =
      andThen (register api src cfg) (\<lambda>created. apply_license api cfg created) w"
proof (intro conjI)
  have same: "refresh (api\<lparr>api_register := other_register\<rparr>) = refresh api"
    "apply_license (api\<lparr>api_register := other_register\<rparr>) = apply_license api"
    by (simp_all add: fun_eq_iff refresh_def fetch_state_def apply_license_def Let_def)
  show "ensure_device (Some api) src cfg loaded w =
      ensure_device (Some (api\<lparr>api_register := other_register\<rparr>)) other_src cfg loaded w"
    using assms by (simp add: ensure_device_def Let_def same)
next
  have "private_key loaded \<noteq> ''''" "device_id loaded \<noteq> ''''" "access_token loaded \<noteq> ''''"
    using assms by (simp_all add: is_reusable_legacy_state_def)
  then show "case api_set_enabled api (device_id loaded) (access_token loaded) True w of
       (Inl _, w1) \<Rightarrow>
         normalize_license (warp_license cfg) \<in> {'''', license loaded} \<longrightarrow>
         ensure_device (Some api) src cfg loaded w = (Inr (loaded\<lparr>schema_version := 1\<rparr>), w1)
     | _ \<Rightarrow> True"
    using assms
    by (auto simp: ensure_device_def Let_def refresh_def fetch_state_def apply_license_def attempt_def andThen_def
        wrapping_def split: prod.split sum.split)
next
  show "ensure_device (Some api) src cfg empty_state w =
      andThen (register api src cfg) (\<lambda>created. apply_license api cfg created) w"
    by (simp add: ensure_device_def Let_def refresh_def is_reusable_legacy_state_def empty_state_def attempt_def)
qed

lemma registers_only_unusable_state_witness:
  "ensure_device (Some sample_api) sample_entropy (sample_config ''unspecified'') sample_state () =
     (Inr (sample_state\<lparr>schema_version := 1\<rparr>), ())"
  using registers_only_unusable_state[OF sample_reusable, of sample_api sample_entropy "sample_config ''unspecified''" "()"]
  by (simp add: sample_api_def sample_config_def sample_licenses)

section \<open>The endpoint and its bypass\<close>

definition family_endpoint :: "stack_mode \<Rightarrow> endpoint \<Rightarrow> string" where
  "family_endpoint stack ep = (if stack = Stack6 then ep_v6 ep else ep_v4 ep)"

text \<open>C9: The tunnel's own packets are routed around the tunnel: when the API gives the endpoint of the stack's
  family as an address, bare or with the port 0 it uses as a placeholder, and a host name with a port, then
  WireGuard is configured with exactly that address and the host name's port, and the plan's one bypass
  route is the host route of that same address (an IPv4-mapped one as IPv4).\<close>

theorem endpoint_is_bypassed:
  assumes "state_from_warp_device d did token priv pub = Inr st" "config_peers d = p # ps"
    and "split_host_port (ep_host (peer_ep p)) = Inr (h, nat_dec port)" "port < 65536"
    and "addr_text a t" "family_endpoint (proxy_stack cfg) (peer_ep p) \<in> {t, join_host_port t ''0''}"
  shows "if_endpoint (desired_for name mtu cfg st) = join_host_port t (nat_dec port) \<and>
    (case addr_unmap a of
       Addr4 b \<Rightarrow> bypass_routes (plan_for cfg st) = [NetPrefix (Addr4 b) 32]
     | Addr6 b z \<Rightarrow> bypass_routes (plan_for cfg st) = [NetPrefix (Addr6 b []) 128]
     | NoAddr \<Rightarrow> False)"
proof -
  let ?ep = "join_host_port t (nat_dec port)"
  have joined: "join_endpoint_host_and_port (family_endpoint (proxy_stack cfg) (peer_ep p)) (ep_host (peer_ep p)) = ?ep"
    using join_endpoint_addr[OF assms(5) _ assms(3)] assms(6) by blast
  have st: "peer_endpoint_v4 st = join_endpoint_host_and_port (ep_v4 (peer_ep p)) (ep_host (peer_ep p))"
    "peer_endpoint_v6 st = join_endpoint_host_and_port (ep_v6 (peer_ep p)) (ep_host (peer_ep p))"
    using assms(1,2) by (auto simp: state_from_warp_device_def Let_def split: if_splits)
  have ensure: "ensure_endpoint_port ?ep fallback = ?ep" for fallback
    by (rule ensure_endpoint_port_join[OF assms(5) nat_dec_digits])
  have parsed: "parse_endpoint_addr ?ep = addr_unmap a"
    by (rule parse_endpoint_addr_join[OF assms(5,4)])
  have valid: "addr_is_valid (addr_unmap a)" using assms(5) by (auto simp: addr_text_def)
  have idem: "addr_unmap (addr_unmap a) = addr_unmap a"
    by (cases a) simp_all
  have "select_peer_endpoint st (proxy_stack cfg) = ?ep"
    using joined st ensure
    by (cases "proxy_stack cfg") (simp_all add: select_peer_endpoint_def family_endpoint_def first_nonempty_def Let_def)
  moreover have "select_peer_endpoint_address st (proxy_stack cfg) = addr_unmap a"
    using joined st parsed valid
    by (cases "proxy_stack cfg") (simp_all add: select_peer_endpoint_address_def family_endpoint_def Let_def)
  ultimately show ?thesis
    using valid idem
    by (cases "addr_unmap a") (auto simp: desired_for_def plan_for_def build_plan_def Let_def split: if_splits)
qed

definition sample_peer :: "string \<Rightarrow> string \<Rightarrow> peer" where
  "sample_peer v4 v6 = \<lparr>peer_ep = \<lparr>ep_host = ''engage.example:2408'', ep_v4 = v4, ep_v6 = v6, ep_ports = [2408]\<rparr>, peer_key = ''p''\<rparr>"

definition sample_device :: "string \<Rightarrow> string \<Rightarrow> device" where
  "sample_device v4 v6 = empty_device\<lparr>dev_id := ''d'', dev_token := ''t'', config_peers := [sample_peer v4 v6]\<rparr>"

lemma sample_device_state: "\<exists>st. state_from_warp_device (sample_device v4 v6) did token priv pub = Inr st"
  by (simp add: state_from_warp_device_def sample_device_def empty_device_def Let_def)

lemma sample_host_split: "split_host_port ''engage.example:2408'' = Inr (''engage.example'', nat_dec 2408)"
proof -
  have "nat_dec 2408 = ''2408''" by (simp add: nat_dec_eval)
  then show ?thesis by (simp add: split_host_port_def split_last_colon_def)
qed

lemma endpoint_is_bypassed_witness:
  "\<exists>st. state_from_warp_device (sample_device ''162.159.193.10:0'' '''') '''' '''' ''k'' '''' = Inr st \<and>
     bypass_routes (plan_for (sample_config '''') st) = [NetPrefix (Addr4 [162, 159, 193, 10]) 32]"
proof -
  obtain st where st: "state_from_warp_device (sample_device ''162.159.193.10:0'' '''') '''' '''' ''k'' '''' = Inr st"
    using sample_device_state by blast
  have ip: "string4 [162, 159, 193, 10] = ''162.159.193.10''"
    by (simp add: string4_def nat_dec_eval)
  have "addr_text (Addr4 [162, 159, 193, 10]) ''162.159.193.10''"
    unfolding addr_text_def by (rule exI[of _ "[162, 159, 193, 10]"]) (simp add: ip)
  from endpoint_is_bypassed[OF st _ _ _ this, of "sample_peer ''162.159.193.10:0'' ''''" "[]" "''engage.example''" 2408 "sample_config ''''"]
  show ?thesis
    using st sample_host_split
    by (simp add: sample_device_def sample_peer_def family_endpoint_def sample_config_def join_host_port_def)
qed

text \<open>But only an address endpoint is bypassed: if the API gives no address for the stack's family, WireGuard is
  configured with the host endpoint while the plan has no bypass route at all and still moves the default
  route into the tunnel, even if the host is itself an address.\<close>

theorem host_endpoint_not_bypassed:
  assumes "state_from_warp_device d did token priv pub = Inr st" "config_peers d = p # ps"
    and "\<forall>text \<in> {family_endpoint (proxy_stack cfg) (peer_ep p)} \<union>
           (if proxy_stack cfg = StackDual then {ep_v6 (peer_ep p)} else {}). text = ''''"
  shows "if_endpoint (desired_for name mtu cfg st) = ep_host (peer_ep p) \<and> bypass_routes (plan_for cfg st) = [] \<and>
    tunnel_routes (plan_for cfg st) \<noteq> []"
proof -
  have st: "peer_endpoint_v4 st = join_endpoint_host_and_port (ep_v4 (peer_ep p)) (ep_host (peer_ep p))"
    "peer_endpoint_v6 st = join_endpoint_host_and_port (ep_v6 (peer_ep p)) (ep_host (peer_ep p))"
    "peer_endpoint st = ep_host (peer_ep p)"
    using assms(1,2) by (auto simp: state_from_warp_device_def Let_def split: if_splits)
  have none: "join_endpoint_host_and_port '''' ep = ''''" "ensure_endpoint_port '''' ep = ''''"
    "parse_endpoint_addr '''' = NoAddr" for ep
    by (simp_all add: join_endpoint_host_and_port_def ensure_endpoint_port_def parse_endpoint_addr_def)
  show ?thesis
    using assms(3) st none
    by (cases "proxy_stack cfg")
       (simp_all add: desired_for_def plan_for_def build_plan_def Let_def family_endpoint_def select_peer_endpoint_def
          select_peer_endpoint_address_def first_nonempty_def)
qed

lemma host_endpoint_not_bypassed_witness:
  "\<exists>st. state_from_warp_device (sample_device '''' '''') '''' '''' ''k'' '''' = Inr st \<and>
     bypass_routes (plan_for (sample_config '''') st) = [] \<and> tunnel_routes (plan_for (sample_config '''') st) \<noteq> []"
proof -
  obtain st where st: "state_from_warp_device (sample_device '''' '''') '''' '''' ''k'' '''' = Inr st"
    using sample_device_state by blast
  from host_endpoint_not_bypassed[OF st, of "sample_peer '''' ''''" "[]" "sample_config ''''"] st
  show ?thesis by (auto simp: sample_device_def sample_peer_def family_endpoint_def sample_config_def)
qed

section \<open>Bringing the network up and down\<close>

definition del_link :: "string \<Rightarrow> command" where
  "del_link name = (''ip'', [''link'', ''del'', ''dev'', name])"

lemma wg_delete_logged:
  assumes "name \<noteq> ''''" "wg_delete (Some logged_run) name w = (r, w')"
  shows "cmd_log w' = cmd_log w @ [del_link name] \<and> cmd_outcome w' = cmd_outcome w"
proof -
  have "snd (wg_delete (Some logged_run) name w) = w\<lparr>cmd_log := cmd_log w @ [del_link name]\<rparr>"
    using assms(1) by (auto simp: wg_delete_def attempt_def logged_run_def Let_def del_link_def split: sum.split)
  with assms(2) show ?thesis by simp
qed

lemma value_or_default_name: "value_or_default name default_legacy_device_name \<noteq> ''''"
  by (simp add: value_or_default_def default_legacy_device_name_def)

lemma wg_commands_delete_first:
  assumes "prefix ys (wg_commands d conf)"
  shows "del_link (if_name d) \<notin> set (tl ys)"
proof -
  have "del_link (if_name d) \<notin> set (tl (wg_commands d conf))"
    by (auto simp: wg_commands_def del_link_def)
  moreover have "set (tl ys) \<subseteq> set (tl (wg_commands d conf))"
    using assms by (cases ys) (auto simp: prefix_def)
  ultimately show ?thesis by blast
qed

lemma wg_apply_failed:
  fixes w :: "'a cmd_world_scheme"
  assumes "wg_apply (Some logged_run) d w = (Inl e, w')"
  shows "\<exists>conf ys. prefix ys (wg_commands d conf) \<and> cmd_log w' = cmd_log w @ ys \<and> del_link (if_name d) \<notin> set (tl ys)"
proof (cases "validate_desired_config d")
  case (Some v)
  with assms show ?thesis by (auto simp: wg_apply_def)
next
  case None
  show ?thesis using wg_apply_issues[OF None assms] wg_commands_delete_first by meson
qed

text \<open>C30: What a failing start of the network undoes, and what not. A failure of the routes is reported only
  after the routes were cleaned up and, as the very last command, the interface was deleted. A failure of
  the device setup is reported before any route changes, but nothing is undone: the commands are exactly
  those of the setup up to the failing one, and the interface is not deleted after its creation, so one
  that \<open>ip link add\<close> created before, say, \<open>wg setconf\<close> failed stays behind.\<close>

theorem network_apply_failure:
  fixes w :: "'a cmd_world_scheme"
  assumes "network_apply (legacy_network logged_run name mtu) cfg st (m, w) = (Inl e, (m', w'))"
  shows "(\<exists>e1 conf ys. e = wrap ''apply wireguard device'' e1 \<and> m' = m \<and>
            wg_apply (Some logged_run) (desired_for name mtu cfg st) w = (Inl e1, w') \<and>
            cmd_log w' = cmd_log w @ ys \<and> prefix ys (wg_commands (desired_for name mtu cfg st) conf) \<and>
            del_link (value_or_default name default_legacy_device_name) \<notin> set (tl ys)) \<or>
    (\<exists>e1 m1 w1 w2. e = wrap ''apply routes'' e1 \<and>
       (\<exists>w0. wg_apply (Some logged_run) (desired_for name mtu cfg st) w = (Inr (), w0) \<and>
          route_apply (Some logged_run) (value_or_default name default_legacy_device_name) (plan_for cfg st) (m, w0)
            = (Inl e1, (m1, w1))) \<and>
       snd (route_cleanup (Some logged_run) (m1, w1)) = (m', w2) \<and>
       cmd_log w' = cmd_log w2 @ [del_link (value_or_default name default_legacy_device_name)])"
proof -
  let ?name = "value_or_default name default_legacy_device_name"
  let ?d = "desired_for name mtu cfg st"
  obtain r0 w0 where up: "wg_apply (Some logged_run) ?d w = (r0, w0)" by (cases "wg_apply (Some logged_run) ?d w")
  obtain r1 m1 w1 where routes: "route_apply (Some logged_run) ?name (plan_for cfg st) (m, w0) = (r1, (m1, w1))"
    by (metis prod.collapse)
  obtain r2 m2 w2 where down: "route_cleanup (Some logged_run) (m1, w1) = (r2, (m2, w2))" by (metis prod.collapse)
  obtain r3 w3 where del: "wg_delete (Some logged_run) ?name w2 = (r3, w3)" by (cases "wg_delete (Some logged_run) ?name w2")
  have log: "cmd_log w3 = cmd_log w2 @ [del_link ?name]"
    using wg_delete_logged[OF value_or_default_name del] by blast
  have run: "network_apply (legacy_network logged_run name mtu) cfg st (m, w) =
     (case r0 of Inl e0 \<Rightarrow> (Inl (wrap ''apply wireguard device'' e0), (m, w0))
      | Inr _ \<Rightarrow> (case r1 of Inr _ \<Rightarrow> (Inr (), (m1, w1)) | Inl e1 \<Rightarrow> (Inl (wrap ''apply routes'' e1), (m2, w3))))"
    using up routes down del
    by (simp add: network_apply_def legacy_network_def Let_def andThen_def attempt_def wrapping_def ignoring_def on_world_def
        split: sum.split)
  show ?thesis
  proof (cases r0)
    case (Inl e0)
    then have "e = wrap ''apply wireguard device'' e0" "m' = m" "w' = w0" using run assms by auto
    moreover have "if_name ?d = ?name" by (simp add: desired_for_def)
    ultimately show ?thesis using wg_apply_failed[of ?d w e0 w0] up Inl by auto
  next
    case (Inr u)
    then obtain e1 where "r1 = Inl e1" "e = wrap ''apply routes'' e1" "m' = m2" "w' = w3"
      using run assms by (cases r1) auto
    with routes down log up Inr show ?thesis
      by (intro disjI2 exI[of _ e1] exI[of _ m1] exI[of _ w1] exI[of _ w2]) auto
  qed
qed

lemma sample_wg_up: "\<exists>w0. wg_apply (Some logged_run) sample_desired sample_commands_world = (Inr (), w0) \<and> cmd_outcome w0 = (\<lambda>_. Inr '''')"
  by (simp add: wg_apply_def wg_delete_def write_set_conf_def wg_configure_def add_address_def validate_desired_config_def
      interface_addresses_def sample_desired_def sample_commands_world_def logged_run_def Let_def os_create_temp_def
      os_call_def pop_fault_def os_chmod_def os_write_def os_close_def os_remove_def set_file_def append_file_def
      andThen_def attempt_def wrapping_def ignoring_def)

definition sample_tunnel_state :: device_state where
  "sample_tunnel_state = empty_state\<lparr>private_key := ''k'', ipv4 := ''10.0.0.2'', peer_public_key := ''p'', peer_endpoint := ''e:1''\<rparr>"

definition sample_v4_config :: config where
  "sample_v4_config = (sample_config '''')\<lparr>proxy_stack := Stack4\<rparr>"

lemma sample_desired_for: "desired_for ''wg'' 0 sample_v4_config sample_tunnel_state = sample_desired"
  by (simp add: desired_for_def sample_v4_config_def sample_config_def sample_tunnel_state_def empty_state_def
      sample_desired_def value_or_default_def select_peer_endpoint_def first_nonempty_def ensure_endpoint_port_def Let_def)

lemma decode_empty_output: "\<exists>e. json_unmarshal (into_slice empty_route into_default_route) [] '''' = Inl e"
  by (simp add: json_unmarshal_def json_parse_def json_run.simps next_token_def)

text \<open>A world in which every command succeeds but \<open>wg setconf\<close>.\<close>

definition setconf_fails_world :: cmd_world where
  "setconf_fails_world = sample_commands_world\<lparr>cmd_outcome :=
     \<lambda>cmds. if fst (last cmds) = ''wg'' then Inl (errorf ''exit status 1'') else Inr ''''\<rparr>"

lemma setconf_fails:
  "\<exists>w'. wg_apply (Some logged_run) sample_desired setconf_fails_world = (Inl (errorf ''exit status 1''), w') \<and>
     length (cmd_log w') = 3"
  by (simp add: wg_apply_def wg_delete_def write_set_conf_def wg_configure_def add_address_def validate_desired_config_def
      interface_addresses_def sample_desired_def sample_commands_world_def setconf_fails_world_def logged_run_def Let_def
      os_create_temp_def os_call_def pop_fault_def os_chmod_def os_write_def os_close_def os_remove_def set_file_def
      append_file_def andThen_def attempt_def wrapping_def ignoring_def)

lemma network_apply_failure_witness:
  "(\<exists>e m' w' w2. network_apply (legacy_network logged_run ''wg'' 0) sample_v4_config sample_tunnel_state
      (new_route_manager, sample_commands_world) = (Inl (wrap ''apply routes'' e), (m', w')) \<and>
      cmd_log w' = w2 @ [del_link ''wg'']) \<and>
   (\<exists>e w' conf. network_apply (legacy_network logged_run ''wg'' 0) sample_v4_config sample_tunnel_state
      (new_route_manager, setconf_fails_world) = (Inl (wrap ''apply wireguard device'' e), (new_route_manager, w')) \<and>
      cmd_log w' = [del_link ''wg'', (''ip'', [''link'', ''add'', ''dev'', ''wg'', ''type'', ''wireguard'']),
        (''wg'', [''setconf'', ''wg'', conf])])"
proof
  obtain w0 where up: "wg_apply (Some logged_run) sample_desired sample_commands_world = (Inr (), w0)"
    "cmd_outcome w0 = (\<lambda>_. Inr '''')" using sample_wg_up by blast
  obtain e where e: "json_unmarshal (into_slice empty_route into_default_route) [] '''' = Inl e"
    using decode_empty_output by blast
  have routes: "\<exists>e w1. route_apply (Some logged_run) ''wg'' plan (new_route_manager, w0) = (Inl e, (new_route_manager, w1))" for plan
    using up(2) e
    by (simp add: route_apply_def discover_once_def discover_default_route_def new_route_manager_def with_self_def
        on_world_def attempt_def andThen_def logged_run_def Let_def)
  obtain e m' w' where run: "network_apply (legacy_network logged_run ''wg'' 0) sample_v4_config sample_tunnel_state
      (new_route_manager, sample_commands_world) = (Inl (wrap ''apply routes'' e), (m', w'))"
    using up(1) routes[of "plan_for sample_v4_config sample_tunnel_state"] sample_desired_for
    by (auto simp: network_apply_def legacy_network_def Let_def andThen_def attempt_def wrapping_def ignoring_def
        value_or_default_def on_world_def) (metis prod.collapse)
  from network_apply_failure[OF this] run
  show "\<exists>e m' w' w2. network_apply (legacy_network logged_run ''wg'' 0) sample_v4_config sample_tunnel_state
      (new_route_manager, sample_commands_world) = (Inl (wrap ''apply routes'' e), (m', w')) \<and>
      cmd_log w' = w2 @ [del_link ''wg'']"
    using sample_desired_for up(1) by (auto simp: value_or_default_def)
next
  obtain w' where up: "wg_apply (Some logged_run) sample_desired setconf_fails_world = (Inl (errorf ''exit status 1''), w')"
    "length (cmd_log w') = 3" using setconf_fails by blast
  have run: "network_apply (legacy_network logged_run ''wg'' 0) sample_v4_config sample_tunnel_state
      (new_route_manager, setconf_fails_world) =
      (Inl (wrap ''apply wireguard device'' (errorf ''exit status 1'')), (new_route_manager, w'))"
    using up(1) sample_desired_for
    by (simp add: network_apply_def legacy_network_def Let_def andThen_def wrapping_def on_world_def)
  from network_apply_failure[OF this] up(1) sample_desired_for obtain conf ys where
    "cmd_log w' = ys" "prefix ys (wg_commands sample_desired conf)"
    by (auto simp: setconf_fails_world_def sample_commands_world_def)
  moreover have "take 3 (wg_commands sample_desired conf) = [del_link ''wg'',
      (''ip'', [''link'', ''add'', ''dev'', ''wg'', ''type'', ''wireguard'']), (''wg'', [''setconf'', ''wg'', conf])]"
    by (simp add: wg_commands_def sample_desired_def del_link_def)
  ultimately have "cmd_log w' = [del_link ''wg'',
      (''ip'', [''link'', ''add'', ''dev'', ''wg'', ''type'', ''wireguard'']), (''wg'', [''setconf'', ''wg'', conf])]"
    using up(2) by (metis append_eq_conv_conj prefix_def)
  with run show "\<exists>e w' conf. network_apply (legacy_network logged_run ''wg'' 0) sample_v4_config sample_tunnel_state
      (new_route_manager, setconf_fails_world) = (Inl (wrap ''apply wireguard device'' e), (new_route_manager, w')) \<and>
      cmd_log w' = [del_link ''wg'', (''ip'', [''link'', ''add'', ''dev'', ''wg'', ''type'', ''wireguard'']),
        (''wg'', [''setconf'', ''wg'', conf])]" by blast
qed

definition delete_command :: "prefix4or6 \<Rightarrow> command" where
  "delete_command pfx = (''ip'', (if addr_is6 (prefix_addr pfx) then [''-6''] else []) @ [''route'', ''del'', prefix_string pfx])"

text \<open>C40: A failing clean-up can strand the host: if removing the bypass route fails for a reason other than its
  absence, the default routes are never restored, yet the interface they point at is deleted as the last
  command; the error is reported and the manager keeps its memory of the original routes.\<close>

theorem cleanup_stops_before_restoring:
  fixes w :: "'a cmd_world_scheme"
  assumes "installed_bypass m = b # bs" "cmd_outcome w (cmd_log w @ [delete_command b]) = Inl e"
    and "\<not> str_contains (error_text e) ''No such process''"
    and "network_cleanup (legacy_network logged_run name mtu) (m, w) = (r, (m', w'))"
  shows "cmd_log w' = cmd_log w @ [delete_command b, del_link (value_or_default name default_legacy_device_name)] \<and>
    m' = m \<and> (\<exists>err. r = Inl err)"
proof -
  let ?name = "value_or_default name default_legacy_device_name"
  let ?w1 = "w\<lparr>cmd_log := cmd_log w @ [delete_command b]\<rparr>"
  have down: "route_cleanup (Some logged_run) (m, w) = (Inl e, (m, ?w1))"
    using assms(1-3)
    by (simp add: route_cleanup_def with_self_def on_world_def delete_route_def attempt_def andThen_def logged_run_def Let_def
        delete_command_def)
  obtain r2 w2 where del: "wg_delete (Some logged_run) ?name ?w1 = (r2, w2)" by (cases "wg_delete (Some logged_run) ?name ?w1")
  have "network_cleanup (legacy_network logged_run name mtu) (m, w) =
     (case r2 of Inl e2 \<Rightarrow> (Inl (Joined (wrap ''cleanup routes'' e) (wrap ''delete wireguard device'' e2)), (m, w2))
      | Inr _ \<Rightarrow> (Inl (wrap ''cleanup routes'' e), (m, w2)))"
    using down del
    by (simp add: network_cleanup_def legacy_network_def attempt_def wrapping_def on_world_def split: sum.split)
  with assms(4) wg_delete_logged[OF value_or_default_name del] show ?thesis
    by (cases r2) auto
qed

lemma cleanup_stops_before_restoring_witness:
  fixes w and m :: route_manager
  defines "w \<equiv> sample_commands_world\<lparr>cmd_outcome := \<lambda>_. Inl (errorf ''Operation not permitted'')\<rparr>"
    and "m \<equiv> new_route_manager\<lparr>original_v4 := Some sample_default, installed_bypass := [NetPrefix (Addr4 [162, 159, 193, 10]) 32]\<rparr>"
  shows "cmd_log (snd (snd (network_cleanup (legacy_network logged_run ''wg'' 0) (m, w)))) =
    [delete_command (NetPrefix (Addr4 [162, 159, 193, 10]) 32), del_link ''wg'']"
proof -
  obtain r m' w' where run: "network_cleanup (legacy_network logged_run ''wg'' 0) (m, w) = (r, (m', w'))"
    by (metis prod.collapse)
  have "\<not> str_contains ''Operation not permitted'' ''No such process''"
    by (simp add: str_contains_def sublist_Cons_right)
  with cleanup_stops_before_restoring[OF _ _ _ run, of "NetPrefix (Addr4 [162, 159, 193, 10]) 32" "[]"
      "errorf ''Operation not permitted''"] run
  show ?thesis by (simp add: m_def w_def sample_commands_world_def value_or_default_def)
qed

end
