(* ===== verification/Supervisor.thy ===== *)
theory Supervisor
  imports Socks5_Wire
begin

text \<open>
  \<open>internal/process\<close>: the supervisor of the SOCKS5 process. Its calls (\<open>Start\<close>, \<open>Stop\<close>, \<open>Done\<close> with the
  receive of its caller) and the goroutine that waits for each started process run concurrently, so the
  model is a step relation on the supervisor's fields, the processes, their \<open>done\<close> channels, their waiting
  goroutines and the calls in progress. A critical section of the mutex is one step that needs the lock
  to be free; the one path that returns without unlocking leaves it taken. Any number of threads may
  call, and the environment decides exits, signal errors, dial results, timers and cancellations.
\<close>

section \<open>Errors and addresses\<close>

text \<open>\<open>normalizeWaitError\<close>; the error type \<open>unexpectedExitError\<close> prints and unwraps like a wrapped error.\<close>

definition unexpected_exit :: "go_error \<Rightarrow> go_error" where
  "unexpected_exit e = wrap ''process exited unexpectedly'' e"

definition normalize_wait_error :: "go_error option \<Rightarrow> bool \<Rightarrow> go_error option" where
  "normalize_wait_error err stopped =
     (case err of
        None \<Rightarrow> None
      | Some e \<Rightarrow>
          if stopped \<and> (has_kind Exited e \<or> has_kind ProcessDone e) then None
          else Some (unexpected_exit e))"

definition local_readiness_address :: "string \<Rightarrow> go_error + string" where
  "local_readiness_address addr =
     (case split_host_port addr of
        Inl e \<Rightarrow> Inl e
      | Inr (host, port) \<Rightarrow>
          Inr (join_host_port (if host \<in> {'''', ''0.0.0.0'', ''::''} then ''127.0.0.1'' else host) port))"

text \<open>What \<open>Start\<close> checks before it takes the lock; \<open>load\<close> is \<open>socks5.LoadFileConfig\<close> on the files as they are.\<close>

definition start_check :: "string \<Rightarrow> (string \<Rightarrow> go_error + server_config) \<Rightarrow> string \<Rightarrow> go_error + string" where
  "start_check binary load path =
     (if binary = '''' then Inl (errorf ''socks5 binary path is required'')
      else if path = '''' then Inl (errorf ''socks5 config path is required'')
      else case load path of
        Inl e \<Rightarrow> Inl (wrap ''load socks5 config'' e)
      | Inr cfg \<Rightarrow>
          (case local_readiness_address (listen_addr cfg) of
             Inl e \<Rightarrow> Inl (wrap ''resolve socks5 readiness address'' e)
           | Inr addr \<Rightarrow> Inr addr))"

section \<open>The state\<close>

datatype proc = Absent | Running | Dead "go_error option"

datatype waiter =
    NoWaiter
  | WaitCmd
  | WaitLock "go_error option"
  | WaitSend "go_error option"
  | WaitClose
  | WaitFinished

record channel =
  chan_buffer :: "go_error option option"
  chan_closed :: bool

definition new_channel :: channel where
  "new_channel = \<lparr>chan_buffer = None, chan_closed = False\<rparr>"

text \<open>A receive: the buffered value, nil from a closed empty channel, or it blocks.\<close>

definition receive :: "channel \<Rightarrow> (go_error option \<times> channel) option" where
  "receive c =
     (case chan_buffer c of
        Some v \<Rightarrow> Some (v, c\<lparr>chan_buffer := None\<rparr>)
      | None \<Rightarrow> if chan_closed c then Some (None, c) else None)"

text \<open>Why \<open>Stop\<close> runs: called, or by a \<open>Start\<close> that fails with an error and ignores its result.\<close>

datatype after_stop = StopCall | StartFailed go_error

datatype call =
    Idle
  | StartCheck string
  | StartLock string
  | StartReady nat string
  | StopLock after_stop
  | StopSignal nat after_stop
  | StopWait nat after_stop
  | StopKill nat after_stop
  | StopDrain nat after_stop
  | DoneLock
  | DoneReceive nat
  | Returned "go_error option"

fun finish_stop :: "after_stop \<Rightarrow> go_error option \<Rightarrow> call" where
  "finish_stop StopCall r = Returned r"
| "finish_stop (StartFailed e) r = Returned (Some (wrap ''wait for socks5 readiness'' e))"

record supervisor =
  sup_locked :: bool
  sup_cmd :: "nat option"
  sup_done :: "nat option"
  sup_stopped :: bool
  procs :: "nat \<Rightarrow> proc"
  waiters :: "nat \<Rightarrow> waiter"
  chans :: "nat \<Rightarrow> channel"
  next_proc :: nat
  calls :: "nat \<Rightarrow> call"

definition new_supervisor :: supervisor where
  "new_supervisor = \<lparr>sup_locked = False, sup_cmd = None, sup_done = None, sup_stopped = False,
     procs = \<lambda>_. Absent, waiters = \<lambda>_. NoWaiter, chans = \<lambda>_. new_channel, next_proc = 0, calls = \<lambda>_. Idle\<rparr>"

definition set_call :: "nat \<Rightarrow> call \<Rightarrow> supervisor \<Rightarrow> supervisor" where
  "set_call t c s = s\<lparr>calls := (calls s)(t := c)\<rparr>"

definition set_waiter :: "nat \<Rightarrow> waiter \<Rightarrow> supervisor \<Rightarrow> supervisor" where
  "set_waiter i v s = s\<lparr>waiters := (waiters s)(i := v)\<rparr>"

definition set_proc :: "nat \<Rightarrow> proc \<Rightarrow> supervisor \<Rightarrow> supervisor" where
  "set_proc i p s = s\<lparr>procs := (procs s)(i := p)\<rparr>"

definition set_chan :: "nat \<Rightarrow> channel \<Rightarrow> supervisor \<Rightarrow> supervisor" where
  "set_chan i c s = s\<lparr>chans := (chans s)(i := c)\<rparr>"

lemmas supervisor_updates = set_call_def set_waiter_def set_proc_def set_chan_def

text \<open>The critical section of a \<open>Start\<close> whose process starts.\<close>

definition launch :: "nat \<Rightarrow> string \<Rightarrow> supervisor \<Rightarrow> supervisor" where
  "launch t addr s =
     (let i = next_proc s in
      set_call t (StartReady i addr) (set_chan i new_channel (set_waiter i WaitCmd (set_proc i Running
        (s\<lparr>sup_cmd := Some i, sup_stopped := False, sup_done := Some i, next_proc := Suc i\<rparr>)))))"

text \<open>The critical sections of \<open>Stop\<close> and of the waiting goroutine.\<close>

definition begin_stop :: "nat \<Rightarrow> after_stop \<Rightarrow> supervisor \<Rightarrow> supervisor" where
  "begin_stop t k s =
     set_call t (case sup_cmd s of None \<Rightarrow> finish_stop k None | Some i \<Rightarrow> StopSignal i k) (s\<lparr>sup_stopped := True\<rparr>)"

definition reap :: "nat \<Rightarrow> go_error option \<Rightarrow> supervisor \<Rightarrow> supervisor" where
  "reap i r s =
     set_waiter i (WaitSend (normalize_wait_error r (sup_stopped s)))
       (s\<lparr>sup_cmd := (if sup_cmd s = Some i then None else sup_cmd s)\<rparr>)"

definition exited_early :: "go_error option \<Rightarrow> go_error" where
  "exited_early v = (case v of Some e \<Rightarrow> e | None \<Rightarrow> errorf ''socks5 process exited before becoming ready'')"

section \<open>The steps\<close>

text \<open>
  A process and its channel are created together and share a number, so a call that read \<open>s.cmd\<close> and
  \<open>s.done\<close> under the lock carries one number. \<open>check\<close> is \<open>start_check\<close> of the binary path and the files.
\<close>

inductive sup_step :: "(string \<Rightarrow> go_error + string) \<Rightarrow> supervisor \<Rightarrow> supervisor \<Rightarrow> bool" for check where
  call_start: "calls s t \<in> {Idle} \<union> range Returned \<Longrightarrow> sup_step check s (set_call t (StartCheck path) s)"
| call_stop: "calls s t \<in> {Idle} \<union> range Returned \<Longrightarrow> sup_step check s (set_call t (StopLock StopCall) s)"
| call_done: "calls s t \<in> {Idle} \<union> range Returned \<Longrightarrow> sup_step check s (set_call t DoneLock s)"
| start_refused: "calls s t = StartCheck path \<Longrightarrow> check path = Inl e \<Longrightarrow>
    sup_step check s (set_call t (Returned (Some e)) s)"
| start_checked: "calls s t = StartCheck path \<Longrightarrow> check path = Inr addr \<Longrightarrow>
    sup_step check s (set_call t (StartLock addr) s)"
| start_busy: "calls s t = StartLock addr \<Longrightarrow> \<not> sup_locked s \<Longrightarrow> sup_cmd s = Some i \<Longrightarrow>
    sup_step check s (set_call t (Returned (Some (errorf ''socks5 process already running''))) s)"
| exec_fails: "calls s t = StartLock addr \<Longrightarrow> \<not> sup_locked s \<Longrightarrow> sup_cmd s = None \<Longrightarrow>
    sup_step check s (set_call t (Returned (Some e)) (s\<lparr>sup_locked := True\<rparr>))"
| exec_starts: "calls s t = StartLock addr \<Longrightarrow> \<not> sup_locked s \<Longrightarrow> sup_cmd s = None \<Longrightarrow>
    sup_step check s (launch t addr s)"
| dial_answered: "calls s t = StartReady i addr \<Longrightarrow> sup_step check s (set_call t (Returned None) s)"
| dial_exited: "calls s t = StartReady i addr \<Longrightarrow> receive (chans s i) = Some (v, c) \<Longrightarrow>
    sup_step check s (set_call t (StopLock (StartFailed (exited_early v))) (set_chan i c s))"
| dial_canceled: "calls s t = StartReady i addr \<Longrightarrow>
    sup_step check s (set_call t (StopLock (StartFailed (Leaf Canceled ctx_err))) s)"
| dial_timeout: "calls s t = StartReady i addr \<Longrightarrow> receive (chans s i) = None \<Longrightarrow>
    sup_step check s (set_call t (StopLock (StartFailed (errorf (''timed out waiting for '' @ addr)))) s)"
| stop_begins: "calls s t = StopLock k \<Longrightarrow> \<not> sup_locked s \<Longrightarrow> sup_step check s (begin_stop t k s)"
| signal_sent: "calls s t = StopSignal i k \<Longrightarrow> sup_step check s (set_call t (StopWait i k) s)"
| signal_fails: "calls s t = StopSignal i k \<Longrightarrow> procs s i = Running \<Longrightarrow> \<not> has_kind ProcessDone e \<Longrightarrow>
    sup_step check s (set_call t (finish_stop k (Some e)) s)"
| stop_receives: "calls s t = StopWait i k \<Longrightarrow> receive (chans s i) = Some (v, c) \<Longrightarrow>
    sup_step check s (set_call t (finish_stop k (normalize_wait_error v True)) (set_chan i c s))"
| stop_timeout: "calls s t = StopWait i k \<Longrightarrow> sup_step check s (set_call t (StopKill i k) s)"
| kill_sent: "calls s t = StopKill i k \<Longrightarrow> sup_step check s (set_call t (StopDrain i k) s)"
| kill_fails: "calls s t = StopKill i k \<Longrightarrow> procs s i = Running \<Longrightarrow> \<not> has_kind ProcessDone e \<Longrightarrow>
    sup_step check s (set_call t (finish_stop k (Some e)) s)"
| drain_receives: "calls s t = StopDrain i k \<Longrightarrow> receive (chans s i) = Some (v, c) \<Longrightarrow>
    sup_step check s (set_call t (finish_stop k (normalize_wait_error v True)) (set_chan i c s))"
| done_nil: "calls s t = DoneLock \<Longrightarrow> \<not> sup_locked s \<Longrightarrow> sup_done s = None \<Longrightarrow>
    sup_step check s (set_call t (Returned None) s)"
| done_channel: "calls s t = DoneLock \<Longrightarrow> \<not> sup_locked s \<Longrightarrow> sup_done s = Some i \<Longrightarrow>
    sup_step check s (set_call t (DoneReceive i) s)"
| done_receives: "calls s t = DoneReceive i \<Longrightarrow> receive (chans s i) = Some (v, c) \<Longrightarrow>
    sup_step check s (set_call t (Returned v) (set_chan i c s))"
| proc_exits: "procs s i = Running \<Longrightarrow> sup_step check s (set_proc i (Dead r) s)"
| wait_returns: "waiters s i = WaitCmd \<Longrightarrow> procs s i = Dead r \<Longrightarrow> sup_step check s (set_waiter i (WaitLock r) s)"
| wait_reaps: "waiters s i = WaitLock r \<Longrightarrow> \<not> sup_locked s \<Longrightarrow> sup_step check s (reap i r s)"
| wait_sends: "waiters s i = WaitSend v \<Longrightarrow> chan_buffer (chans s i) = None \<Longrightarrow>
    sup_step check s (set_waiter i WaitClose (set_chan i ((chans s i)\<lparr>chan_buffer := Some v\<rparr>) s))"
| wait_closes: "waiters s i = WaitClose \<Longrightarrow>
    sup_step check s (set_waiter i WaitFinished (set_chan i ((chans s i)\<lparr>chan_closed := True\<rparr>) s))"

abbreviation sup_steps :: "(string \<Rightarrow> go_error + string) \<Rightarrow> supervisor \<Rightarrow> supervisor \<Rightarrow> bool" where
  "sup_steps check \<equiv> (sup_step check)\<^sup>*\<^sup>*"

definition sup_reachable :: "(string \<Rightarrow> go_error + string) \<Rightarrow> supervisor \<Rightarrow> bool" where
  "sup_reachable check s \<longleftrightarrow> sup_steps check new_supervisor s"

section \<open>The invariant\<close>

definition waits_for_proc :: "waiter \<Rightarrow> bool" where
  "waits_for_proc v \<longleftrightarrow> v = WaitCmd \<or> (\<exists>r. v = WaitLock r)"

definition before_send :: "waiter \<Rightarrow> bool" where
  "before_send v \<longleftrightarrow> v = NoWaiter \<or> waits_for_proc v \<or> (\<exists>r. v = WaitSend r)"

fun call_proc :: "call \<Rightarrow> nat option" where
  "call_proc (StartReady i addr) = Some i"
| "call_proc (StopSignal i k) = Some i"
| "call_proc (StopWait i k) = Some i"
| "call_proc (StopKill i k) = Some i"
| "call_proc (StopDrain i k) = Some i"
| "call_proc (DoneReceive i) = Some i"
| "call_proc _ = None"

definition sup_inv :: "supervisor \<Rightarrow> bool" where
  "sup_inv s \<longleftrightarrow>
     (\<forall>i. waits_for_proc (waiters s i) \<longleftrightarrow> sup_cmd s = Some i) \<and>
     (\<forall>i. sup_cmd s = Some i \<longrightarrow> sup_done s = Some i) \<and>
     (\<forall>i. sup_done s = Some i \<longrightarrow> i < next_proc s) \<and>
     (\<forall>i. procs s i = Running \<longrightarrow> waiters s i = WaitCmd) \<and>
     (\<forall>i. waiters s i = NoWaiter \<longleftrightarrow> next_proc s \<le> i) \<and>
     (\<forall>i. before_send (waiters s i) \<longrightarrow> chans s i = new_channel) \<and>
     (\<forall>i. chan_closed (chans s i) \<longleftrightarrow> waiters s i = WaitFinished) \<and>
     (\<forall>i. procs s i = Absent \<longrightarrow> waiters s i = NoWaiter) \<and>
     (\<forall>t i. call_proc (calls s t) = Some i \<longrightarrow> i < next_proc s) \<and>
     (sup_locked s \<longrightarrow> sup_cmd s = None)"

lemma sup_inv_init: "sup_inv new_supervisor"
  by (simp add: sup_inv_def new_supervisor_def waits_for_proc_def new_channel_def)

lemma call_proc_finish [simp]: "call_proc (finish_stop k r) = None"
  by (cases k) simp_all

lemma receive_parts:
  "receive c = Some (v, c') \<Longrightarrow> chan_closed c' = chan_closed c"
  "receive c = Some (v, c') \<Longrightarrow> c \<noteq> new_channel"
  by (auto simp: receive_def new_channel_def split: option.splits if_splits)

lemma sup_inv_call:
  assumes "sup_inv s" "\<And>i. call_proc c = Some i \<Longrightarrow> i < next_proc s"
  shows "sup_inv (set_call t c s)"
  using assms by (simp add: sup_inv_def set_call_def)

lemma sup_inv_receive:
  assumes "sup_inv s" "receive (chans s i) = Some (v, c)"
  shows "sup_inv (set_chan i c s)"
  using assms receive_parts[OF assms(2)] by (auto simp: sup_inv_def set_chan_def)

lemma sup_inv_exit: "sup_inv s \<Longrightarrow> procs s i = Running \<Longrightarrow> sup_inv (set_proc i (Dead r) s)"
  by (auto simp: sup_inv_def set_proc_def)

lemma sup_inv_call_proc: "sup_inv s \<Longrightarrow> calls s t = c \<Longrightarrow> call_proc c = Some i \<Longrightarrow> i < next_proc s"
  unfolding sup_inv_def by blast

lemma sup_inv_lock: "sup_inv s \<Longrightarrow> sup_cmd s = None \<Longrightarrow> sup_inv (s\<lparr>sup_locked := True\<rparr>)"
  by (simp add: sup_inv_def)

lemma sup_inv_launch:
  assumes "sup_inv s" "\<not> sup_locked s" "sup_cmd s = None"
  shows "sup_inv (launch t addr s)"
proof -
  have late: "i < Suc (next_proc s)" if "call_proc (calls s u) = Some i" for u i
    using assms(1) that unfolding sup_inv_def by (meson less_SucI)
  have gone: "\<not> waits_for_proc (waiters s i)" "procs s i = Running \<longrightarrow> waiters s i = WaitCmd" for i
    using assms(1,3) by (auto simp: sup_inv_def)
  then have "procs s i \<noteq> Running" for i
    using waits_for_proc_def by metis
  with assms late gone(1) show ?thesis
    by (auto simp: sup_inv_def launch_def Let_def supervisor_updates waits_for_proc_def before_send_def new_channel_def
        not_le less_Suc_eq)
qed

lemma sup_inv_begin_stop: "sup_inv s \<Longrightarrow> sup_inv (begin_stop t k s)"
proof -
  assume inv: "sup_inv s"
  then have "sup_inv (s\<lparr>sup_stopped := True\<rparr>)" by (simp add: sup_inv_def)
  then show ?thesis
    using inv unfolding begin_stop_def
    by (rule_tac sup_inv_call) (auto simp: sup_inv_def split: option.splits)
qed

lemma sup_inv_reap:
  assumes "sup_inv s" "waiters s i = WaitLock r"
  shows "sup_inv (reap i r s)"
proof -
  have "sup_cmd s = Some i" using assms by (auto simp: sup_inv_def waits_for_proc_def)
  moreover have "procs s i \<noteq> Running" using assms by (auto simp: sup_inv_def)
  moreover have "waits_for_proc (waiters s j) \<longleftrightarrow> j = i" for j
    using assms(1) calculation(1) by (auto simp: sup_inv_def)
  ultimately show ?thesis
    using assms by (auto simp: sup_inv_def reap_def supervisor_updates waits_for_proc_def before_send_def)
qed

lemma sup_inv_slot:
  assumes "sup_inv s" "waiters s i = v" "\<not> waits_for_proc v" "v \<noteq> NoWaiter"
  shows "sup_cmd s \<noteq> Some i" "procs s i \<noteq> Running" "procs s i \<noteq> Absent" "i < next_proc s"
proof -
  show "sup_cmd s \<noteq> Some i" using assms unfolding sup_inv_def by metis
  show "procs s i \<noteq> Running" using assms unfolding sup_inv_def waits_for_proc_def by metis
  show "procs s i \<noteq> Absent" using assms unfolding sup_inv_def by metis
  show "i < next_proc s" using assms unfolding sup_inv_def by (metis not_le)
qed

text \<open>The waiting goroutine moves on, its channel with it.\<close>

lemma sup_inv_advance:
  assumes "sup_inv s" "waiters s i = v" "\<not> waits_for_proc v" "v \<noteq> NoWaiter"
    and "\<not> before_send v'" "chan_closed c = (v' = WaitFinished)"
  shows "sup_inv (set_waiter i v' (set_chan i c s))"
proof -
  have v': "\<not> waits_for_proc v'" "v' \<noteq> NoWaiter" using assms(5) by (auto simp: before_send_def)
  show ?thesis
    using assms(1,5,6) v' sup_inv_slot[OF assms(1-4)] unfolding sup_inv_def
    by (simp add: supervisor_updates)
qed

lemma sup_inv_send:
  "sup_inv s \<Longrightarrow> waiters s i = WaitSend v \<Longrightarrow>
    sup_inv (set_waiter i WaitClose (set_chan i ((chans s i)\<lparr>chan_buffer := Some v\<rparr>) s))"
  by (rule sup_inv_advance) (auto simp: waits_for_proc_def before_send_def sup_inv_def new_channel_def)

lemma sup_inv_close:
  "sup_inv s \<Longrightarrow> waiters s i = WaitClose \<Longrightarrow>
    sup_inv (set_waiter i WaitFinished (set_chan i ((chans s i)\<lparr>chan_closed := True\<rparr>) s))"
  by (rule sup_inv_advance) (auto simp: waits_for_proc_def before_send_def)

lemma sup_inv_wait_returns:
  assumes "sup_inv s" "waiters s i = WaitCmd" "procs s i = Dead r"
  shows "sup_inv (set_waiter i (WaitLock r) s)"
proof -
  have "sup_cmd s = Some i" using assms(1,2) unfolding sup_inv_def waits_for_proc_def by metis
  moreover have "chans s i = new_channel" using assms(1,2) unfolding sup_inv_def before_send_def waits_for_proc_def by metis
  ultimately show ?thesis
    using assms by (auto simp: sup_inv_def supervisor_updates waits_for_proc_def before_send_def)
qed

lemma sup_inv_step:
  assumes "sup_step check s s'" "sup_inv s"
  shows "sup_inv s'"
  using assms
proof (induction rule: sup_step.induct)
  case (exec_fails s t addr e)
  then show ?case by (intro sup_inv_call sup_inv_lock) auto
next
  case (exec_starts s t addr)
  then show ?case by (intro sup_inv_launch)
next
  case (stop_begins s t k)
  then show ?case by (intro sup_inv_begin_stop)
next
  case (wait_returns s i r)
  then show ?case by (intro sup_inv_wait_returns)
next
  case (wait_reaps s i r)
  then show ?case by (intro sup_inv_reap)
next
  case (wait_sends s i v)
  then show ?case by (intro sup_inv_send)
next
  case (wait_closes s i)
  then show ?case by (intro sup_inv_close)
next
  case (proc_exits s i r)
  then show ?case by (intro sup_inv_exit)
next
  case (done_channel s t i)
  then show ?case by (intro sup_inv_call) (auto simp: sup_inv_def)
next
  case (dial_exited s t i addr v c)
  then show ?case by (intro sup_inv_call sup_inv_receive) auto
next
  case (stop_receives s t i k v c)
  then show ?case by (intro sup_inv_call sup_inv_receive) auto
next
  case (drain_receives s t i k v c)
  then show ?case by (intro sup_inv_call sup_inv_receive) auto
next
  case (done_receives s t i v c)
  then show ?case by (intro sup_inv_call sup_inv_receive) auto
qed (rule sup_inv_call; auto dest: sup_inv_call_proc)+

lemma sup_inv_steps: "sup_steps check s s' \<Longrightarrow> sup_inv s \<Longrightarrow> sup_inv s'"
  by (induction rule: rtranclp_induct) (auto dest: sup_inv_step)

lemma sup_reachable_inv: "sup_reachable check s \<Longrightarrow> sup_inv s"
  unfolding sup_reachable_def using sup_inv_steps sup_inv_init by blast

inductive_cases sup_stepE: "sup_step check s s'"

section \<open>Properties\<close>

text \<open>C3: At no moment do two proxy processes run: in every state the supervisor can get into, under every
  interleaving of its callers, waiting goroutines, exits and signal errors, a running process is the one
  the supervisor has on record, with a waiting goroutine that has not reported yet and an empty, open
  \<open>done\<close> channel.\<close>

theorem one_proxy_at_a_time:
  assumes "sup_reachable check s" "procs s i = Running"
  shows "sup_cmd s = Some i \<and> sup_done s = Some i \<and> waiters s i = WaitCmd \<and> chans s i = new_channel \<and>
    (\<forall>j. procs s j = Running \<longrightarrow> j = i)"
proof -
  have inv: "sup_inv s" by (rule sup_reachable_inv[OF assms(1)])
  have cmd: "waiters s j = WaitCmd \<and> sup_cmd s = Some j" if "procs s j = Running" for j
    using inv that unfolding sup_inv_def waits_for_proc_def by metis
  moreover have "sup_done s = Some i" "chans s i = new_channel"
    using inv cmd[OF assms(2)] unfolding sup_inv_def waits_for_proc_def before_send_def by metis+
  moreover have "j = i" if "procs s j = Running" for j
    using cmd[OF that] cmd[OF assms(2)] by simp
  ultimately show ?thesis using cmd[OF assms(2)] by blast
qed

text \<open>A first start, for the examples.\<close>

definition sample_check :: "string \<Rightarrow> go_error + string" where
  "sample_check = start_check ''/app/warp-socksd'' (\<lambda>_. Inr \<lparr>listen_addr = '':1080'', public_host = ''127.0.0.1'',
     public_port = 1080, allow_udp = True, upstream_socks5_addr = '''', srv_auth = None, udp_timeout = 0\<rparr>)"

lemma sample_check_address: "sample_check ''socks5.json'' = Inr ''127.0.0.1:1080''"
  by (simp add: sample_check_def start_check_def local_readiness_address_def split_host_port_def split_last_colon_def
      join_host_port_def)

definition sample_asking :: supervisor where
  "sample_asking = set_call 0 (StartLock ''127.0.0.1:1080'') (set_call 0 (StartCheck ''socks5.json'') new_supervisor)"

definition sample_running :: supervisor where
  "sample_running = launch 0 ''127.0.0.1:1080'' sample_asking"

lemma sample_asking_reachable: "sup_reachable sample_check sample_asking"
proof -
  have "sup_step sample_check new_supervisor (set_call 0 (StartCheck ''socks5.json'') new_supervisor)"
    by (rule call_start) (simp add: new_supervisor_def)
  moreover have "sup_step sample_check (set_call 0 (StartCheck ''socks5.json'') new_supervisor) sample_asking"
    unfolding sample_asking_def by (rule start_checked[where path = "''socks5.json''"]) (simp_all add: set_call_def sample_check_address)
  ultimately show ?thesis unfolding sup_reachable_def by (meson rtranclp.rtrancl_refl rtranclp.rtrancl_into_rtrancl)
qed

lemma sample_running_step: "sup_step sample_check sample_asking sample_running"
  unfolding sample_running_def by (rule exec_starts) (simp_all add: sample_asking_def set_call_def new_supervisor_def)

lemma sample_running_reachable: "sup_reachable sample_check sample_running"
  using sample_asking_reachable sample_running_step unfolding sup_reachable_def by (rule rtranclp.rtrancl_into_rtrancl)

lemma sample_running_proc: "procs sample_running 0 = Running"
  by (simp add: sample_running_def sample_asking_def launch_def Let_def supervisor_updates new_supervisor_def)

lemma one_proxy_at_a_time_witness: "sup_cmd sample_running = Some 0 \<and> {j. procs sample_running j = Running} \<subseteq> {0}"
  using one_proxy_at_a_time[OF sample_running_reachable sample_running_proc] by blast

section \<open>An abstract view: one slot for a process\<close>

text \<open>
  What a caller may rely on: there is one slot; it is filled with a process never used before when it is
  empty, and emptied when its process has ended.
\<close>

inductive slot_step :: "(nat \<Rightarrow> bool) \<Rightarrow> nat option \<times> nat \<Rightarrow> nat option \<times> nat \<Rightarrow> bool" for ended where
  fill: "slot_step ended (None, n) (Some n, Suc n)"
| empty: "ended i \<Longrightarrow> slot_step ended (Some i, n) (None, n)"

definition slot_of :: "supervisor \<Rightarrow> nat option \<times> nat" where
  "slot_of s = (sup_cmd s, next_proc s)"

definition has_ended :: "supervisor \<Rightarrow> nat \<Rightarrow> bool" where
  "has_ended s i \<longleftrightarrow> (\<exists>r. procs s i = Dead r)"

lemma slot_of_updates [simp]:
  "slot_of (set_call t c s) = slot_of s" "slot_of (set_waiter i v s) = slot_of s" "slot_of (set_proc i p s) = slot_of s"
  "slot_of (set_chan i d s) = slot_of s" "slot_of (s\<lparr>sup_stopped := b\<rparr>) = slot_of s" "slot_of (s\<lparr>sup_locked := b\<rparr>) = slot_of s"
  "slot_of (begin_stop t k s) = slot_of s" "slot_of (launch t addr s) = (Some (next_proc s), Suc (next_proc s))"
  by (simp_all add: slot_of_def supervisor_updates begin_stop_def launch_def Let_def)

lemma reap_slot:
  assumes "sup_inv s" "waiters s i = WaitLock r"
  shows "slot_step (has_ended s) (slot_of s) (slot_of (reap i r s))"
proof -
  have cmd: "sup_cmd s = Some i" using assms by (auto simp: sup_inv_def waits_for_proc_def)
  have "procs s i \<noteq> Running" "procs s i \<noteq> Absent" using assms by (auto simp: sup_inv_def)
  then have "has_ended s i" by (cases "procs s i") (auto simp: has_ended_def)
  then show ?thesis by (simp add: slot_of_def reap_def set_waiter_def cmd slot_step.empty)
qed

text \<open>C13: The supervisor refines the one-slot machine: every step of the concurrent system either leaves the slot
  as it is or is one step of that machine, so a process number is never used twice and the slot is given up
  only for a process that has ended.\<close>

theorem supervisor_refines_slot:
  assumes "sup_reachable check s" "sup_step check s s'"
  shows "slot_of s' = slot_of s \<or> slot_step (has_ended s) (slot_of s) (slot_of s')"
  using assms(2) sup_reachable_inv[OF assms(1)]
proof (induction rule: sup_step.induct)
  case (exec_starts s t addr)
  then show ?case by (simp add: slot_of_def[of s] slot_step.fill)
next
  case (wait_reaps s i r)
  then show ?case by (simp add: reap_slot)
qed simp_all

lemma supervisor_refines_slot_witness: "slot_step (has_ended sample_asking) (slot_of sample_asking) (slot_of sample_running)"
  using supervisor_refines_slot[OF sample_asking_reachable sample_running_step]
  by (simp add: slot_of_def sample_running_def sample_asking_def launch_def Let_def supervisor_updates new_supervisor_def)

section \<open>The leaked lock\<close>

definition needs_lock :: "call \<Rightarrow> bool" where
  "needs_lock c \<longleftrightarrow> c = DoneLock \<or> (\<exists>addr. c = StartLock addr) \<or> (\<exists>k. c = StopLock k)"

lemma locked_step:
  assumes "sup_step check s s'" "sup_locked s" "sup_cmd s = None" "\<forall>i. procs s i \<noteq> Running"
  shows "sup_locked s' \<and> sup_cmd s' = None \<and> (\<forall>i. procs s' i \<noteq> Running) \<and>
    (needs_lock (calls s u) \<longrightarrow> calls s' u = calls s u)"
  using assms
  by (induction rule: sup_step.induct) (auto simp: supervisor_updates needs_lock_def)

lemma locked_steps:
  assumes "sup_steps check s s'" "sup_locked s" "sup_cmd s = None" "\<forall>i. procs s i \<noteq> Running"
  shows "sup_locked s' \<and> sup_cmd s' = None \<and> (\<forall>i. procs s' i \<noteq> Running) \<and>
    (needs_lock (calls s u) \<longrightarrow> calls s' u = calls s u)"
  using assms(1)
proof (induction rule: rtranclp_induct)
  case base
  then show ?case using assms by simp
next
  case (step s1 s2)
  then show ?case using locked_step[OF step.hyps(2), of u] by auto
qed

text \<open>C26: A proxy binary that cannot be executed hangs the supervisor for good: when a \<open>Start\<close> that got to the mutex
  while no process was recorded returns an error at that step (the error of \<open>cmd.Start\<close>), then no later
  \<open>Start\<close>, \<open>Stop\<close> or \<open>Done\<close> that gets to the mutex ever returns, in no continuation, and no process is ever
  started again.\<close>

theorem failed_exec_hangs_supervisor:
  assumes "sup_reachable check s" "calls s t = StartLock addr" "sup_cmd s = None"
    and "sup_step check s failed" "calls failed t = Returned (Some e)"
    and "sup_steps check failed later"
    and "calls later u \<in> {DoneLock} \<union> range StartLock \<union> range StopLock" "sup_steps check later final"
  shows "calls final u = calls later u \<and> (\<forall>i. procs final i \<noteq> Running)"
proof -
  have "\<not> waits_for_proc (waiters s i)" for i
    using sup_reachable_inv[OF assms(1)] assms(3) by (simp add: sup_inv_def)
  then have idle: "\<forall>i. procs s i \<noteq> Running"
    using sup_reachable_inv[OF assms(1)] unfolding sup_inv_def waits_for_proc_def by metis
  from assms(4) have "sup_locked failed \<and> sup_cmd failed = None \<and> (\<forall>i. procs failed i \<noteq> Running)"
  proof cases
    case (exec_fails t' addr' e')
    with idle show ?thesis by (simp add: set_call_def)
  qed (use assms(2,3,5) in \<open>auto simp: supervisor_updates begin_stop_def launch_def reap_def Let_def split: if_splits\<close>)
  with locked_steps[OF assms(6)] locked_steps[OF assms(8), of u] assms(7)
  show ?thesis by (auto simp: needs_lock_def)
qed

text \<open>The application's retry after such a failure: it calls \<open>Start\<close> again.\<close>

definition sample_failed :: supervisor where
  "sample_failed = set_call 0 (Returned (Some (errorf ''exec format error''))) (sample_asking\<lparr>sup_locked := True\<rparr>)"

definition sample_retry :: supervisor where
  "sample_retry = set_call 0 (StartLock ''127.0.0.1:1080'') (set_call 0 (StartCheck ''socks5.json'') sample_failed)"

lemma sample_retry_steps: "sup_steps sample_check sample_failed sample_retry"
proof -
  have "sup_step sample_check sample_failed (set_call 0 (StartCheck ''socks5.json'') sample_failed)"
    by (rule call_start) (simp add: sample_failed_def set_call_def)
  moreover have "sup_step sample_check (set_call 0 (StartCheck ''socks5.json'') sample_failed) sample_retry"
    unfolding sample_retry_def
    by (rule start_checked[where path = "''socks5.json''"]) (simp_all add: set_call_def sample_check_address)
  ultimately show ?thesis by (meson rtranclp.rtrancl_refl rtranclp.rtrancl_into_rtrancl)
qed

lemma sample_failed_step: "sup_step sample_check sample_asking sample_failed"
  unfolding sample_failed_def
  by (rule exec_fails[where addr = "''127.0.0.1:1080''"]) (simp_all add: sample_asking_def set_call_def new_supervisor_def)

lemma failed_exec_hangs_supervisor_witness:
  "{calls final 0 | final. sup_steps sample_check sample_retry final} = {StartLock ''127.0.0.1:1080''}"
proof -
  have facts: "calls sample_asking 0 = StartLock ''127.0.0.1:1080''" "sup_cmd sample_asking = None"
    "calls sample_failed 0 = Returned (Some (errorf ''exec format error''))"
    "calls sample_retry 0 = StartLock ''127.0.0.1:1080''"
    by (simp_all add: sample_asking_def sample_failed_def sample_retry_def set_call_def new_supervisor_def)
  have "calls final 0 = StartLock ''127.0.0.1:1080''" if "sup_steps sample_check sample_retry final" for final
    using failed_exec_hangs_supervisor[OF sample_asking_reachable facts(1,2) sample_failed_step facts(3) sample_retry_steps _ that,
        of 0] facts(4) by simp
  moreover have "sup_steps sample_check sample_retry sample_retry" by simp
  ultimately show ?thesis using facts(4) by (auto intro: exI[of _ sample_retry])
qed

section \<open>Waiting for the end of a process\<close>

fun waiter_rank :: "waiter \<Rightarrow> nat" where
  "waiter_rank NoWaiter = 5"
| "waiter_rank WaitCmd = 4"
| "waiter_rank (WaitLock r) = 3"
| "waiter_rank (WaitSend v) = 2"
| "waiter_rank WaitClose = 1"
| "waiter_rank WaitFinished = 0"

lemma waiter_rank_step:
  assumes "sup_step check s s'" "sup_inv s" "i < next_proc s"
  shows "waiter_rank (waiters s' i) \<le> waiter_rank (waiters s i)"
  using assms
  by (induction rule: sup_step.induct)
     (auto simp: supervisor_updates begin_stop_def launch_def Let_def reap_def)

lemma waiter_next:
  assumes "sup_inv s" "i < next_proc s" "procs s i \<noteq> Running"
  shows "receive (chans s i) \<noteq> None \<or>
    (\<exists>s'. sup_step check s s' \<and> waiter_rank (waiters s' i) < waiter_rank (waiters s i) \<and> calls s' = calls s)"
proof (cases "waiters s i")
  case NoWaiter
  then have "next_proc s \<le> i" using assms(1) unfolding sup_inv_def by blast
  with assms(2) show ?thesis by simp
next
  case WaitCmd
  then have "procs s i \<noteq> Absent" using assms(1) unfolding sup_inv_def by (metis waiter.distinct(1))
  then obtain r where "procs s i = Dead r" using assms(3) by (cases "procs s i") auto
  from wait_returns[OF WaitCmd this, of check] WaitCmd show ?thesis by (auto simp: set_waiter_def)
next
  case (WaitLock r)
  then have "sup_cmd s = Some i" "\<not> sup_locked s" using assms(1) by (auto simp: sup_inv_def waits_for_proc_def)
  then show ?thesis using wait_reaps[OF WaitLock, of check] WaitLock by (auto simp: reap_def set_waiter_def)
next
  case (WaitSend v)
  then have "chan_buffer (chans s i) = None"
    using assms(1) by (auto simp: sup_inv_def before_send_def new_channel_def)
  from wait_sends[OF WaitSend this, of check] WaitSend show ?thesis by (auto simp: set_waiter_def set_chan_def)
next
  case WaitClose
  from wait_closes[OF WaitClose, of check] WaitClose show ?thesis by (auto simp: set_waiter_def set_chan_def)
next
  case WaitFinished
  then have "chan_closed (chans s i)" using assms(1) by (simp add: sup_inv_def)
  then show ?thesis by (simp add: receive_def split: option.split)
qed

text \<open>C24: No waiter is forgotten: once the process has ended, a \<open>Stop\<close> or a receive from \<open>Done\<close> that waits for it
  either can go on at once, or the waiting goroutine can take its next step without anybody's help (its
  send never blocks, and not even the leaked lock stops it); there are at most four such steps, and no
  step of anyone ever takes one back.\<close>

theorem waiting_calls_go_on:
  assumes "sup_reachable check s" "calls s t \<in> {StopWait i k, StopDrain i k, DoneReceive i}" "procs s i \<noteq> Running"
  shows "(receive (chans s i) \<noteq> None \<or>
      (\<exists>s'. sup_step check s s' \<and> waiter_rank (waiters s' i) < waiter_rank (waiters s i) \<and> calls s' = calls s)) \<and>
    waiter_rank (waiters s i) \<le> 4 \<and>
    (\<forall>s'. sup_step check s s' \<longrightarrow> waiter_rank (waiters s' i) \<le> waiter_rank (waiters s i))"
proof -
  have inv: "sup_inv s" by (rule sup_reachable_inv[OF assms(1)])
  have i: "i < next_proc s" using assms(2) sup_inv_call_proc[OF inv refl, of t i] by auto
  then have "waiters s i \<noteq> NoWaiter" using inv unfolding sup_inv_def by (metis not_le)
  then have "waiter_rank (waiters s i) \<le> 4" by (cases "waiters s i") auto
  with waiter_next[OF inv i assms(3)] waiter_rank_step[OF _ inv i] show ?thesis by blast
qed

definition sample_stopping :: supervisor where
  "sample_stopping = set_proc 0 (Dead (Some (Leaf Exited ''signal: terminated'')))
     (set_call 1 (StopWait 0 StopCall) (begin_stop 1 StopCall (set_call 1 (StopLock StopCall) sample_running)))"

lemmas sample_stopping_defs = sample_running_def sample_asking_def launch_def Let_def supervisor_updates begin_stop_def
  new_supervisor_def

lemma sample_stopping_reachable: "sup_reachable sample_check sample_stopping"
proof -
  let ?s1 = "set_call 1 (StopLock StopCall) sample_running"
  let ?s2 = "begin_stop 1 StopCall ?s1"
  let ?s3 = "set_call 1 (StopWait 0 StopCall) ?s2"
  have "sup_step sample_check sample_running ?s1"
    by (rule call_stop) (simp add: sample_stopping_defs)
  moreover have "sup_step sample_check ?s1 ?s2"
    by (rule stop_begins) (simp_all add: sample_stopping_defs)
  moreover have "sup_step sample_check ?s2 ?s3"
    by (rule signal_sent) (simp add: sample_stopping_defs)
  moreover have "sup_step sample_check ?s3 sample_stopping"
    unfolding sample_stopping_def by (rule proc_exits) (simp add: sample_stopping_defs)
  ultimately show ?thesis
    using sample_running_reachable unfolding sup_reachable_def by (meson rtranclp.rtrancl_into_rtrancl)
qed

lemma waiting_calls_go_on_witness:
  "\<exists>s'. sup_step sample_check sample_stopping s' \<and> waiter_rank (waiters s' 0) < waiter_rank (waiters sample_stopping 0) \<and>
     calls s' = calls sample_stopping"
proof -
  have "calls sample_stopping 1 = StopWait 0 StopCall" "procs sample_stopping 0 \<noteq> Running"
      "receive (chans sample_stopping 0) = None"
    by (simp_all add: sample_stopping_def sample_stopping_defs receive_def new_channel_def)
  then show ?thesis using waiting_calls_go_on[OF sample_stopping_reachable, of 1 0 StopCall] by auto
qed

text \<open>The phases of a call of \<open>Stop\<close>, from its start to its return, and the process it has taken on to stop.\<close>

fun stopping :: "call \<Rightarrow> bool" where
  "stopping (StopLock k) = (k = StopCall)"
| "stopping (StopSignal i k) = (k = StopCall)"
| "stopping (StopWait i k) = (k = StopCall)"
| "stopping (StopKill i k) = (k = StopCall)"
| "stopping (StopDrain i k) = (k = StopCall)"
| "stopping _ = False"

text \<open>C6: A successful Stop means that the process is gone: in whatever phase a call of \<open>Stop\<close> is, if its next step
  returns nil, then the process it had taken on to stop has ended and has been waited for; and if it had
  taken on none (it was only just getting to the mutex), no process is running at all.\<close>

theorem stop_success_means_ended:
  assumes "sup_reachable check s" "sup_step check s s'" "stopping (calls s t)" "calls s' t = Returned None"
  shows "case call_proc (calls s t) of
      None \<Rightarrow> \<forall>i. procs s' i \<noteq> Running
    | Some i \<Rightarrow> procs s' i \<noteq> Running \<and> \<not> waits_for_proc (waiters s' i)"
proof -
  have inv: "sup_inv s" by (rule sup_reachable_inv[OF assms(1)])
  have received: "procs s i \<noteq> Running \<and> \<not> waits_for_proc (waiters s i)" if "receive (chans s i) = Some (v, c)" for i v c
    using inv receive_parts(2)[OF that] unfolding sup_inv_def before_send_def waits_for_proc_def by metis
  have idle: "procs s i \<noteq> Running" if "sup_cmd s = None" for i
  proof
    assume "procs s i = Running"
    then have "waits_for_proc (waiters s i)" using inv by (simp add: sup_inv_def waits_for_proc_def)
    with inv that show False by (simp add: sup_inv_def)
  qed
  from assms(2) show ?thesis
  proof cases
    case (stop_begins t' k)
    with assms(3,4) idle show ?thesis
      by (cases "t' = t") (auto simp: begin_stop_def supervisor_updates split: option.splits)
  next
    case (stop_receives t' i k v c)
    with assms(3,4) received[of i v c] show ?thesis by (cases "t' = t") (auto simp: supervisor_updates)
  next
    case (drain_receives t' i k v c)
    with assms(3,4) received[of i v c] show ?thesis by (cases "t' = t") (auto simp: supervisor_updates)
  qed (use assms(3,4) in \<open>auto simp: supervisor_updates launch_def reap_def Let_def split: if_splits\<close>)
qed

text \<open>A running proxy is asked to stop, ends on the signal, is waited for, and the call receives its report.\<close>

definition sample_reaped :: supervisor where
  "sample_reaped = set_waiter 0 (WaitSend None) (set_proc 0 (Dead (Some (Leaf Exited ''signal: terminated'')))
     (set_call 1 (StopWait 0 StopCall) (sample_running\<lparr>sup_stopped := True, sup_cmd := None\<rparr>)))"

definition sample_reported :: supervisor where
  "sample_reported = set_waiter 0 WaitClose (set_chan 0 \<lparr>chan_buffer = Some None, chan_closed = False\<rparr> sample_reaped)"

lemma sample_reported_reachable: "sup_reachable sample_check sample_reported"
proof -
  let ?r = "Some (Leaf Exited ''signal: terminated'')"
  let ?s1 = "set_waiter 0 (WaitLock ?r) sample_stopping"
  have 1: "sup_step sample_check sample_stopping ?s1"
    by (rule wait_returns) (simp_all add: sample_stopping_def sample_stopping_defs)
  have "sup_step sample_check ?s1 (reap 0 ?r ?s1)"
    by (rule wait_reaps) (simp_all add: sample_stopping_def sample_stopping_defs)
  moreover have "reap 0 ?r ?s1 = sample_reaped"
    by (simp add: sample_reaped_def sample_stopping_def sample_stopping_defs reap_def normalize_wait_error_def)
  moreover have "sup_step sample_check sample_reaped sample_reported"
    unfolding sample_reported_def using wait_sends[of sample_reaped 0 None]
    by (simp add: sample_reaped_def sample_stopping_defs new_channel_def)
  ultimately show ?thesis
    using sample_stopping_reachable 1 unfolding sup_reachable_def by (metis rtranclp.rtrancl_into_rtrancl)
qed

lemma stop_success_means_ended_witness:
  "\<exists>s'. sup_step sample_check sample_reported s' \<and> calls s' 1 = Returned None \<and> sup_cmd sample_running = Some 0 \<and>
     procs sample_running 0 = Running \<and> procs s' 0 \<noteq> Running \<and> \<not> waits_for_proc (waiters s' 0)"
proof -
  have call: "calls sample_reported 1 = StopWait 0 StopCall"
    "receive (chans sample_reported 0) = Some (None, \<lparr>chan_buffer = None, chan_closed = False\<rparr>)"
    by (simp_all add: sample_reported_def sample_reaped_def supervisor_updates receive_def)
  let ?s' = "set_call 1 (Returned None) (set_chan 0 \<lparr>chan_buffer = None, chan_closed = False\<rparr> sample_reported)"
  have step: "sup_step sample_check sample_reported ?s'"
    using stop_receives[OF call] by (simp add: normalize_wait_error_def)
  have "procs ?s' 0 \<noteq> Running \<and> \<not> waits_for_proc (waiters ?s' 0)"
    using stop_success_means_ended[OF sample_reported_reachable step, of 1] call(1) by (simp add: set_call_def)
  moreover have "calls ?s' 1 = Returned None" "sup_cmd sample_running = Some 0"
    by (simp_all add: sample_stopping_defs)
  ultimately show ?thesis using step sample_running_proc by blast
qed

section \<open>Waiting for the port\<close>

text \<open>
  \<open>waitForTCPReady\<close> as a loop: round \<open>n\<close> dials, looks at the channel and the context (the two ready cases of
  a \<open>select\<close> race; \<open>prefer_ctx\<close> says which one is taken), then at the clock, and sleeps. The fuel bounds the
  rounds; with the sleep of 50 ms and the timeout of 5 s, 102 of them are enough.
\<close>

record ready_env =
  dial_ok :: "nat \<Rightarrow> bool"
  exit_report :: "nat \<Rightarrow> go_error option option"
  ctx_err :: "nat \<Rightarrow> go_error option"
  prefer_ctx :: "nat \<Rightarrow> bool"
  clock_ms :: "nat \<Rightarrow> int"

definition ready_round :: "ready_env \<Rightarrow> int \<Rightarrow> string \<Rightarrow> nat \<Rightarrow> go_error option option" where
  "ready_round env deadline addr n =
     (if dial_ok env n then Some None
      else case (exit_report env n, ctx_err env n) of
        (Some v, None) \<Rightarrow> Some (Some (exited_early v))
      | (None, Some e) \<Rightarrow> Some (Some e)
      | (Some v, Some e) \<Rightarrow> Some (Some (if prefer_ctx env n then e else exited_early v))
      | (None, None) \<Rightarrow>
          if deadline < clock_ms env n then Some (Some (errorf (''timed out waiting for '' @ addr))) else None)"

definition wait_for_tcp_ready :: "ready_env \<Rightarrow> int \<Rightarrow> string \<Rightarrow> nat \<Rightarrow> go_error option option" where
  "wait_for_tcp_ready env start addr fuel = poll (ready_round env (start + 5000) addr) fuel 0"

text \<open>Waiting for the port ends: if every round takes at least its 50 ms, \<open>waitForTCPReady\<close> returns within 102
  rounds whatever the dials, the process and the context do, and it returns nil only if a dial succeeded.\<close>

theorem wait_for_tcp_ready_ends:
  assumes "\<And>n. clock_ms env n + 50 \<le> clock_ms env (Suc n)" "start \<le> clock_ms env 0"
  shows "\<exists>r. wait_for_tcp_ready env start addr 102 = Some r \<and> (r = None \<longrightarrow> (\<exists>n. dial_ok env n))"
proof -
  have "start + 5000 < clock_ms env 101"
    using clock_advances[of "clock_ms env" 50 101, OF assms(1)] assms(2) by simp
  then have "ready_round env (start + 5000) addr (0 + 101) \<noteq> None"
    by (auto simp: ready_round_def split: option.split)
  from poll_ends[where round = "ready_round env (start + 5000) addr" and n = 0 and k = 101 and fuel = 102, OF this] obtain r where r: "wait_for_tcp_ready env start addr 102 = Some r"
    by (auto simp: wait_for_tcp_ready_def)
  moreover have "\<exists>n. dial_ok env n" if "r = None"
    using poll_Some[OF r[unfolded wait_for_tcp_ready_def]] that
    by (auto simp: ready_round_def split: if_splits option.splits)
  ultimately show ?thesis by blast
qed

lemma wait_for_tcp_ready_ends_witness:
  fixes env
  defines "env \<equiv> \<lparr>dial_ok = \<lambda>_. False, exit_report = \<lambda>_. None, ctx_err = \<lambda>_. None, prefer_ctx = \<lambda>_. False,
    clock_ms = \<lambda>n. 60 * int n\<rparr>"
  shows "\<exists>e. wait_for_tcp_ready env 0 ''127.0.0.1:1080'' 102 = Some (Some e)"
proof -
  have "\<And>n. clock_ms env n + 50 \<le> clock_ms env (Suc n)" "0 \<le> clock_ms env 0" by (simp_all add: env_def)
  from wait_for_tcp_ready_ends[OF this, of "''127.0.0.1:1080''"] show ?thesis by (auto simp: env_def)
qed

end
