(* ===== verification/App_Run.thy ===== *)
theory App_Run
  imports App_Config Device_State
begin

text \<open>
  \<open>internal/app/app.go\<close>: the life of the runtime. The dependencies are operations on an outside world, one
  for each function or interface method the application calls; blocking until the context ends or the
  proxy exits is one operation that returns which of the two happened. Logging and setting the readiness
  flag cannot fail.
\<close>

section \<open>The application\<close>

text \<open>The \<open>select\<close> of a running runtime: shutdown, or the proxy's end with what \<open>Done\<close> delivered.\<close>

datatype wake = Shutdown | ProxyExit "go_error option"

record 'w dependencies =
  config_loader :: "('w, config) eff option"
  state_loader :: "('w, device_state) eff option"
  state_saver :: "(device_state \<Rightarrow> ('w, unit) eff) option"
  bootstrap :: "(config \<Rightarrow> device_state \<Rightarrow> ('w, device_state) eff) option"
  network :: "((config \<Rightarrow> device_state \<Rightarrow> ('w, unit) eff) \<times> ('w, unit) eff) option"
  proxy_writer :: "(config \<Rightarrow> ('w, string) eff) option"
  supervise :: "((string \<Rightarrow> ('w, unit) eff) \<times> ('w, unit) eff \<times> ('w \<Rightarrow> wake \<times> 'w)) option"
  probe :: "('w, unit) eff option"
  readiness :: "(bool \<Rightarrow> 'w \<Rightarrow> 'w) option"

record 'w app =
  load_config :: "('w, config) eff"
  load_state :: "('w, device_state) eff"
  save_state :: "device_state \<Rightarrow> ('w, unit) eff"
  ensure :: "config \<Rightarrow> device_state \<Rightarrow> ('w, device_state) eff"
  net_apply :: "config \<Rightarrow> device_state \<Rightarrow> ('w, unit) eff"
  net_cleanup :: "('w, unit) eff"
  write_proxy :: "config \<Rightarrow> ('w, string) eff"
  proxy_start :: "string \<Rightarrow> ('w, unit) eff"
  proxy_stop :: "('w, unit) eff"
  await :: "'w \<Rightarrow> wake \<times> 'w"
  check :: "('w, unit) eff"
  put_ready :: "bool \<Rightarrow> 'w \<Rightarrow> 'w"
  logf :: "string \<Rightarrow> 'w \<Rightarrow> 'w"

definition new_app :: "(string \<Rightarrow> 'w \<Rightarrow> 'w) \<Rightarrow> 'w dependencies \<Rightarrow> go_error + 'w app" where
  "new_app log d =
     (case config_loader d of None \<Rightarrow> Inl (errorf ''config loader is required'') | Some cl \<Rightarrow>
      case state_loader d of None \<Rightarrow> Inl (errorf ''state loader is required'') | Some sl \<Rightarrow>
      case state_saver d of None \<Rightarrow> Inl (errorf ''state saver is required'') | Some ss \<Rightarrow>
      case bootstrap d of None \<Rightarrow> Inl (errorf ''bootstrapper is required'') | Some b \<Rightarrow>
      case network d of None \<Rightarrow> Inl (errorf ''network manager is required'') | Some (up, down) \<Rightarrow>
      case proxy_writer d of None \<Rightarrow> Inl (errorf ''proxy config writer is required'') | Some pw \<Rightarrow>
      case supervise d of None \<Rightarrow> Inl (errorf ''supervisor is required'') | Some (start, stop, wait) \<Rightarrow>
      case probe d of None \<Rightarrow> Inl (errorf ''prober is required'') | Some p \<Rightarrow>
      case readiness d of None \<Rightarrow> Inl (errorf ''status is required'') | Some r \<Rightarrow>
        Inr \<lparr>load_config = cl, load_state = sl, save_state = ss, ensure = b, net_apply = up, net_cleanup = down,
             write_proxy = pw, proxy_start = start, proxy_stop = stop, await = wait, check = p, put_ready = r, logf = log\<rparr>)"

definition printable_value :: "string \<Rightarrow> string" where
  "printable_value value = (if value = '''' then ''n/a'' else value)"

fun stack_text :: "stack_mode \<Rightarrow> string" where
  "stack_text StackDual = ''dual''"
| "stack_text Stack4 = ''4''"
| "stack_text Stack6 = ''6''"

definition bool_text :: "bool \<Rightarrow> string" where
  "bool_text b = (if b then ''true'' else ''false'')"

definition should_retry_with_fresh_state :: "device_state \<Rightarrow> go_error option \<Rightarrow> bool" where
  "should_retry_with_fresh_state loaded err =
     (case err of
        None \<Rightarrow> False
      | Some _ \<Rightarrow> device_id loaded \<noteq> '''' \<and> access_token loaded \<noteq> '''' \<and> private_key loaded \<noteq> '''')"

definition log_line :: "'w app \<Rightarrow> string \<Rightarrow> ('w, unit) eff" where
  "log_line a line = modify (logf a (''cfwg: '' @ line))"

text \<open>The wait in the middle of a runtime: the error of an unexpected end of the proxy, if there is one.\<close>

definition await_end :: "'w app \<Rightarrow> ('w, go_error option) eff" where
  "await_end a w =
     (case await a w of
        (Shutdown, w1) \<Rightarrow> andThen (log_line a ''shutdown requested'') (\<lambda>_. ret None) w1
      | (ProxyExit (Some e), w1) \<Rightarrow>
          andThen (log_line a (''proxy runtime exited unexpectedly: '' @ error_text e)) (\<lambda>_.
          ret (Some (wrap ''proxy runtime exited unexpectedly'' e))) w1
      | (ProxyExit None, w1) \<Rightarrow> (Inr None, w1))"

definition shut_down :: "'w app \<Rightarrow> go_error option \<Rightarrow> ('w, unit) eff" where
  "shut_down a run_err =
     andThen (modify (put_ready a False)) (\<lambda>_.
     attempt (proxy_stop a) (\<lambda>stopped.
     attempt (net_cleanup a) (\<lambda>cleaned.
     case run_err of
       Some e \<Rightarrow> fail e
     | None \<Rightarrow>
         (case stopped of
            Inl e \<Rightarrow> fail (wrap ''stop proxy runtime'' e)
          | Inr _ \<Rightarrow>
              (case cleaned of
                 Inl e \<Rightarrow> fail (wrap ''cleanup network'' e)
               | Inr _ \<Rightarrow> log_line a ''runtime stopped cleanly'')))))"

definition run_started_runtime :: "'w app \<Rightarrow> config \<Rightarrow> device_state \<Rightarrow> ('w, unit) eff" where
  "run_started_runtime a cfg st =
     andThen (wrapping ''apply network'' (net_apply a cfg st)) (\<lambda>_.
     andThen (log_line a (''network configured stack='' @ stack_text (proxy_stack cfg) @ '' endpoint='' @
       printable_value (peer_endpoint st))) (\<lambda>_.
     andThen (wrapping ''write proxy config'' (write_proxy a cfg)) (\<lambda>path.
     andThen (log_line a (''proxy config rendered path='' @ path)) (\<lambda>_.
     andThen (wrapping ''start proxy runtime'' (proxy_start a path)) (\<lambda>_.
     andThen (log_line a ''proxy runtime started'') (\<lambda>_.
     attempt (check a) (\<lambda>probed.
     case probed of
       Inl e \<Rightarrow>
         andThen (ignoring (proxy_stop a)) (\<lambda>_.
         andThen (ignoring (net_cleanup a)) (\<lambda>_.
         fail (wrap ''probe warp connectivity'' e)))
     | Inr _ \<Rightarrow>
         andThen (modify (put_ready a True)) (\<lambda>_.
         andThen (log_line a ''runtime is ready'') (\<lambda>_.
         andThen (await_end a) (shut_down a))))))))))"

definition device_line :: "string \<Rightarrow> device_state \<Rightarrow> string" where
  "device_line what st = what @ '' ipv4='' @ printable_value (ipv4 st) @ '' ipv6='' @ printable_value (ipv6 st) @
     '' endpoint='' @ printable_value (peer_endpoint st)"

definition retry_fresh :: "'w app \<Rightarrow> config \<Rightarrow> go_error \<Rightarrow> ('w, unit) eff" where
  "retry_fresh a cfg err =
     andThen (log_line a (''runtime failed with persisted state, retrying with fresh registration: '' @ error_text err)) (\<lambda>_.
     attempt (ensure a cfg empty_state) (\<lambda>r1.
     case r1 of
       Inl e \<Rightarrow> fail (Joined err (wrap ''recover with fresh state: bootstrap device'' e))
     | Inr fresh \<Rightarrow>
         attempt (save_state a fresh) (\<lambda>r2.
         case r2 of
           Inl e \<Rightarrow> fail (Joined err (wrap ''recover with fresh state: save state'' e))
         | Inr _ \<Rightarrow>
             andThen (log_line a (device_line ''fresh warp device ready'' fresh)) (\<lambda>_.
             attempt (run_started_runtime a cfg fresh) (\<lambda>r3.
             case r3 of
               Inl e \<Rightarrow> fail (Joined err (wrap ''recover with fresh state'' e))
             | Inr _ \<Rightarrow> ret ())))))"

definition run :: "'w app \<Rightarrow> ('w, unit) eff" where
  "run a =
     andThen (wrapping ''load config'' (load_config a)) (\<lambda>cfg.
     andThen (log_line a (''starting runtime stack='' @ stack_text (proxy_stack cfg) @ '' auth_enabled='' @
       bool_text (auth_enabled (proxy_auth cfg)))) (\<lambda>_.
     andThen (wrapping ''load state'' (load_state a)) (\<lambda>loaded.
     andThen (log_line a (''loaded state has_device='' @ bool_text (device_id loaded \<noteq> '''') @ '' has_ipv4='' @
       bool_text (ipv4 loaded \<noteq> '''') @ '' has_ipv6='' @ bool_text (ipv6 loaded \<noteq> ''''))) (\<lambda>_.
     andThen (wrapping ''bootstrap device'' (ensure a cfg loaded)) (\<lambda>current.
     andThen (log_line a (device_line ''warp device ready'' current)) (\<lambda>_.
     andThen (wrapping ''save state'' (save_state a current)) (\<lambda>_.
     andThen (log_line a ''persisted runtime state'') (\<lambda>_.
     attempt (run_started_runtime a cfg current) (\<lambda>r.
     case r of
       Inr _ \<Rightarrow> ret ()
     | Inl err \<Rightarrow>
         if should_retry_with_fresh_state loaded (Some err) then retry_fresh a cfg err else fail err)))))))))"

section \<open>The contract of a bootstrapper\<close>

text \<open>
  \<open>app.Bootstrapper\<close>: whatever it is given, a device it returns is usable. Then only usable devices are
  persisted and used for the network: the run does not depend on what saving or applying others would do.
\<close>

definition same_on :: "(config \<Rightarrow> device_state \<Rightarrow> bool) \<Rightarrow> 'w app \<Rightarrow> 'w app \<Rightarrow> bool" where
  "same_on P a b \<longleftrightarrow>
     (\<exists>save up. b = a\<lparr>save_state := save, net_apply := up\<rparr> \<and>
       (\<forall>cfg st. P cfg st \<longrightarrow> save st = save_state a st \<and> up cfg st = net_apply a cfg st))"

lemma andThen_same: "(\<And>x v. m w = (Inr x, v) \<Longrightarrow> f x v = g x v) \<Longrightarrow> andThen m f w = andThen m g w"
  by (auto simp: andThen_def split: prod.split sum.split)

lemma attempt_same: "(\<And>r v. m w = (r, v) \<Longrightarrow> f r v = g r v) \<Longrightarrow> attempt m f w = attempt m g w"
  by (auto simp: attempt_def split: prod.split)

lemma same_on_parts:
  assumes "same_on P a b"
  shows "load_config b = load_config a" "load_state b = load_state a" "ensure b = ensure a" "log_line b = log_line a"
    "P cfg st \<Longrightarrow> save_state b st = save_state a st"
    "P cfg st \<Longrightarrow> run_started_runtime b cfg st = run_started_runtime a cfg st"
proof -
  obtain save up where b: "b = a\<lparr>save_state := save, net_apply := up\<rparr>"
    and same: "\<And>cfg st. P cfg st \<Longrightarrow> save st = save_state a st \<and> up cfg st = net_apply a cfg st"
    using assms by (auto simp: same_on_def)
  show log: "log_line b = log_line a" by (rule ext) (simp add: b log_line_def)
  have parts: "write_proxy b = write_proxy a" "proxy_start b = proxy_start a" "check b = check a" "await b = await a"
    "proxy_stop b = proxy_stop a" "net_cleanup b = net_cleanup a" "put_ready b = put_ready a"
    by (simp_all add: b)
  have wait: "await_end b = await_end a" by (rule ext) (simp only: await_end_def log parts)
  have down: "shut_down b = shut_down a" by (rule ext) (simp only: shut_down_def log parts)
  show "load_config b = load_config a" "load_state b = load_state a" "ensure b = ensure a" by (simp_all add: b)
  show "P cfg st \<Longrightarrow> save_state b st = save_state a st" using same by (simp add: b)
  assume "P cfg st"
  then have "net_apply b cfg st = net_apply a cfg st" using same by (simp add: b)
  then show "run_started_runtime b cfg st = run_started_runtime a cfg st"
    unfolding run_started_runtime_def by (simp only: log wait down parts)
qed

locale bootstrapper =
  fixes boot :: "config \<Rightarrow> device_state \<Rightarrow> ('w, device_state) eff" and usable :: "config \<Rightarrow> device_state \<Rightarrow> bool"
  assumes boot_usable: "boot cfg st w = (Inr st', w') \<Longrightarrow> usable cfg st'"
begin

lemma retry_uses_usable:
  assumes "ensure a = boot" "same_on usable a b"
  shows "retry_fresh b cfg err = retry_fresh a cfg err"
proof
  fix w
  show "retry_fresh b cfg err w = retry_fresh a cfg err w"
    unfolding retry_fresh_def same_on_parts(3,4)[OF assms(2)]
  proof (intro andThen_same attempt_same, goal_cases)
    case (1 u v r v')
    show ?case
    proof (cases r)
      case (Inr fresh)
      then have "usable cfg fresh" using 1(2) assms(1) boot_usable by simp
      from same_on_parts(5,6)[OF assms(2) this] Inr show ?thesis by simp
    qed simp
  qed
qed

lemma run_uses_usable:
  assumes "ensure a = boot" "same_on usable a b"
  shows "run b = run a"
proof
  fix w
  show "run b w = run a w"
    unfolding run_def same_on_parts(1-4)[OF assms(2)] retry_uses_usable[OF assms]
  proof (intro andThen_same, goal_cases)
    case (1 cfg v1 u1 v2 loaded v3 u2 v4 current v5)
    then have "usable cfg current" using assms(1) boot_usable by (simp add: wrapping_Inr_iff)
    from same_on_parts(5,6)[OF assms(2) this] show ?case by simp
  qed
qed

end

section \<open>The readiness flag\<close>

text \<open>The contract of the other operations on the flag of the status: they leave it alone.\<close>

locale readiness_flag =
  fixes a :: "'w app" and ready :: "'w \<Rightarrow> bool"
  assumes put: "ready (put_ready a b w) = b"
    and log: "ready (logf a line w) = ready w"
    and waits: "ready (snd (await a w)) = ready w"
    and ops: "keeps (\<lambda>w. ready w = b) (load_config a)" "keeps (\<lambda>w. ready w = b) (load_state a)"
      "keeps (\<lambda>w. ready w = b) (save_state a st)" "keeps (\<lambda>w. ready w = b) (ensure a cfg st)"
      "keeps (\<lambda>w. ready w = b) (net_apply a cfg st)" "keeps (\<lambda>w. ready w = b) (net_cleanup a)"
      "keeps (\<lambda>w. ready w = b) (write_proxy a cfg)" "keeps (\<lambda>w. ready w = b) (proxy_start a path)"
      "keeps (\<lambda>w. ready w = b) (proxy_stop a)" "keeps (\<lambda>w. ready w = b) (check a)"
begin

lemma keeps_log: "keeps (\<lambda>w. ready w = b) (log_line a line)"
  by (simp add: keeps_def log_line_def log)

lemma shut_down_off: "\<not> ready (snd (shut_down a e w))"
proof -
  have "keeps (\<lambda>w. ready w = False) (attempt (proxy_stop a) (\<lambda>stopped. attempt (net_cleanup a) (\<lambda>cleaned.
     case e of Some e \<Rightarrow> fail e | None \<Rightarrow> (case stopped of Inl e \<Rightarrow> fail (wrap ''stop proxy runtime'' e)
          | Inr _ \<Rightarrow> (case cleaned of Inl e \<Rightarrow> fail (wrap ''cleanup network'' e) | Inr _ \<Rightarrow> log_line a ''runtime stopped cleanly'')))))"
    by (intro keeps_intros ops keeps_log)
  then show ?thesis
    unfolding shut_down_def by (simp add: andThen_def keeps_def put)
qed

lemma await_end_Inr: "\<exists>e. await_end a w = (Inr e, snd (await_end a w))"
  by (auto simp: await_end_def log_line_def andThen_def split: prod.split wake.split option.split)

lemma serving_off:
  "\<not> ready (snd (andThen (modify (put_ready a True)) (\<lambda>_. andThen (log_line a line) (\<lambda>_. andThen (await_end a) (shut_down a))) w))"
proof -
  obtain e v where "await_end a (logf a (''cfwg: '' @ line) (put_ready a True w)) = (Inr e, v)" using await_end_Inr by blast
  then show ?thesis by (simp add: log_line_def andThen_def shut_down_off)
qed

lemma keeps_off: "(\<And>w. \<not> ready (snd (m w))) \<Longrightarrow> keeps (\<lambda>w. ready w = False) m"
  by (simp add: keeps_def)

lemma runtime_keeps_off: "keeps (\<lambda>w. ready w = False) (run_started_runtime a cfg st)"
  unfolding run_started_runtime_def
  by (intro keeps_intros ops keeps_log keeps_off[OF serving_off])

lemma run_keeps_off: "keeps (\<lambda>w. ready w = False) (run a)"
  unfolding run_def retry_fresh_def
  by (intro keeps_intros ops keeps_log runtime_keeps_off)

end

section \<open>The order of the operations\<close>

text \<open>
  An application whose dependencies are recorded, each answering with any function of the operations so
  far: what holds for it holds for every behaviour of the dependencies.
\<close>

datatype event =
    DidConfig
  | DidLoad
  | DidEnsure device_state
  | DidSave device_state
  | DidApply device_state
  | DidCleanup
  | DidWrite
  | DidStart string
  | DidStop
  | DidProbe
  | DidReady bool
  | DidAwait

record trace =
  events :: "event list"
  config_answer :: "event list \<Rightarrow> go_error + config"
  state_answer :: "event list \<Rightarrow> go_error + device_state"
  path_answer :: "event list \<Rightarrow> go_error + string"
  unit_answer :: "event list \<Rightarrow> go_error + unit"
  wake_answer :: "event list \<Rightarrow> wake"

definition observe :: "event \<Rightarrow> (trace \<Rightarrow> event list \<Rightarrow> 'r) \<Rightarrow> trace \<Rightarrow> 'r \<times> trace" where
  "observe e answer w = (let l = events w @ [e] in (answer w l, w\<lparr>events := l\<rparr>))"

definition traced_app :: "trace app" where
  "traced_app =
     \<lparr>load_config = observe DidConfig config_answer, load_state = observe DidLoad state_answer,
      save_state = (\<lambda>st. observe (DidSave st) unit_answer), ensure = (\<lambda>cfg st. observe (DidEnsure st) state_answer),
      net_apply = (\<lambda>cfg st. observe (DidApply st) unit_answer), net_cleanup = observe DidCleanup unit_answer,
      write_proxy = (\<lambda>cfg. observe DidWrite path_answer), proxy_start = (\<lambda>path. observe (DidStart path) unit_answer),
      proxy_stop = observe DidStop unit_answer, await = observe DidAwait wake_answer, check = observe DidProbe unit_answer,
      put_ready = (\<lambda>b w. w\<lparr>events := events w @ [DidReady b]\<rparr>), logf = (\<lambda>_ w. w)\<rparr>"

text \<open>What one runtime may do, and with what outcome: the specification the code is held to.\<close>

inductive runtime_trace :: "device_state \<Rightarrow> bool \<Rightarrow> event list \<Rightarrow> bool" for st where
  network_failed: "runtime_trace st False [DidApply st]"
| writer_failed: "runtime_trace st False [DidApply st, DidWrite]"
| start_failed: "runtime_trace st False [DidApply st, DidWrite, DidStart path]"
| probe_failed: "runtime_trace st False [DidApply st, DidWrite, DidStart path, DidProbe, DidStop, DidCleanup]"
| served: "runtime_trace st ok [DidApply st, DidWrite, DidStart path, DidProbe, DidReady True, DidAwait, DidReady False,
    DidStop, DidCleanup]"

text \<open>And a whole run: configuration, state, device, persistence, then a runtime; a second one on a device
  from an empty state, persisted before it is used, only if the first failed on persisted credentials.\<close>

definition has_credentials :: "device_state \<Rightarrow> bool" where
  "has_credentials st \<longleftrightarrow> device_id st \<noteq> '''' \<and> access_token st \<noteq> '''' \<and> private_key st \<noteq> ''''"

inductive run_trace :: "bool \<Rightarrow> event list \<Rightarrow> bool" where
  config_failed: "run_trace False [DidConfig]"
| load_failed: "run_trace False [DidConfig, DidLoad]"
| boot_failed: "run_trace False [DidConfig, DidLoad, DidEnsure loaded]"
| save_failed: "run_trace False [DidConfig, DidLoad, DidEnsure loaded, DidSave st]"
| once: "runtime_trace st ok rt \<Longrightarrow> ok \<or> \<not> has_credentials loaded \<Longrightarrow>
    run_trace ok ([DidConfig, DidLoad, DidEnsure loaded, DidSave st] @ rt)"
| fresh_boot_failed: "runtime_trace st False rt \<Longrightarrow> has_credentials loaded \<Longrightarrow>
    run_trace False ([DidConfig, DidLoad, DidEnsure loaded, DidSave st] @ rt @ [DidEnsure empty_state])"
| fresh_save_failed: "runtime_trace st False rt \<Longrightarrow> has_credentials loaded \<Longrightarrow>
    run_trace False ([DidConfig, DidLoad, DidEnsure loaded, DidSave st] @ rt @ [DidEnsure empty_state, DidSave fresh])"
| twice: "runtime_trace st False rt \<Longrightarrow> has_credentials loaded \<Longrightarrow> runtime_trace fresh ok rt' \<Longrightarrow>
    run_trace ok ([DidConfig, DidLoad, DidEnsure loaded, DidSave st] @ rt @ [DidEnsure empty_state, DidSave fresh] @ rt')"

definition follows :: "(trace, 'a) eff \<Rightarrow> (bool \<Rightarrow> event list \<Rightarrow> bool) \<Rightarrow> bool" where
  "follows m P \<longleftrightarrow> (\<forall>w. \<exists>tr. events (snd (m w)) = events w @ tr \<and> P (\<exists>x. fst (m w) = Inr x) tr)"

lemma followsI: "(\<And>w r w'. m w = (r, w') \<Longrightarrow> \<exists>tr. events w' = events w @ tr \<and> P (\<exists>x. r = Inr x) tr) \<Longrightarrow> follows m P"
  by (simp add: follows_def)

lemma followsD: "follows m P \<Longrightarrow> m w = (r, w') \<Longrightarrow> \<exists>tr. events w' = events w @ tr \<and> P (\<exists>x. r = Inr x) tr"
  unfolding follows_def by (metis fst_conv snd_conv)

lemmas traced_ops = traced_app_def observe_def log_line_def Let_def

lemma traced_await: "\<exists>e. await_end traced_app w = (Inr e, w\<lparr>events := events w @ [DidAwait]\<rparr>)"
  by (auto simp: await_end_def traced_ops andThen_def split: wake.split option.split)

lemma traced_shut_down:
  "\<exists>r. shut_down traced_app e w = (r, w\<lparr>events := events w @ [DidReady False, DidStop, DidCleanup]\<rparr>)"
  by (auto simp: shut_down_def traced_ops andThen_def attempt_def split: option.split sum.split)

lemma runtime_follows: "follows (run_started_runtime traced_app cfg st) (runtime_trace st)"
proof (rule followsI)
  fix w r w'
  assume run: "run_started_runtime traced_app cfg st w = (r, w')"
  let ?ev = "events w"
  let ?w1 = "w\<lparr>events := ?ev @ [DidApply st]\<rparr>"
  show "\<exists>tr. events w' = ?ev @ tr \<and> runtime_trace st (\<exists>x. r = Inr x) tr"
  proof (cases "unit_answer w (?ev @ [DidApply st])")
    case (Inl e)
    with run show ?thesis
      by (auto simp: run_started_runtime_def traced_ops andThen_def wrapping_def intro!: network_failed)
  next
    case 1: (Inr u)
    show ?thesis
    proof (cases "path_answer w (?ev @ [DidApply st, DidWrite])")
      case (Inl e)
      with run 1 show ?thesis
        by (auto simp: run_started_runtime_def traced_ops andThen_def wrapping_def intro!: writer_failed)
    next
      case 2: (Inr path)
      show ?thesis
      proof (cases "unit_answer w (?ev @ [DidApply st, DidWrite, DidStart path])")
        case (Inl e)
        with run 1 2 show ?thesis
          by (auto simp: run_started_runtime_def traced_ops andThen_def wrapping_def intro!: start_failed)
      next
        case 3: (Inr v)
        let ?tr = "[DidApply st, DidWrite, DidStart path, DidProbe]"
        show ?thesis
        proof (cases "unit_answer w (?ev @ ?tr)")
          case (Inl e)
          with run 1 2 3 show ?thesis
            by (auto simp: run_started_runtime_def traced_ops andThen_def attempt_def wrapping_def ignoring_def
                intro!: probe_failed)
        next
          case 4: (Inr z)
          obtain e where wait: "await_end traced_app (w\<lparr>events := ?ev @ ?tr @ [DidReady True]\<rparr>) =
              (Inr e, w\<lparr>events := ?ev @ ?tr @ [DidReady True, DidAwait]\<rparr>)"
            using traced_await[of "w\<lparr>events := ?ev @ ?tr @ [DidReady True]\<rparr>"] by auto
          obtain r' where down: "shut_down traced_app e (w\<lparr>events := ?ev @ ?tr @ [DidReady True, DidAwait]\<rparr>) =
              (r', w\<lparr>events := ?ev @ ?tr @ [DidReady True, DidAwait, DidReady False, DidStop, DidCleanup]\<rparr>)"
            using traced_shut_down[of e "w\<lparr>events := ?ev @ ?tr @ [DidReady True, DidAwait]\<rparr>"] by auto
          have "(r, w') = (r', w\<lparr>events := ?ev @ ?tr @ [DidReady True, DidAwait, DidReady False, DidStop, DidCleanup]\<rparr>)"
            using run 1 2 3 4 wait down
            by (simp add: run_started_runtime_def traced_ops andThen_def attempt_def wrapping_def)
          then show ?thesis by (auto intro!: served)
        qed
      qed
    qed
  qed
qed

lemma retry_follows:
  "follows (retry_fresh traced_app cfg err) (\<lambda>ok tr.
     (\<not> ok \<and> tr = [DidEnsure empty_state]) \<or> (\<not> ok \<and> (\<exists>fresh. tr = [DidEnsure empty_state, DidSave fresh])) \<or>
     (\<exists>fresh rt. runtime_trace fresh ok rt \<and> tr = [DidEnsure empty_state, DidSave fresh] @ rt))"
proof (rule followsI)
  fix w r w'
  assume run: "retry_fresh traced_app cfg err w = (r, w')"
  let ?ev = "events w"
  show "\<exists>tr. events w' = ?ev @ tr \<and> ((\<not> (\<exists>x. r = Inr x) \<and> tr = [DidEnsure empty_state]) \<or>
     (\<not> (\<exists>x. r = Inr x) \<and> (\<exists>fresh. tr = [DidEnsure empty_state, DidSave fresh])) \<or>
     (\<exists>fresh rt. runtime_trace fresh (\<exists>x. r = Inr x) rt \<and> tr = [DidEnsure empty_state, DidSave fresh] @ rt))"
  proof (cases "state_answer w (?ev @ [DidEnsure empty_state])")
    case (Inl e)
    with run show ?thesis by (auto simp: retry_fresh_def traced_ops andThen_def attempt_def)
  next
    case 1: (Inr fresh)
    show ?thesis
    proof (cases "unit_answer w (?ev @ [DidEnsure empty_state, DidSave fresh])")
      case (Inl e)
      with run 1 show ?thesis by (auto simp: retry_fresh_def traced_ops andThen_def attempt_def)
    next
      case 2: (Inr u)
      obtain r1 w1 where rt: "run_started_runtime traced_app cfg fresh (w\<lparr>events := ?ev @ [DidEnsure empty_state, DidSave fresh]\<rparr>)
          = (r1, w1)" by (metis prod.collapse)
      from followsD[OF runtime_follows rt] obtain tr where
        "events w1 = ?ev @ [DidEnsure empty_state, DidSave fresh] @ tr" "runtime_trace fresh (\<exists>x. r1 = Inr x) tr" by auto
      moreover have "w' = w1 \<and> (\<exists>x. r = Inr x) = (\<exists>x. r1 = Inr x)"
        using run 1 2 rt[unfolded traced_app_def]
        by (cases r1) (auto simp: retry_fresh_def traced_ops andThen_def attempt_def)
      ultimately show ?thesis by auto
    qed
  qed
qed

lemma run_follows: "follows (run traced_app) run_trace"
proof (rule followsI)
  fix w r w'
  assume run: "run traced_app w = (r, w')"
  let ?ev = "events w"
  show "\<exists>tr. events w' = ?ev @ tr \<and> run_trace (\<exists>x. r = Inr x) tr"
  proof (cases "config_answer w (?ev @ [DidConfig])")
    case (Inl e)
    with run show ?thesis by (auto simp: run_def traced_ops andThen_def wrapping_def intro!: config_failed)
  next
    case 1: (Inr cfg)
    show ?thesis
    proof (cases "state_answer w (?ev @ [DidConfig, DidLoad])")
      case (Inl e)
      with run 1 show ?thesis by (auto simp: run_def traced_ops andThen_def wrapping_def intro!: load_failed)
    next
      case 2: (Inr loaded)
      show ?thesis
      proof (cases "state_answer w (?ev @ [DidConfig, DidLoad, DidEnsure loaded])")
        case (Inl e)
        with run 1 2 show ?thesis by (auto simp: run_def traced_ops andThen_def wrapping_def intro!: boot_failed)
      next
        case 3: (Inr st)
        let ?tr = "[DidConfig, DidLoad, DidEnsure loaded, DidSave st]"
        show ?thesis
        proof (cases "unit_answer w (?ev @ ?tr)")
          case (Inl e)
          with run 1 2 3 show ?thesis by (auto simp: run_def traced_ops andThen_def wrapping_def intro!: save_failed)
        next
          case 4: (Inr u)
          obtain r1 w1 where rt: "run_started_runtime traced_app cfg st (w\<lparr>events := ?ev @ ?tr\<rparr>) = (r1, w1)"
            by (metis prod.collapse)
          from followsD[OF runtime_follows rt] obtain tr1 where
            tr1: "events w1 = ?ev @ ?tr @ tr1" "runtime_trace st (\<exists>x. r1 = Inr x) tr1" by auto
          have rest: "run traced_app w = (case r1 of Inr _ \<Rightarrow> (Inr (), w1)
              | Inl err \<Rightarrow> if has_credentials loaded then retry_fresh traced_app cfg err w1 else (Inl err, w1))"
            using 1 2 3 4 rt[unfolded traced_app_def]
            by (auto simp: run_def traced_ops andThen_def attempt_def wrapping_def should_retry_with_fresh_state_def
                has_credentials_def split: sum.split)
          consider "r1 = Inr ()" | err where "r1 = Inl err" "\<not> has_credentials loaded" | err where "r1 = Inl err" "has_credentials loaded"
            by (cases r1) auto
          then show ?thesis
          proof cases
            case 1
            then have "run_trace True (?tr @ tr1)" using tr1(2) once[of st True] by auto
            then show ?thesis using 1 rest run tr1(1) by auto
          next
            case 2
            then have "run_trace False (?tr @ tr1)" using tr1(2) once[of st False] by auto
            then show ?thesis using 2 rest run tr1(1) by auto
          next
            case 3
            then have retry: "retry_fresh traced_app cfg err w1 = (r, w')" using rest run by simp
            have failed: "runtime_trace st False tr1" using tr1(2) 3(1) by simp
            from followsD[OF retry_follows retry] obtain tr2 where tr2: "events w' = events w1 @ tr2"
              "(\<not> (\<exists>x. r = Inr x) \<and> tr2 = [DidEnsure empty_state]) \<or>
               (\<not> (\<exists>x. r = Inr x) \<and> (\<exists>fresh. tr2 = [DidEnsure empty_state, DidSave fresh])) \<or>
               (\<exists>fresh rt. runtime_trace fresh (\<exists>x. r = Inr x) rt \<and> tr2 = [DidEnsure empty_state, DidSave fresh] @ rt)"
              by blast
            have "run_trace (\<exists>x. r = Inr x) (?tr @ tr1 @ tr2)"
              using tr2(2) fresh_boot_failed[OF failed 3(2)] fresh_save_failed[OF failed 3(2)] twice[OF failed 3(2)] by auto
            with tr2(1) tr1(1) show ?thesis by (intro exI[of _ "?tr @ tr1 @ tr2"]) simp
          qed
        qed
      qed
    qed
  qed
qed

text \<open>C1: A run keeps to its protocol, however its dependencies behave: it reads the configuration and the state, asks
  for a device, persists it before anything uses it, and then brings up network, proxy configuration and
  proxy in this order; it becomes ready only after a probe and never stays ready; it stops the proxy and
  cleans up after a probe failure or when serving ends; and it starts over at most once, on a device from
  an empty state that is persisted first, and only if the first runtime failed on persisted credentials.\<close>

theorem run_follows_protocol:
  "\<exists>tr. events (snd (run traced_app w)) = events w @ tr \<and> run_trace (fst (run traced_app w) = Inr ()) tr"
proof -
  have "(\<exists>x. fst (run traced_app w) = Inr x) = (fst (run traced_app w) = Inr ())" by simp
  then show ?thesis using run_follows unfolding follows_def by simp
qed

text \<open>C34: But not every failure is cleaned up: if the proxy configuration cannot be written or the proxy does not
  start, the runtime returns the error with the network left configured, neither stopping nor cleaning up.\<close>

theorem failed_start_leaves_network:
  assumes "unit_answer w (events w @ [DidApply st]) = Inr ()"
    and "case path_answer w (events w @ [DidApply st, DidWrite]) of Inl _ \<Rightarrow> True
         | Inr path \<Rightarrow> \<exists>e. unit_answer w (events w @ [DidApply st, DidWrite, DidStart path]) = Inl e"
  shows "\<exists>e tr. fst (run_started_runtime traced_app cfg st w) = Inl e \<and>
    events (snd (run_started_runtime traced_app cfg st w)) = events w @ DidApply st # tr \<and>
    DidCleanup \<notin> set tr \<and> DidStop \<notin> set tr"
  using assms
  by (auto simp: run_started_runtime_def traced_ops andThen_def wrapping_def split: sum.splits)

definition sample_trace :: trace where
  "sample_trace = \<lparr>events = [], config_answer = \<lambda>_. Inl (errorf ''unused''), state_answer = \<lambda>_. Inr empty_state,
     path_answer = \<lambda>_. Inl (errorf ''read-only file system''), unit_answer = \<lambda>_. Inr (), wake_answer = \<lambda>_. Shutdown\<rparr>"

lemma failed_start_leaves_network_witness:
  fixes cfg defines "cfg \<equiv> \<lparr>proxy_stack = StackDual, warp_license = unspecified,
       proxy_auth = \<lparr>auth_enabled = False, auth_user = unspecified, auth_pass = unspecified\<rparr>\<rparr>"
  shows
  "\<exists>e tr. fst (run_started_runtime traced_app cfg empty_state sample_trace) = Inl e \<and>
    events (snd (run_started_runtime traced_app cfg empty_state sample_trace)) = DidApply empty_state # tr \<and>
    DidCleanup \<notin> set tr"
  using failed_start_leaves_network[of sample_trace empty_state cfg] by (auto simp: sample_trace_def)

end
