(* ===== verification/Prober.thy ===== *)
theory Prober
  imports GoStrings
begin

text \<open>
  \<open>cmd/warp-socksd/prober.go\<close> and the legacy connectivity probe: checking that traffic through the proxy
  leaves by the tunnel. Sending a request, the clock and the pause between rounds are operations of the
  environment; a pause ends early, with the context's error, if the context ends. Durations are in
  nanoseconds. The loop of \<open>Check\<close> gets fuel; the properties say how much is enough.
\<close>

record probe_target =
  target_url :: string
  target_host :: string

record prober =
  prober_url :: string
  prober_host :: string
  fallback_targets :: "probe_target list"
  retry_window :: int
  retry_interval :: int

record 'w probe_env =
  probe_bad_url :: "string \<Rightarrow> go_error option"
  probe_do :: "string \<Rightarrow> string option \<Rightarrow> ('w, nat \<times> (go_error + string)) eff"
  now :: "'w \<Rightarrow> int \<times> 'w"
  pause :: "int \<Rightarrow> 'w \<Rightarrow> go_error option \<times> 'w"

definition check_once :: "'w probe_env \<Rightarrow> probe_target \<Rightarrow> ('w, unit) eff" where
  "check_once env t =
     (case probe_bad_url env (target_url t) of
        Some e \<Rightarrow> fail (wrap ''create probe request'' e)
      | None \<Rightarrow>
          andThen (wrapping ''perform probe request''
            (probe_do env (target_url t) (if target_host t \<noteq> '''' then Some (target_host t) else None))) (\<lambda>(status, body).
          case body of
            Inl e \<Rightarrow> fail (wrap ''read probe response'' e)
          | Inr answer \<Rightarrow>
              if status \<noteq> 200 then fail (errorf (''probe returned status '' @ nat_dec status))
              else if \<not> str_contains answer ''warp=on''
              then fail (errorf ''probe response does not confirm warp tunnel'')
              else ret ()))"

definition targets :: "prober \<Rightarrow> probe_target list" where
  "targets p = filter (\<lambda>t. target_url t \<noteq> '''')
     (\<lparr>target_url = prober_url p, target_host = prober_host p\<rparr> # fallback_targets p)"

fun try_targets :: "'w probe_env \<Rightarrow> probe_target list \<Rightarrow> go_error option \<Rightarrow> ('w, unit) eff" where
  "try_targets env [] last_err = (case last_err of None \<Rightarrow> ret () | Some e \<Rightarrow> fail e)"
| "try_targets env (t # ts) last_err =
     attempt (check_once env t) (\<lambda>r. case r of Inr _ \<Rightarrow> ret () | Inl e \<Rightarrow> try_targets env ts (Some e))"

definition check_targets :: "'w probe_env \<Rightarrow> prober \<Rightarrow> ('w, unit) eff" where
  "check_targets env p =
     (if targets p = [] then fail (errorf ''probe url is required'') else try_targets env (targets p) None)"

fun check_loop :: "'w probe_env \<Rightarrow> prober \<Rightarrow> int \<Rightarrow> int \<Rightarrow> nat \<Rightarrow> 'w \<Rightarrow> ((go_error + unit) \<times> 'w) option" where
  "check_loop env p deadline interval 0 w = None"
| "check_loop env p deadline interval (Suc fuel) w =
     (case check_targets env p w of
        (Inr _, w1) \<Rightarrow> Some (Inr (), w1)
      | (Inl e, w1) \<Rightarrow>
          (case now env w1 of (t, w2) \<Rightarrow>
             if deadline < t then Some (Inl e, w2)
             else (case pause env interval w2 of
                (Some c, w3) \<Rightarrow> Some (Inl c, w3)
              | (None, w3) \<Rightarrow> check_loop env p deadline interval fuel w3)))"

definition window_of :: "prober \<Rightarrow> int" where
  "window_of p = (if retry_window p \<le> 0 then 30 * 10 ^ 9 else retry_window p)"

definition interval_of :: "prober \<Rightarrow> int" where
  "interval_of p = (if retry_interval p \<le> 0 then 250 * 10 ^ 6 else retry_interval p)"

definition prober_check :: "'w probe_env \<Rightarrow> prober \<Rightarrow> nat \<Rightarrow> 'w \<Rightarrow> ((go_error + unit) \<times> 'w) option" where
  "prober_check env p fuel w =
     (case now env w of (t, w1) \<Rightarrow> check_loop env p (t + window_of p) (interval_of p) fuel w1)"

text \<open>The older probe, one request to one URL.\<close>

definition legacy_check :: "'w probe_env \<Rightarrow> string \<Rightarrow> ('w, unit) eff" where
  "legacy_check env url =
     (if url = '''' then fail (errorf ''legacy probe url is required'')
      else case probe_bad_url env url of
        Some e \<Rightarrow> fail (wrap ''build legacy probe request'' e)
      | None \<Rightarrow>
          andThen (wrapping ''perform legacy connectivity probe'' (probe_do env url None)) (\<lambda>(status, body).
          if 400 \<le> status then fail (errorf (''legacy connectivity probe returned status '' @ nat_dec status)) else ret ()))"

section \<open>What a successful check means\<close>

definition confirmed_by :: "'w probe_env \<Rightarrow> probe_target \<Rightarrow> bool" where
  "confirmed_by env t \<longleftrightarrow> target_url t \<noteq> '''' \<and>
     (\<exists>v v' answer. probe_do env (target_url t) (if target_host t \<noteq> '''' then Some (target_host t) else None) v
        = (Inr (200, Inr answer), v') \<and> str_contains answer ''warp=on'')"

lemma check_once_confirms:
  assumes "check_once env t w = (Inr (), w')" "target_url t \<noteq> ''''"
  shows "confirmed_by env t"
proof -
  let ?host = "if target_host t \<noteq> '''' then Some (target_host t) else None"
  obtain status body v where got: "probe_do env (target_url t) ?host w = (Inr (status, body), v)"
    using assms(1) by (auto simp: check_once_def andThen_Inr_iff wrapping_Inr_iff split: option.splits)
  then have "\<exists>answer. status = 200 \<and> body = Inr answer \<and> str_contains answer ''warp=on''"
    using assms(1)
    by (auto simp: check_once_def andThen_def wrapping_def fail_def split: option.splits sum.splits if_splits)
  with got assms(2) show ?thesis unfolding confirmed_by_def by blast
qed

lemma try_targets_confirms:
  "try_targets env ts le w = (Inr (), w') \<Longrightarrow> \<forall>t \<in> set ts. target_url t \<noteq> '''' \<Longrightarrow> ts \<noteq> [] \<or> le \<noteq> None \<Longrightarrow>
   \<exists>t \<in> set ts. confirmed_by env t"
proof (induction ts arbitrary: le w)
  case (Cons t ts)
  obtain r v where once: "check_once env t w = (r, v)" by (cases "check_once env t w")
  show ?case
  proof (cases r)
    case (Inl e)
    then have "try_targets env ts (Some e) v = (Inr (), w')" using Cons.prems(1) once by simp
    with Cons.IH[of "Some e" v] Cons.prems(2) show ?thesis by auto
  next
    case (Inr u)
    then show ?thesis using check_once_confirms[of env t w v] once Cons.prems(2) by auto
  qed
qed (auto split: option.splits)

lemma check_loop_confirms:
  "check_loop env p deadline interval fuel w = Some (Inr (), w') \<Longrightarrow> \<exists>t \<in> set (targets p). confirmed_by env t"
proof (induction fuel arbitrary: w)
  case (Suc fuel)
  obtain r v where once: "check_targets env p w = (r, v)" by (cases "check_targets env p w")
  show ?case
  proof (cases r)
    case (Inl e)
    then show ?thesis using Suc.prems once Suc.IH by (auto split: prod.splits if_splits option.splits)
  next
    case (Inr u)
    then have "targets p \<noteq> [] \<and> try_targets env (targets p) None w = (Inr (), v)"
      using once by (auto simp: check_targets_def split: if_splits)
    moreover have "\<forall>t \<in> set (targets p). target_url t \<noteq> ''''" by (auto simp: targets_def)
    ultimately show ?thesis using try_targets_confirms[of env "targets p" None w v] by simp
  qed
qed simp

section \<open>The loop ends\<close>

text \<open>
  A clock: nothing turns it back, an undisturbed pause takes its time, a request takes at most \<open>req\<close> (the
  client's timeout, 10 s by default), and reading the clock and waking up after a pause are delayed by at
  most \<open>slack\<close>.
\<close>

definition runs_on_clock :: "'w probe_env \<Rightarrow> ('w \<Rightarrow> int) \<Rightarrow> int \<Rightarrow> int \<Rightarrow> bool" where
  "runs_on_clock env time req slack \<longleftrightarrow>
     (\<forall>w. fst (now env w) = time (snd (now env w)) \<and> time w \<le> time (snd (now env w)) \<and>
          time (snd (now env w)) \<le> time w + slack) \<and>
     (\<forall>url host w. time w \<le> time (snd (probe_do env url host w)) \<and> time (snd (probe_do env url host w)) \<le> time w + req) \<and>
     (\<forall>d w c w'. pause env d w = (c, w') \<longrightarrow> time w' \<le> time w + d + slack \<and> (c = None \<longrightarrow> time w + d \<le> time w'))"

lemma runs_on_clockD:
  assumes "runs_on_clock env time req slack"
  shows "now env w = (t, u) \<Longrightarrow> t = time u \<and> time w \<le> time u \<and> time u \<le> time w + slack"
    "pause env d w = (None, x) \<Longrightarrow> time w + d \<le> time x"
    "pause env d w = (c, x) \<Longrightarrow> time x \<le> time w + d + slack"
    "time w \<le> time (snd (probe_do env url host w))"
    "time (snd (probe_do env url host w)) \<le> time w + req"
    "0 \<le> req" "0 \<le> slack"
proof -
  show clock: "now env w = (t, u) \<Longrightarrow> t = time u \<and> time w \<le> time u \<and> time u \<le> time w + slack" for w t u
    using assms unfolding runs_on_clock_def by (metis fst_conv snd_conv)
  show "pause env d w = (None, x) \<Longrightarrow> time w + d \<le> time x" "pause env d w = (c, x) \<Longrightarrow> time x \<le> time w + d + slack"
    using assms unfolding runs_on_clock_def by blast+
  show request: "time w \<le> time (snd (probe_do env url host w))"
    "time (snd (probe_do env url host w)) \<le> time w + req" for w url host
    using assms unfolding runs_on_clock_def by blast+
  show "0 \<le> req" using request[of undefined undefined undefined] by linarith
  show "0 \<le> slack" using clock[of undefined "fst (now env undefined)" "snd (now env undefined)"] by auto
qed

lemma check_once_time:
  assumes "runs_on_clock env time req slack" "check_once env t w = (r, v)"
  shows "time w \<le> time v \<and> time v \<le> time w + req"
proof -
  have "v = w \<or> v = snd (probe_do env (target_url t) (if target_host t \<noteq> '''' then Some (target_host t) else None) w)"
    using assms(2) by (auto simp: check_once_def andThen_def wrapping_def split: option.splits prod.splits sum.splits if_splits)
  then show ?thesis using runs_on_clockD(4-6)[OF assms(1)] by auto
qed

lemma try_targets_time:
  assumes "runs_on_clock env time req slack"
  shows "try_targets env ts le w = (r, v) \<Longrightarrow> time w \<le> time v \<and> time v \<le> time w + int (length ts) * req"
proof (induction ts arbitrary: le w)
  case (Cons t ts)
  obtain r1 u where once: "check_once env t w = (r1, u)" by (cases "check_once env t w")
  have u: "time w \<le> time u" "time u \<le> time w + req" using check_once_time[OF assms once] by auto
  have "0 \<le> int (length ts) * req" using runs_on_clockD(6)[OF assms] by simp
  then have more: "int (length (t # ts)) * req = req + int (length ts) * req" "0 \<le> int (length ts) * req"
    by (simp_all add: algebra_simps)
  show ?case
  proof (cases r1)
    case (Inl e)
    then have "try_targets env ts (Some e) u = (r, v)" using Cons.prems once by simp
    from Cons.IH[OF this] u more show ?thesis by (intro conjI) linarith+
  next
    case (Inr x)
    then have "v = u" using Cons.prems once by simp
    from u more show ?thesis unfolding \<open>v = u\<close> by (intro conjI) linarith+
  qed
qed (auto split: option.splits)

lemma check_targets_time:
  assumes "runs_on_clock env time req slack" "check_targets env p w = (r, v)"
  shows "time w \<le> time v" "time v \<le> time w + int (length (targets p)) * req"
  using assms(2) try_targets_time[OF assms(1), of "targets p" None w r v]
  by (auto simp: check_targets_def split: if_splits)

text \<open>When the loop returns: at the latest one pause and one round after the deadline, and with an error
  only past the deadline or because the pause was cut short.\<close>

lemma check_loop_time:
  assumes "runs_on_clock env time req slack"
  shows "check_loop env p deadline interval fuel w = Some (r, w') \<Longrightarrow> time w \<le> deadline + interval + slack \<Longrightarrow>
    time w' \<le> deadline + interval + 2 * slack + int (length (targets p)) * req"
proof (induction fuel arbitrary: w)
  case (Suc fuel)
  obtain r1 v where once: "check_targets env p w = (r1, v)" by (cases "check_targets env p w")
  have v: "time v \<le> time w + int (length (targets p)) * req" by (rule check_targets_time[OF assms once])
  obtain t u where clock: "now env v = (t, u)" by (cases "now env v")
  have u: "t = time u" "time u \<le> time v + slack" using runs_on_clockD(1)[OF assms clock] by auto
  obtain c x where pause: "pause env interval u = (c, x)" by (cases "pause env interval u")
  have x: "time x \<le> time u + interval + slack" by (rule runs_on_clockD(3)[OF assms pause])
  have slack: "0 \<le> slack" "0 \<le> int (length (targets p)) * req" using runs_on_clockD(6,7)[OF assms] by simp_all
  consider (ok) y where "r1 = Inr y" "w' = v" | (late) e where "r1 = Inl e" "deadline < t" "w' = u"
    | (cancelled) e where "r1 = Inl e" "\<not> deadline < t" "c \<noteq> None" "w' = x"
    | (again) e where "r1 = Inl e" "\<not> deadline < t" "check_loop env p deadline interval fuel x = Some (r, w')"
    using Suc.prems(1) once clock pause by (cases r1) (auto split: if_splits option.splits)
  then show ?case
  proof cases
    case again
    have "time x \<le> deadline + interval + slack" using again(2) u(1) x by linarith
    with again(3) show ?thesis by (rule Suc.IH)
  qed (use Suc.prems(2) v u x slack in auto)
qed simp

lemma check_loop_fails:
  assumes "runs_on_clock env time req slack"
  shows "check_loop env p deadline interval fuel w = Some (Inl e, w') \<Longrightarrow>
    deadline < time w' \<or> (\<exists>v v'. pause env interval v = (Some e, v'))"
proof (induction fuel arbitrary: w)
  case (Suc fuel)
  obtain r1 v where once: "check_targets env p w = (r1, v)" by (cases "check_targets env p w")
  obtain t u where clock: "now env v = (t, u)" by (cases "now env v")
  have u: "t = time u" using runs_on_clockD(1)[OF assms clock] by auto
  obtain c x where pause: "pause env interval u = (c, x)" by (cases "pause env interval u")
  show ?case using Suc.prems once clock pause u Suc.IH by (cases r1) (auto split: if_splits option.splits)
qed simp

lemma check_loop_ends:
  assumes "runs_on_clock env time req slack" "0 < interval" "deadline < time w + interval * int fuel"
  shows "check_loop env p deadline interval (Suc fuel) w \<noteq> None"
  using assms(3)
proof (induction fuel arbitrary: w)
  case 0
  obtain r v where once: "check_targets env p w = (r, v)" by (cases "check_targets env p w")
  have "time w \<le> time v" by (rule check_targets_time(1)[OF assms(1) once])
  moreover obtain t u where "now env v = (t, u)" by (cases "now env v")
  moreover have "t = time u" "time v \<le> time u" using runs_on_clockD(1)[OF assms(1) calculation(2)] by auto
  ultimately show ?case using 0 once by (cases r) auto
next
  case (Suc fuel)
  obtain r v where once: "check_targets env p w = (r, v)" by (cases "check_targets env p w")
  have v: "time w \<le> time v" by (rule check_targets_time[OF assms(1) once])
  obtain t u where clock: "now env v = (t, u)" by (cases "now env v")
  have u: "time v \<le> time u" using runs_on_clockD(1)[OF assms(1) clock] by simp
  obtain c x where pause: "pause env interval u = (c, x)" by (cases "pause env interval u")
  have "check_loop env p deadline interval (Suc fuel) x \<noteq> None" if "c = None"
  proof (rule Suc.IH)
    have "time u + interval \<le> time x" using runs_on_clockD(2)[OF assms(1)] pause that by simp
    moreover have "interval * int (Suc fuel) = interval + interval * int fuel" by (simp add: algebra_simps)
    ultimately show "deadline < time x + interval * int fuel" using Suc.prems v u by linarith
  qed
  with once clock pause show ?case
    by (cases r) (auto split: option.split simp del: check_loop.simps(2) simp: check_loop.simps(2)[of _ _ _ _ "Suc fuel" w])
qed

text \<open>C27: A check ends and does not lie. On a clock that does not run backwards it returns within two
  rounds more than its window holds intervals (122 rounds with the defaults of 30 s and 250 ms), so at the
  latest one interval and one round of requests after its window, up to the delays of the clock. It succeeds
  only if some configured target, asked with its host header, answered 200 with a body that says
  \<open>warp=on\<close>; it fails only after its window is over, or with the error of a context that ended during a
  pause.\<close>

theorem prober_check_ends:
  assumes "runs_on_clock env time req slack" "window_of p \<le> interval_of p * int n"
  shows "\<exists>r w'. prober_check env p (n + 2) w = Some (r, w') \<and>
    (r = Inr () \<longrightarrow> (\<exists>t \<in> set (targets p). confirmed_by env t)) \<and>
    (\<forall>e. r = Inl e \<longrightarrow> time w + window_of p < time w' \<or> (\<exists>v v'. pause env (interval_of p) v = (Some e, v'))) \<and>
    time w' \<le> time w + window_of p + interval_of p + int (length (targets p)) * req + 3 * slack"
proof -
  obtain t w1 where clock: "now env w = (t, w1)" by (cases "now env w")
  have t: "t = time w1" "time w \<le> t" "t \<le> time w + slack" using runs_on_clockD(1)[OF assms(1) clock] by auto
  have pos: "0 < interval_of p" "0 < window_of p" by (simp_all add: interval_of_def window_of_def)
  have "t + window_of p < time w1 + interval_of p * int (Suc n)"
    using t assms(2) pos by (simp add: algebra_simps)
  from check_loop_ends[OF assms(1) pos(1) this, of p] obtain r w' where
    run: "check_loop env p (t + window_of p) (interval_of p) (n + 2) w1 = Some (r, w')" by auto
  have early: "time w1 \<le> t + window_of p + interval_of p + slack"
    using t pos runs_on_clockD(7)[OF assms(1)] by linarith
  have "time w' \<le> time w + window_of p + interval_of p + int (length (targets p)) * req + 3 * slack"
    using check_loop_time[OF assms(1) run early] t by linarith
  moreover have "time w + window_of p < time w' \<or> (\<exists>v v'. pause env (interval_of p) v = (Some e, v'))" if "r = Inl e" for e
    using check_loop_fails[OF assms(1), of p _ _ _ w1 e w'] run that t by fastforce
  moreover have "\<exists>t \<in> set (targets p). confirmed_by env t" if "r = Inr ()"
    using check_loop_confirms[OF run[unfolded that]] .
  ultimately show ?thesis using run clock by (simp add: prober_check_def)
qed

text \<open>An environment in which every request is refused after a second.\<close>

definition sample_probe_env :: "int probe_env" where
  "sample_probe_env = \<lparr>probe_bad_url = \<lambda>_. None,
     probe_do = \<lambda>_ _ w. (Inl (errorf ''connection refused''), w + 10 ^ 9),
     now = \<lambda>w. (w, w), pause = \<lambda>d w. (None, w + d)\<rparr>"

definition sample_prober :: prober where
  "sample_prober = \<lparr>prober_url = ''http://1.1.1.1/cdn-cgi/trace'', prober_host = ''cloudflare.com'', fallback_targets = [],
     retry_window = 0, retry_interval = 0\<rparr>"

lemma prober_check_ends_witness:
  "\<exists>e w'. prober_check sample_probe_env sample_prober 122 0 = Some (Inl e, w') \<and>
     30 * 10 ^ 9 < w' \<and> w' \<le> 31 * 10 ^ 9 + 250 * 10 ^ 6"
proof -
  have "runs_on_clock sample_probe_env (\<lambda>w. w) (10 ^ 9) 0" by (simp add: runs_on_clock_def sample_probe_env_def)
  from prober_check_ends[OF this, of sample_prober 120 0] obtain r w' where
    run: "prober_check sample_probe_env sample_prober 122 0 = Some (r, w')"
    and ok: "r = Inr () \<longrightarrow> (\<exists>t \<in> set (targets sample_prober). confirmed_by sample_probe_env t)"
    and fails: "\<forall>e. r = Inl e \<longrightarrow> 30 * 10 ^ 9 < w' \<or>
      (\<exists>v v'. pause sample_probe_env (interval_of sample_prober) v = (Some e, v'))"
    and w': "w' \<le> 31 * 10 ^ 9 + 250 * 10 ^ 6"
    by (auto simp: window_of_def interval_of_def sample_prober_def targets_def)
  have "\<not> confirmed_by sample_probe_env t" for t by (simp add: confirmed_by_def sample_probe_env_def)
  then obtain e where "r = Inl e" using ok by (cases r) auto
  with run fails w' show ?thesis by (auto simp: sample_probe_env_def)
qed

end
