(* ===== verification/Main_Config.thy ===== *)
theory Main_Config
  imports Legacy_Backend Prober Supervisor Socks5_Server Socks5_File Health
begin

text \<open>
  The command's own configuration (\<open>cmd/warp-socksd/main.go\<close>, \<open>runtime_backend.go\<close>): what the environment
  selects, the SOCKS5 configuration written for the proxy, the prober's client, the health check and the
  proxy process. Parsing a URL (\<open>http.NewRequest\<close>, giving the host of the URL) and the path of the running
  executable are parameters.
\<close>

definition default_healthcheck_url :: string where
  "default_healthcheck_url = ''http://127.0.0.1:9090/readyz''"

definition default_state_dir :: string where
  "default_state_dir = ''/var/lib/warp-socks''"

definition default_proxy_port :: int where
  "default_proxy_port = 1080"

definition default_proxy_public_host :: string where
  "default_proxy_public_host = ''127.0.0.1''"

definition default_warp_api_base_url :: string where
  "default_warp_api_base_url = ''https://api.cloudflareclient.com''"

datatype warp_backend = BackendLegacy

record runtime_config =
  rc_backend :: warp_backend
  rc_state_dir :: string
  rc_runtime_dir :: string
  rc_socks5_config_path :: string
  rc_proxy_binary :: string
  rc_public_host :: string
  rc_public_port :: int
  rc_healthcheck_url :: string
  rc_health_listen :: string
  rc_api_base :: string
  rc_device_name :: string
  rc_probe_url :: string
  rc_probe_host :: string
  rc_mtu :: int

definition parse_warp_backend :: "string \<Rightarrow> go_error + warp_backend" where
  "parse_warp_backend raw =
     (if value_or_default raw ''legacy'' = ''legacy'' then Inr BackendLegacy
      else Inl (errorf ''WARP_BACKEND must be legacy''))"

definition parse_int_or_default :: "string \<Rightarrow> int \<Rightarrow> int" where
  "parse_int_or_default raw fallback =
     (if raw = '''' then fallback
      else case atoi raw of Inl _ \<Rightarrow> fallback | Inr value \<Rightarrow> if value \<le> 0 then fallback else value)"

definition health_listen_addr_from_url :: "(string \<Rightarrow> go_error + string) \<Rightarrow> string \<Rightarrow> go_error + string" where
  "health_listen_addr_from_url url_host raw =
     (case url_host raw of
        Inl e \<Rightarrow> Inl (wrap ''parse HEALTHCHECK_URL'' e)
      | Inr host \<Rightarrow> if host = '''' then Inl (errorf ''HEALTHCHECK_URL must include host:port'') else Inr host)"

definition current_executable_path :: "go_error + string \<Rightarrow> string" where
  "current_executable_path exe =
     (case exe of Inl _ \<Rightarrow> ''/app/warp-socksd'' | Inr path \<Rightarrow> if path = '''' then ''/app/warp-socksd'' else path)"

definition load_runtime_config ::
  "(string \<Rightarrow> go_error + string) \<Rightarrow> go_error + string \<Rightarrow> (string \<Rightarrow> string) option \<Rightarrow> go_error + runtime_config" where
  "load_runtime_config url_host exe getenv =
     (case getenv of
        None \<Rightarrow> Inl (errorf ''getenv is required'')
      | Some env \<Rightarrow>
          (let state_dir = value_or_default (env ''WARP_STATE_DIR'') default_state_dir;
               runtime_dir = value_or_default (env ''WARP_RUNTIME_DIR'') (path_join state_dir ''runtime'');
               url = value_or_default (env ''HEALTHCHECK_URL'') default_healthcheck_url
           in case health_listen_addr_from_url url_host url of
                Inl e \<Rightarrow> Inl e
              | Inr listen \<Rightarrow>
                  (case parse_warp_backend (env ''WARP_BACKEND'') of
                     Inl e \<Rightarrow> Inl e
                   | Inr backend \<Rightarrow>
                       Inr \<lparr>rc_backend = backend, rc_state_dir = state_dir, rc_runtime_dir = runtime_dir,
                          rc_socks5_config_path = value_or_default (env ''SOCKS5_CONFIG_PATH'') (path_join runtime_dir ''socks5.json''),
                          rc_proxy_binary = value_or_default (env ''PROXY_BINARY_PATH'') (current_executable_path exe),
                          rc_public_host = value_or_default (env ''PROXY_PUBLIC_HOST'') default_proxy_public_host,
                          rc_public_port = parse_int_or_default (env ''PROXY_PUBLIC_PORT'') default_proxy_port,
                          rc_healthcheck_url = url, rc_health_listen = listen, rc_api_base = default_warp_api_base_url,
                          rc_device_name = default_legacy_device_name, rc_probe_url = env ''WARP_CONNECTIVITY_PROBE_URL'',
                          rc_probe_host = env ''WARP_CONNECTIVITY_PROBE_HOST'', rc_mtu = default_mtu\<rparr>)))"

section \<open>The proxy's configuration and process\<close>

definition write_socks5_config ::
  "string \<Rightarrow> config \<Rightarrow> string \<Rightarrow> int \<Rightarrow> bool \<Rightarrow> string \<Rightarrow> ('a disk_scheme, string) eff" where
  "write_socks5_config path cfg host port udp upstream =
     (let file_cfg = \<lparr>f_listen_addr = '':'' @ itoa default_proxy_port, f_public_host = value_or_default host default_proxy_public_host,
            f_public_port = (if port \<le> 0 then default_proxy_port else port), f_allow_udp = udp, f_upstream = upstream,
            f_auth = (if auth_enabled (proxy_auth cfg)
                      then Some \<lparr>auth_username = auth_user (proxy_auth cfg), auth_password = auth_pass (proxy_auth cfg)\<rparr>
                      else None)\<rparr>
      in andThen (write_file_config path file_cfg) (\<lambda>_. ret path))"

text \<open>\<open>runSOCKS5Server\<close>: with an upstream its dialer is used for outgoing connections, else the system's. The
  process serves until its context ends, \<open>serve\<close>, and then closes the server.\<close>

definition run_socks5_server :: "'a disk_scheme listen_env \<Rightarrow> (dialer option \<Rightarrow> server \<Rightarrow> 'a disk_scheme \<Rightarrow> server \<times> 'a disk_scheme)
    \<Rightarrow> string \<Rightarrow> ('a disk_scheme, unit) eff" where
  "run_socks5_server env serve path =
     andThen (load_file_config path) (\<lambda>cfg w.
     let dial = (if upstream_socks5_addr cfg \<noteq> ''''
                 then Some \<lparr>server_addr = upstream_socks5_addr cfg, dialer_auth = None, dialer_timeout = 0\<rparr> else None)
     in case server_start env (new_server cfg) w of
       ((Some e, _), w1) \<Rightarrow> (Inl e, w1)
     | ((None, s), w1) \<Rightarrow> (case serve dial s w1 of (s', w2) \<Rightarrow> (Inr (), snd (server_close env s' w2))))"

section \<open>The prober's client\<close>

definition socks5_client_auth :: "string \<Rightarrow> string \<Rightarrow> auth_config option" where
  "socks5_client_auth username password =
     (if username \<noteq> unspecified \<and> password \<noteq> unspecified \<and> username \<noteq> '''' \<and> password \<noteq> ''''
      then Some \<lparr>auth_username = username, auth_password = password\<rparr> else None)"

text \<open>The HTTP client dials through the proxy with this dialer; its timeout is in nanoseconds.\<close>

definition socks5_http_client :: "string \<Rightarrow> string \<Rightarrow> string \<Rightarrow> int \<Rightarrow> dialer" where
  "socks5_http_client addr username password timeout =
     \<lparr>server_addr = addr, dialer_auth = socks5_client_auth username password, dialer_timeout = timeout\<rparr>"

definition default_probe_targets :: "probe_target \<times> probe_target" where
  "default_probe_targets =
     (\<lparr>target_url = ''http://1.1.1.1/cdn-cgi/trace'', target_host = ''cloudflare.com''\<rparr>,
      \<lparr>target_url = ''http://[2606:4700:4700::1111]/cdn-cgi/trace'', target_host = ''cloudflare.com''\<rparr>)"

definition new_prober :: "string \<Rightarrow> string \<Rightarrow> string \<Rightarrow> string \<Rightarrow> string \<Rightarrow> dialer \<times> prober" where
  "new_prober addr username password url host =
     (socks5_http_client addr username password (10 * 10 ^ 9),
      if url \<noteq> ''''
      then \<lparr>prober_url = url, prober_host = host, fallback_targets = [], retry_window = 0, retry_interval = 0\<rparr>
      else \<lparr>prober_url = target_url (fst default_probe_targets), prober_host = target_host (fst default_probe_targets),
            fallback_targets = [snd default_probe_targets], retry_window = 0, retry_interval = 0\<rparr>)"

section \<open>Health check and entry point\<close>

definition healthcheck :: "(string \<Rightarrow> ('w, nat) eff) \<Rightarrow> string \<Rightarrow> ('w, unit) eff" where
  "healthcheck get url =
     andThen (wrapping ''healthcheck request failed'' (get url)) (\<lambda>status.
     if status \<noteq> 200 then fail (errorf (''healthcheck returned status '' @ nat_dec status)) else ret ())"

datatype invocation = ServeSocks5 string | Healthcheck string | RunRuntime runtime_config

definition select_invocation :: "string list \<Rightarrow> go_error + runtime_config \<Rightarrow> go_error + invocation" where
  "select_invocation args loaded =
     (if args \<noteq> [] \<and> hd args = ''serve-socks5'' then
        (case args of
           [_, path] \<Rightarrow> Inr (ServeSocks5 path)
         | _ \<Rightarrow> Inl (errorf ''serve-socks5 requires exactly one config path argument''))
      else case loaded of
        Inl e \<Rightarrow> Inl e
      | Inr cfg \<Rightarrow>
          if args \<noteq> [] \<and> hd args = ''healthcheck'' then Inr (Healthcheck (rc_healthcheck_url cfg))
          else if args \<noteq> [] then Inl (errorf (''unknown subcommand '' @ quoted (hd args)))
          else Inr (RunRuntime cfg))"

text \<open>The end of \<open>runWithEnv\<close>: which goroutine reported first, and what shutting the health server down gave.\<close>

datatype first_end = AppEnded "go_error option" | HealthServerFailed go_error

definition run_result :: "first_end \<Rightarrow> go_error option \<Rightarrow> go_error option" where
  "run_result first shutdown =
     (let run_err = (case first of AppEnded r \<Rightarrow> r | HealthServerFailed e \<Rightarrow> Some (wrap ''serve health endpoints'' e))
      in case shutdown of
           None \<Rightarrow> run_err
         | Some e \<Rightarrow>
             if \<not> has_kind Canceled e \<and> \<not> has_kind ServerClosed e \<and> run_err = None
             then Some (wrap ''shutdown health server'' e) else run_err)"

section \<open>Properties\<close>

lemma parse_int_or_default_range:
  "0 < fallback \<Longrightarrow> fallback < 2 ^ 63 \<Longrightarrow> 0 < parse_int_or_default raw fallback \<and> parse_int_or_default raw fallback < 2 ^ 63"
  by (auto simp: parse_int_or_default_def atoi_def Let_def split: sum.splits if_splits)

lemma load_from_env_auth:
  assumes "load_from_env (Some env) = Inr cfg"
  shows "(if auth_enabled (proxy_auth cfg)
          then Some \<lparr>auth_username = auth_user (proxy_auth cfg), auth_password = auth_pass (proxy_auth cfg)\<rparr> else None)
    = socks5_client_auth (env ''uname'') (env ''upwd'')"
  using assms
  by (auto simp: load_from_env_def socks5_client_auth_def normalize_optional_def Let_def split: sum.splits if_splits)

lemma proxy_port_text: "itoa default_proxy_port = ''1080''"
  by (simp add: default_proxy_port_def nat_dec_eval)

text \<open>C15: The proxy, its supervisor and the prober agree: from the environment an accepted configuration is read, the
  file written from it loads in the proxy process to a server that listens on port 1080 with a public host
  and a positive public port, that is waited for at 127.0.0.1:1080, the address the prober dials, and that
  asks for exactly the credentials the prober presents (none if it presents none).\<close>

theorem proxy_and_prober_agree:
  assumes "load_from_env (Some env) = Inr cfg"
    and "write_socks5_config path cfg host (parse_int_or_default (env ''PROXY_PUBLIC_PORT'') default_proxy_port) udp '''' d = (Inr p, d')"
    and "pop_fault d' = (NoFault, d'')"
    and "valid_utf8 (env ''uname'') = env ''uname''" "valid_utf8 (env ''upwd'') = env ''upwd''" "valid_utf8 host = host"
  shows "p = path \<and> (\<exists>sc. load_file_config path d' = (Inr sc, d'') \<and>
    srv_auth sc = dialer_auth (fst (new_prober ''127.0.0.1:1080'' (env ''uname'') (env ''upwd'') url probe_host)) \<and>
    local_readiness_address (listen_addr sc) = Inr (server_addr (fst (new_prober ''127.0.0.1:1080'' (env ''uname'') (env ''upwd'') url probe_host))) \<and>
    public_host sc \<noteq> '''' \<and> 0 < public_port sc \<and> allow_udp sc = udp \<and> upstream_socks5_addr sc = '''')"
proof -
  define port where "port = parse_int_or_default (env ''PROXY_PUBLIC_PORT'') default_proxy_port"
  define fc where "fc = \<lparr>f_listen_addr = '':1080'', f_public_host = value_or_default host default_proxy_public_host, f_public_port = port,
    f_allow_udp = udp, f_upstream = '''', f_auth = socks5_client_auth (env ''uname'') (env ''upwd'')\<rparr>"
  have port: "0 < port" "port < 2 ^ 63"
    unfolding port_def using parse_int_or_default_range[of default_proxy_port] by (simp_all add: default_proxy_port_def)
  have "write_file_config path fc d = (Inr (), d') \<and> p = path"
    using assms(2) port(1) load_from_env_auth[OF assms(1)]
    by (auto simp: write_socks5_config_def Let_def proxy_port_text port_def[symmetric] fc_def andThen_Inr_iff)
  moreover have "load_file_config path d' = (Inr (server_config_of (valid_file_config fc)), d'')"
    using write_load_file_config[of path fc d d' d''] calculation assms(3) port
    by (simp add: fc_def value_or_default_def default_proxy_public_host_def split: if_splits)
  moreover have "valid_utf8 '':1080'' = '':1080''" "valid_utf8 ''127.0.0.1'' = ''127.0.0.1''" "valid_utf8 '''' = ''''"
    by (rule valid_utf8_ascii; simp)+
  moreover have "map_option valid_auth (socks5_client_auth (env ''uname'') (env ''upwd'')) = socks5_client_auth (env ''uname'') (env ''upwd'')"
    using assms(4,5) by (simp add: socks5_client_auth_def valid_auth_def)
  moreover have "local_readiness_address '':1080'' = Inr ''127.0.0.1:1080''"
    by (simp add: local_readiness_address_def split_host_port_def split_last_colon_def join_host_port_def)
  ultimately show ?thesis
    using assms(6) port(1)
    by (auto simp: fc_def server_config_of_def valid_file_config_def new_prober_def socks5_http_client_def
        value_or_default_def default_proxy_public_host_def)
qed

definition sample_env :: "string \<Rightarrow> string" where
  "sample_env = (\<lambda>_. '''')(''uname'' := ''u'', ''upwd'' := ''p'')"

lemma proxy_and_prober_agree_witness:
  "\<exists>cfg d' sc. load_from_env (Some sample_env) = Inr cfg \<and>
     write_socks5_config ''r/socks5.json'' cfg '''' 1080 True '''' empty_disk = (Inr ''r/socks5.json'', d') \<and>
     load_file_config ''r/socks5.json'' d' = (Inr sc, d') \<and> srv_auth sc = Some \<lparr>auth_username = ''u'', auth_password = ''p''\<rparr>"
proof -
  obtain cfg where cfg: "load_from_env (Some sample_env) = Inr cfg"
    by (simp add: load_from_env_def load_stack_mode_def normalize_optional_def sample_env_def unspecified_def)
  have "path_dir ''r/socks5.json'' = ''r''" by (simp add: path_dir_def path_clean_def)
  then obtain d' where run: "write_socks5_config ''r/socks5.json'' cfg '''' 1080 True '''' empty_disk = (Inr ''r/socks5.json'', d')"
    "pop_fault d' = (NoFault, d')"
    by (simp add: write_socks5_config_def write_file_config_def Let_def os_mkdir_all_def os_call_def pop_fault_def os_write_file_def
        os_write_def os_close_def andThen_def attempt_def wrapping_def empty_disk_def set_file_def append_file_def)
  have port: "parse_int_or_default (sample_env ''PROXY_PUBLIC_PORT'') default_proxy_port = 1080"
    by (simp add: parse_int_or_default_def sample_env_def default_proxy_port_def)
  have ascii: "valid_utf8 (sample_env ''uname'') = sample_env ''uname''" "valid_utf8 (sample_env ''upwd'') = sample_env ''upwd''"
    "valid_utf8 '''' = ''''" unfolding sample_env_def by (rule valid_utf8_ascii; simp)+
  from proxy_and_prober_agree[OF cfg, unfolded port, OF run ascii, of "''''" "''''"] cfg run show ?thesis
    by (auto simp: new_prober_def socks5_http_client_def socks5_client_auth_def sample_env_def unspecified_def)
qed

text \<open>The container's health is the runtime's readiness: the health check subcommand, asking the runtime's own
  health server, succeeds exactly if the flag is set, and exactly one of the three kinds of invocation is
  chosen by the arguments, the configuration being loaded for all but the proxy process.\<close>

theorem healthcheck_reports_readiness:
  "(fst (healthcheck (\<lambda>_. ret (resp_code (serve_health format_time source ''/readyz''))) url w) = Inr ()) =
     (case source of None \<Rightarrow> False | Some s \<Rightarrow> status_ready s) \<and>
   select_invocation [] (Inr cfg) = Inr (RunRuntime cfg) \<and>
   select_invocation [''healthcheck''] (Inr cfg) = Inr (Healthcheck (rc_healthcheck_url cfg)) \<and>
   select_invocation [''serve-socks5'', path] loaded = Inr (ServeSocks5 path) \<and>
   (\<exists>e. select_invocation [''serve-socks5''] loaded = Inl e)"
  by (auto simp: healthcheck_def serve_health_def handle_readyz_def plain_def select_invocation_def andThen_def wrapping_def
      split: option.split)

end
