(* ===== verification/Main_Run.thy ===== *)
theory Main_Run
  imports Main_Config
begin

text \<open>
  The end of \<open>runWithEnv\<close> (\<open>cmd/warp-socksd/main.go\<close>): the goroutine of the health server, the goroutine of the
  application and the main one, with their two channels of capacity one and the cancelled context, as
  interleaved steps. \<open>Main_Config\<close> says what the function does up to here; what the application does is
  the subject of \<open>App_Run\<close> and enters as its result.
\<close>

datatype app_goroutine = AppRunning | AppReturned "go_error option"

datatype health_goroutine = HealthServing | HealthReporting | HealthReturned

datatype main_goroutine =
  Selecting
| AwaitingApp go_error
| Stopping first_end
| MainReturned first_end "go_error option"

record entry =
  en_app :: app_goroutine
  en_health :: health_goroutine
  en_main :: main_goroutine
  app_err :: "go_error option option"
  server_err :: "go_error option"
  en_cancelled :: bool
  en_signalled :: bool

definition entry_start :: entry where
  "entry_start = \<lparr>en_app = AppRunning, en_health = HealthServing, en_main = Selecting, app_err = None, server_err = None,
     en_cancelled = False, en_signalled = False\<rparr>"

text \<open>What \<open>runWithEnv\<close> returns, and the exit status \<open>main\<close> makes of it.\<close>

definition entry_result :: "entry \<Rightarrow> go_error option option" where
  "entry_result s = (case en_main s of MainReturned first shutdown \<Rightarrow> Some (run_result first shutdown) | _ \<Rightarrow> None)"

definition exit_status :: "go_error option \<Rightarrow> nat" where
  "exit_status result = (if result = None then 0 else 1)"

text \<open>The steps. A failing \<open>ListenAndServe\<close> puts its error into its channel and cancels the context; one that was
  shut down just returns. The \<open>select\<close> takes either result that is there; the return cancels the context.\<close>

inductive entry_step :: "entry \<Rightarrow> entry \<Rightarrow> bool" where
  signal: "entry_step s (s\<lparr>en_signalled := True, en_cancelled := True\<rparr>)"
| app_returns: "en_app s = AppRunning \<Longrightarrow> entry_step s (s\<lparr>en_app := AppReturned r, app_err := Some r\<rparr>)"
| listen_fails: "en_health s = HealthServing \<Longrightarrow> \<not> has_kind ServerClosed e \<Longrightarrow>
    entry_step s (s\<lparr>en_health := HealthReporting, server_err := Some e\<rparr>)"
| health_cancels: "en_health s = HealthReporting \<Longrightarrow> entry_step s (s\<lparr>en_health := HealthReturned, en_cancelled := True\<rparr>)"
| server_closed: "en_health s = HealthServing \<Longrightarrow> en_main s \<noteq> Selecting \<Longrightarrow> entry_step s (s\<lparr>en_health := HealthReturned\<rparr>)"
| select_app: "en_main s = Selecting \<Longrightarrow> app_err s = Some r \<Longrightarrow>
    entry_step s (s\<lparr>en_main := Stopping (AppEnded r), app_err := None\<rparr>)"
| select_server: "en_main s = Selecting \<Longrightarrow> server_err s = Some e \<Longrightarrow>
    entry_step s (s\<lparr>en_main := AwaitingApp e, server_err := None\<rparr>)"
| app_awaited: "en_main s = AwaitingApp e \<Longrightarrow> app_err s = Some r \<Longrightarrow>
    entry_step s (s\<lparr>en_main := Stopping (HealthServerFailed e), app_err := None\<rparr>)"
| shut_down_server: "en_main s = Stopping first \<Longrightarrow>
    entry_step s (s\<lparr>en_main := MainReturned first shutdown, en_cancelled := True\<rparr>)"

definition entry_reachable :: "entry \<Rightarrow> bool" where
  "entry_reachable = entry_step\<^sup>*\<^sup>* entry_start"

lemma entry_reachable_start: "entry_reachable entry_start"
  by (simp add: entry_reachable_def)

lemma entry_reachable_step: "entry_reachable s \<Longrightarrow> entry_step s s' \<Longrightarrow> entry_reachable s'"
  unfolding entry_reachable_def by (rule rtranclp.rtrancl_into_rtrancl)

section \<open>The invariant\<close>

definition entry_inv :: "entry \<Rightarrow> bool" where
  "entry_inv s \<longleftrightarrow>
     (app_err s = (case (en_app s, en_main s) of
        (AppReturned r, Selecting) \<Rightarrow> Some r
      | (AppReturned r, AwaitingApp e) \<Rightarrow> Some r
      | _ \<Rightarrow> None)) \<and>
     (case en_main s of
        Selecting \<Rightarrow> True
      | AwaitingApp e \<Rightarrow> en_health s \<noteq> HealthServing \<and> \<not> has_kind ServerClosed e
      | Stopping (AppEnded r) \<Rightarrow> en_app s = AppReturned r
      | Stopping (HealthServerFailed e) \<Rightarrow> en_app s \<noteq> AppRunning \<and> \<not> has_kind ServerClosed e
      | MainReturned (AppEnded r) sd \<Rightarrow> en_app s = AppReturned r \<and> en_cancelled s
      | MainReturned (HealthServerFailed e) sd \<Rightarrow> en_app s \<noteq> AppRunning \<and> \<not> has_kind ServerClosed e \<and> en_cancelled s) \<and>
     (\<forall>e. server_err s = Some e \<longrightarrow> \<not> has_kind ServerClosed e) \<and>
     (en_health s = HealthServing \<longrightarrow> server_err s = None)"

lemma entry_inv_start: "entry_inv entry_start"
  by (simp add: entry_inv_def entry_start_def)

lemma entry_inv_step: "entry_step s s' \<Longrightarrow> entry_inv s \<Longrightarrow> entry_inv s'"
  by (induction rule: entry_step.induct)
     (auto simp: entry_inv_def split: main_goroutine.splits app_goroutine.splits first_end.splits)

lemma entry_inv_reachable: "entry_reachable s \<Longrightarrow> entry_inv s"
  unfolding entry_reachable_def
  by (induction rule: rtranclp_induct) (auto intro: entry_inv_start entry_inv_step)

section \<open>Properties\<close>

text \<open>C22: \<open>runWithEnv\<close> returns only after the application's \<open>Run\<close> has returned (so after what it cleans up), with
  the context cancelled; it returns no error only if the application returned none, and if the application
  failed it returns an error, so the exit status tells at least that.\<close>

theorem entry_returns_after_app:
  assumes "entry_reachable s" "entry_result s = Some result"
  shows "en_cancelled s \<and> (\<exists>r. en_app s = AppReturned r \<and> (r \<noteq> None \<longrightarrow> exit_status result = 1))"
proof -
  obtain first sd where main: "en_main s = MainReturned first sd" "result = run_result first sd"
    using assms(2) by (auto simp: entry_result_def split: main_goroutine.splits)
  show ?thesis
    using entry_inv_reachable[OF assms(1)] main
    by (cases first; cases "en_app s") (auto simp: entry_inv_def exit_status_def run_result_def Let_def split: option.split)
qed

definition sample_ended :: entry where
  "sample_ended = entry_start\<lparr>en_app := AppReturned (Some (errorf ''x'')), en_health := HealthServing,
     en_main := MainReturned (AppEnded (Some (errorf ''x''))) None, en_cancelled := True\<rparr>"

lemma sample_ended_reachable: "entry_reachable sample_ended"
proof -
  let ?r = "Some (errorf ''x'')"
  let ?s1 = "entry_start\<lparr>en_app := AppReturned ?r, app_err := Some ?r\<rparr>"
  let ?s2 = "?s1\<lparr>en_main := Stopping (AppEnded ?r), app_err := None\<rparr>"
  let ?s3 = "?s2\<lparr>en_main := MainReturned (AppEnded ?r) None, en_cancelled := True\<rparr>"
  have "entry_reachable ?s1"
    by (rule entry_reachable_step[OF entry_reachable_start entry_step.app_returns]) (simp add: entry_start_def)
  then have "entry_reachable ?s2" by (rule entry_reachable_step[OF _ entry_step.select_app]) (simp_all add: entry_start_def)
  then have "entry_reachable ?s3" by (rule entry_reachable_step[OF _ entry_step.shut_down_server]) simp
  moreover have "?s3 = sample_ended" by (simp add: sample_ended_def entry_start_def)
  ultimately show ?thesis by simp
qed

lemma entry_returns_after_app_witness:
  "en_cancelled sample_ended \<and> exit_status (run_result (AppEnded (Some (errorf ''x''))) None) = 1"
proof -
  have "entry_result sample_ended = Some (run_result (AppEnded (Some (errorf ''x''))) None)"
    by (simp add: sample_ended_def entry_result_def)
  from entry_returns_after_app[OF sample_ended_reachable this] show ?thesis by (auto simp: sample_ended_def)
qed

fun main_rank :: "main_goroutine \<Rightarrow> nat" where
  "main_rank Selecting = 3"
| "main_rank (AwaitingApp e) = 2"
| "main_rank (Stopping first) = 1"
| "main_rank (MainReturned first shutdown) = 0"

lemma main_rank_step: "entry_step s s' \<Longrightarrow> main_rank (en_main s') \<le> main_rank (en_main s)"
  by (induction rule: entry_step.induct) auto

lemma main_progress:
  assumes "entry_inv s" "en_app s \<noteq> AppRunning" "entry_result s = None"
  shows "\<exists>s'. entry_step s s' \<and> en_app s' = en_app s \<and> main_rank (en_main s') < main_rank (en_main s)"
proof -
  obtain r where r: "en_app s = AppReturned r" using assms(2) by (cases "en_app s") auto
  show ?thesis
  proof (cases "en_main s")
    case Selecting
    then have "app_err s = Some r" using assms(1) r by (simp add: entry_inv_def)
    from entry_step.select_app[OF Selecting this] Selecting show ?thesis by fastforce
  next
    case (AwaitingApp e)
    then have "app_err s = Some r" using assms(1) r by (simp add: entry_inv_def)
    from entry_step.app_awaited[OF AwaitingApp this] AwaitingApp show ?thesis by fastforce
  next
    case (Stopping first)
    from entry_step.shut_down_server[OF Stopping] Stopping show ?thesis by fastforce
  qed (use assms(3) in \<open>simp add: entry_result_def\<close>)
qed

lemma entry_finishes: "entry_inv s \<Longrightarrow> en_app s \<noteq> AppRunning \<Longrightarrow> \<exists>s'. entry_step\<^sup>*\<^sup>* s s' \<and> entry_result s' \<noteq> None"
proof (induction "main_rank (en_main s)" arbitrary: s rule: less_induct)
  case less
  show ?case
  proof (cases "entry_result s")
    case None
    with main_progress[of s] less.prems obtain s1 where
      s1: "entry_step s s1" "en_app s1 = en_app s" "main_rank (en_main s1) < main_rank (en_main s)" by blast
    with less.hyps[OF s1(3)] less.prems entry_inv_step obtain s2 where "entry_step\<^sup>*\<^sup>* s1 s2" "entry_result s2 \<noteq> None" by auto
    with s1(1) show ?thesis by (meson converse_rtranclp_into_rtranclp)
  qed blast
qed

text \<open>C23: \<open>runWithEnv\<close> is never stuck: in every reachable state in which the application has returned, either the
  function has returned too or its goroutine can take a step towards its return, at most three of them,
  and no step of anyone takes it back; so from every reachable state some run returns.\<close>

theorem entry_never_stuck:
  assumes "entry_reachable s"
  shows "(en_app s \<noteq> AppRunning \<longrightarrow> entry_result s \<noteq> None \<or>
      (\<exists>s'. entry_step s s' \<and> main_rank (en_main s') < main_rank (en_main s))) \<and>
    main_rank (en_main s) \<le> 3 \<and>
    (\<forall>s'. entry_step s s' \<longrightarrow> main_rank (en_main s') \<le> main_rank (en_main s)) \<and>
    (\<exists>s'. entry_step\<^sup>*\<^sup>* s s' \<and> entry_result s' \<noteq> None)"
proof -
  have inv: "entry_inv s" by (rule entry_inv_reachable[OF assms])
  have "\<exists>s'. entry_step\<^sup>*\<^sup>* s s' \<and> entry_result s' \<noteq> None"
  proof (cases "en_app s")
    case AppRunning
    then have step: "entry_step s (s\<lparr>en_app := AppReturned None, app_err := Some None\<rparr>)" by (rule entry_step.app_returns)
    from entry_finishes[OF entry_inv_step[OF step inv]] step show ?thesis
      by (auto intro: converse_rtranclp_into_rtranclp)
  next
    case (AppReturned r)
    with entry_finishes[OF inv] show ?thesis by simp
  qed
  moreover have "main_rank (en_main s) \<le> 3" by (cases "en_main s") simp_all
  ultimately show ?thesis using main_progress[OF inv] main_rank_step by blast
qed

lemma entry_never_stuck_witness:
  "\<exists>s'. entry_step\<^sup>*\<^sup>* sample_ended s' \<and> entry_result s' \<noteq> None"
  using entry_never_stuck[OF sample_ended_reachable] by blast

text \<open>The error of the health server can be lost: if the application also returns, without an error, before the
  main goroutine looks, the \<open>select\<close> may take the application's result, and the process exits with status 0
  although it never served its health endpoints.\<close>

theorem health_error_can_be_lost:
  assumes "\<not> has_kind ServerClosed e"
  shows "\<exists>s. entry_reachable s \<and> server_err s = Some e \<and> entry_result s = Some None \<and> exit_status None = 0"
proof -
  let ?s1 = "entry_start\<lparr>en_health := HealthReporting, server_err := Some e\<rparr>"
  let ?s2 = "?s1\<lparr>en_health := HealthReturned, en_cancelled := True\<rparr>"
  let ?s3 = "?s2\<lparr>en_app := AppReturned None, app_err := Some None\<rparr>"
  let ?s4 = "?s3\<lparr>en_main := Stopping (AppEnded None), app_err := None\<rparr>"
  let ?s5 = "?s4\<lparr>en_main := MainReturned (AppEnded None) None, en_cancelled := True\<rparr>"
  have "entry_reachable ?s1"
    by (rule entry_reachable_step[OF entry_reachable_start entry_step.listen_fails]) (simp_all add: entry_start_def assms)
  then have "entry_reachable ?s2" by (rule entry_reachable_step[OF _ entry_step.health_cancels]) simp
  then have "entry_reachable ?s3" by (rule entry_reachable_step[OF _ entry_step.app_returns]) (simp add: entry_start_def)
  then have "entry_reachable ?s4" by (rule entry_reachable_step[OF _ entry_step.select_app]) (simp_all add: entry_start_def)
  then have "entry_reachable ?s5" by (rule entry_reachable_step[OF _ entry_step.shut_down_server]) simp
  then show ?thesis by (rule_tac exI[of _ ?s5]) (simp add: entry_result_def run_result_def exit_status_def)
qed

lemma health_error_can_be_lost_witness:
  "\<exists>s. entry_reachable s \<and> server_err s = Some (errorf ''address in use'') \<and> entry_result s = Some None \<and> exit_status None = 0"
  by (rule health_error_can_be_lost) simp

end
