(* ===== verification/Runtime.thy ===== *)
theory Runtime
  imports Main_Config App_Run
begin

text \<open>
  The runtime put together (\<open>buildRuntimeDependencies\<close>, \<open>newRuntimeApp\<close>): the application on the store, the
  bootstrapper, the network manager, the configuration file, the prober and the status. The state is the
  status, the route manager and the machine, a disk with whatever else the machine has; the operations of
  the outside (HTTP, key generation, commands, the supervised process as seen by the application, probing)
  are operations on the machine. The supervisor itself is the subject of \<open>Supervisor\<close>.
\<close>

type_synonym 'a machine = "runtime_status \<times> (route_manager \<times> 'a disk_scheme)"

record 'w platform =
  pf_http :: "'w http_env"
  pf_entropy :: "'w entropy"
  pf_runner :: "'w runner"
  pf_start :: "string \<Rightarrow> string \<Rightarrow> ('w, unit) eff"
  pf_stop :: "('w, unit) eff"
  pf_wait :: "'w \<Rightarrow> wake \<times> 'w"
  pf_probe :: "dialer \<Rightarrow> 'w probe_env"
  pf_rounds :: nat
  pf_log :: "string \<Rightarrow> 'w \<Rightarrow> 'w"

definition on_machine :: "('a disk_scheme, 'b) eff \<Rightarrow> ('a machine, 'b) eff" where
  "on_machine m = on_world (on_world m)"

definition run_probe :: "'w platform \<Rightarrow> dialer \<times> prober \<Rightarrow> ('w, unit) eff" where
  "run_probe pf p w =
     (case prober_check (pf_probe pf (fst p)) (snd p) (pf_rounds pf) w of
        Some x \<Rightarrow> x
      | None \<Rightarrow> (Inl (errorf ''out of rounds''), w))"

definition legacy_dependencies ::
  "'a disk_scheme platform \<Rightarrow> (string \<Rightarrow> string) \<Rightarrow> runtime_config \<Rightarrow> 'a machine dependencies" where
  "legacy_dependencies pf env cfg =
     (let net = legacy_network (pf_runner pf) (rc_device_name cfg) (rc_mtu cfg);
          api = client_api (pf_http pf) (rc_api_base cfg);
          pr = new_prober (''127.0.0.1:'' @ itoa default_proxy_port) (env ''uname'') (env ''upwd'') (rc_probe_url cfg) (rc_probe_host cfg)
      in \<lparr>config_loader = Some (\<lambda>w. (load_from_env (Some env), w)),
          state_loader = Some (on_machine (store_load (rc_state_dir cfg))),
          state_saver = Some (\<lambda>st. on_machine (store_save (rc_state_dir cfg) st)),
          bootstrap = Some (\<lambda>c st. on_machine (ensure_device (Some api) (pf_entropy pf) c st)),
          network = Some (\<lambda>c st. on_world (network_apply net c st), on_world (network_cleanup net)),
          proxy_writer = Some (\<lambda>c. on_machine
            (write_socks5_config (rc_socks5_config_path cfg) c (rc_public_host cfg) (rc_public_port cfg) True '''')),
          supervise = Some (\<lambda>path. on_machine (pf_start pf (rc_proxy_binary cfg) path), on_machine (pf_stop pf),
            \<lambda>(s, m, w). case pf_wait pf w of (k, w') \<Rightarrow> (k, (s, m, w'))),
          probe = Some (on_machine (run_probe pf pr)),
          readiness = Some (\<lambda>b (s, x). (set_ready b s, x))\<rparr>)"

definition build_runtime_dependencies ::
  "'a disk_scheme platform \<Rightarrow> (string \<Rightarrow> string) \<Rightarrow> runtime_config \<Rightarrow> go_error + 'a machine dependencies" where
  "build_runtime_dependencies pf env cfg =
     (case rc_backend cfg of BackendLegacy \<Rightarrow> Inr (legacy_dependencies pf env cfg))"

definition new_runtime_app ::
  "'a disk_scheme platform \<Rightarrow> (string \<Rightarrow> string) \<Rightarrow> runtime_config \<Rightarrow> go_error + 'a machine app" where
  "new_runtime_app pf env cfg =
     (case build_runtime_dependencies pf env cfg of
        Inl e \<Rightarrow> Inl e
      | Inr deps \<Rightarrow> new_app (\<lambda>line (s, m, w). (s, m, pf_log pf line w)) deps)"

definition legacy_app :: "'a disk_scheme platform \<Rightarrow> (string \<Rightarrow> string) \<Rightarrow> runtime_config \<Rightarrow> 'a machine app" where
  "legacy_app pf env cfg = projr (new_runtime_app pf env cfg)"

lemma new_runtime_app_Inr: "new_runtime_app pf env cfg = Inr (legacy_app pf env cfg)"
  by (cases "rc_backend cfg")
     (simp add: legacy_app_def new_runtime_app_def build_runtime_dependencies_def new_app_def legacy_dependencies_def Let_def)

lemma legacy_app_fields:
  "ensure (legacy_app pf env cfg) =
     (\<lambda>c st. on_machine (ensure_device (Some (client_api (pf_http pf) (rc_api_base cfg))) (pf_entropy pf) c st))"
  "save_state (legacy_app pf env cfg) = (\<lambda>st. on_machine (store_save (rc_state_dir cfg) st))"
  "net_apply (legacy_app pf env cfg) =
     (\<lambda>c st. on_world (network_apply (legacy_network (pf_runner pf) (rc_device_name cfg) (rc_mtu cfg)) c st))"
  by (cases "rc_backend cfg";
      simp add: legacy_app_def new_runtime_app_def build_runtime_dependencies_def new_app_def legacy_dependencies_def Let_def)+

section \<open>The contracts, discharged\<close>

interpretation legacy_boot: bootstrapper
    "\<lambda>c st. on_machine (ensure_device client src c st) :: ('a machine, device_state) eff" usable_state
  for client :: "'a disk_scheme warp_api option" and src
proof unfold_locales
  fix c st st' and w w' :: "'a machine"
  assume "on_machine (ensure_device client src c st) w = (Inr st', w')"
  then obtain v v' where "ensure_device client src c st v = (Inr st', v')"
    by (cases w) (auto simp: on_machine_def on_world_def split: prod.splits)
  from ensure_device_result[OF this] show "usable_state c st'" by simp
qed

lemma keeps_fst: "keeps (\<lambda>w. status_ready (fst w) = b) (on_world m)"
  by (simp add: keeps_def on_world_def split: prod.split)

interpretation legacy_ready: readiness_flag "legacy_app pf env cfg" "\<lambda>w. status_ready (fst w)"
  for pf :: "'a disk_scheme platform" and env cfg
  by (unfold_locales; cases "rc_backend cfg")
     (simp_all add: legacy_app_def new_runtime_app_def build_runtime_dependencies_def new_app_def legacy_dependencies_def
        Let_def keeps_fst on_machine_def set_ready_def split: prod.split, simp_all add: keeps_def)

section \<open>Properties of the whole\<close>

text \<open>C8: The runtime only ever persists and only ever brings up a usable device: its run does not depend on what
  saving a state, or configuring the network for a state, would do for a state that lacks credentials, the
  WireGuard protocol or the configured license.\<close>

theorem runtime_uses_usable_devices:
  assumes "\<And>c st. usable_state c st \<Longrightarrow> save st = on_machine (store_save (rc_state_dir cfg) st) \<and>
    up c st = on_world (network_apply (legacy_network (pf_runner pf) (rc_device_name cfg) (rc_mtu cfg)) c st)"
  shows "run ((legacy_app pf env cfg)\<lparr>save_state := save, net_apply := up\<rparr>) = run (legacy_app pf env cfg)"
proof (rule legacy_boot.run_uses_usable)
  show "same_on usable_state (legacy_app pf env cfg) ((legacy_app pf env cfg)\<lparr>save_state := save, net_apply := up\<rparr>)"
    unfolding same_on_def legacy_app_fields using assms by blast
qed (rule legacy_app_fields)

text \<open>C18: A runtime that has returned is not ready: starting with a new status, whatever the API, the disk, the
  commands, the proxy and the probes do, on success and on every error, the readiness flag is off when
  \<open>Run\<close> returns, so the health server answers 503.\<close>

theorem runtime_ends_not_ready:
  "resp_code (serve_health format_time (Some (fst (snd (run (legacy_app pf env cfg) (new_status t0 t1, m, w))))) ''/readyz'') = 503"
proof -
  obtain r w' where run: "run (legacy_app pf env cfg) (new_status t0 t1, m, w) = (r, w')"
    by (cases "run (legacy_app pf env cfg) (new_status t0 t1, m, w)")
  have "status_ready (fst w') = False"
    by (rule keepsD[OF legacy_ready.run_keeps_off _ run]) (simp add: new_status_def)
  then show ?thesis by (simp add: run serve_health_def handle_readyz_def plain_def)
qed

definition sample_platform :: "disk platform" where
  "sample_platform = \<lparr>pf_http = \<lparr>bad_url = \<lambda>_. None, http_do = \<lambda>_. fail (errorf ''offline'')\<rparr>,
     pf_entropy = \<lparr>generate_key = ret (''priv'', ''pub''), rand_read = ret (replicate 16 0), unix_nano = ret 0,
       now_rfc3339 = ret ''2024-01-01T00:00:00Z''\<rparr>,
     pf_runner = \<lambda>_ _. ret '''', pf_start = \<lambda>_ _. ret (), pf_stop = ret (), pf_wait = \<lambda>w. (Shutdown, w),
     pf_probe = \<lambda>_. \<lparr>probe_bad_url = \<lambda>_. None, probe_do = \<lambda>_ _. fail (errorf ''refused''), now = \<lambda>w. (0, w),
       pause = \<lambda>_ w. (None, w)\<rparr>, pf_rounds = 122, pf_log = \<lambda>_ w. w\<rparr>"

definition sample_runtime_config :: runtime_config where
  "sample_runtime_config = projr (load_runtime_config (\<lambda>_. Inr ''127.0.0.1:9090'') (Inr ''/app/warp-socksd'') (Some (\<lambda>_. '''')))"

lemma runtime_uses_usable_devices_witness:
  "run ((legacy_app sample_platform sample_env sample_runtime_config)\<lparr>
     save_state := \<lambda>st. if device_id st = '''' then fail (errorf ''never happens'')
       else on_machine (store_save (rc_state_dir sample_runtime_config) st),
     net_apply := \<lambda>c st. on_world (network_apply (legacy_network (pf_runner sample_platform)
       (rc_device_name sample_runtime_config) (rc_mtu sample_runtime_config)) c st)\<rparr>) =
   run (legacy_app sample_platform sample_env sample_runtime_config)"
  by (rule runtime_uses_usable_devices) (simp add: usable_state_def)

text \<open>C35: Only a failing exit of the proxy is an error: with everything else working, a runtime whose proxy process ends
  by itself reports an error exactly if waiting for the process gave one; a proxy that exits with status
  zero makes the runtime end as if it had been asked to, with success.\<close>

theorem proxy_exit_decides_result:
  assumes "unit_answer w = (\<lambda>_. Inr ())" "path_answer w = (\<lambda>_. Inr path)"
    and "wake_answer w = (\<lambda>_. ProxyExit (normalize_wait_error exit_error False))"
  shows "fst (run_started_runtime traced_app cfg st w) =
    (case exit_error of None \<Rightarrow> Inr ()
     | Some e \<Rightarrow> Inl (wrap ''proxy runtime exited unexpectedly'' (unexpected_exit e)))"
  using assms
  by (auto simp: run_started_runtime_def traced_ops andThen_def attempt_def wrapping_def await_end_def shut_down_def
      normalize_wait_error_def split: option.split)

lemma proxy_exit_decides_result_witness:
  fixes w defines "w \<equiv> sample_trace\<lparr>path_answer := \<lambda>_. Inr ''socks5.json'', wake_answer := \<lambda>_. ProxyExit (normalize_wait_error None False)\<rparr>"
  shows "fst (run_started_runtime traced_app (sample_config '''') empty_state w) = Inr ()"
proof -
  have "fst (run_started_runtime traced_app (sample_config '''') empty_state w) = (case None of None \<Rightarrow> Inr ()
     | Some e \<Rightarrow> Inl (wrap ''proxy runtime exited unexpectedly'' (unexpected_exit e)))"
    by (rule proxy_exit_decides_result[where path = "''socks5.json''"]) (simp_all add: w_def sample_trace_def)
  then show ?thesis by simp
qed

end
