(* ===== verification/Spec2Isabelle.thy ===== *)
theory Spec2Isabelle
  imports Socks5_Types Socks5_File Device_State App_Config Health Route_Manager Wg_Device Warp_Client Legacy_Backend Supervisor App_Run Prober Main_Config Main_Run Runtime
begin

text \<open>
  A verification development for \<open>cfwg\<close>, a SOCKS5 proxy in front of a Cloudflare WARP tunnel.

  \<^bold>\<open>The program.\<close> \<open>cmd/warp-socksd\<close> is one binary with three invocations. Without arguments it is the runtime:
  it reads its configuration from the environment, loads the persisted device (\<open>state.json\<close>), makes sure that
  there is a WARP device (refreshing, reusing or registering it with the API), saves it, brings up the
  WireGuard interface and the routes, writes the configuration file of the proxy, starts the proxy as a child
  process, probes the tunnel through it and then serves until it is told to stop or the proxy dies; a health
  server reports readiness. As \<open>serve-socks5\<close> it is that proxy; as \<open>healthcheck\<close> it asks the health server.

  \<^bold>\<open>How Go is modelled.\<close> A call that reads or writes outside state is an \<open>eff\<close> (\<open>Prelude\<close>), a function from a
  state to a result, \<open>go_error + 'a\<close>, and a state; an error keeps its wrapping text and its kind, for
  \<open>errors.Is\<close>. Strings are byte strings, bytes are 8-bit words, sizes and ports are \<open>int\<close>, with \<open>uint16\<close>
  written out as reduction modulo 65536. What can panic has a result of its own. Pointers that are shared are
  indices into a store. Loops are structural recursion, except retry loops, which are \<open>poll\<close> with fuel.
  Goroutines are interleaved steps of an inductive relation, each step up to the next point that another
  goroutine can observe or at which it blocks.

  \<^bold>\<open>Theories.\<close>

  \<^item> \<open>Prelude\<close>, \<open>GoStrings\<close>, \<open>GoNet\<close>, \<open>GoNet6\<close>, \<open>GoJson\<close>, \<open>GoOs\<close>: what the program uses of the language and its
    library (errors and effects; \<open>strings\<close>, \<open>strconv\<close>; \<open>net\<close>, \<open>netip\<close>; \<open>encoding/json\<close>; files). \<open>GoNet6\<close> proves
    that printing and parsing addresses are inverse, \<open>GoJson\<close> that marshalling and unmarshalling are, and has the
    locale \<open>json_codec\<close>, the contract of a type with a JSON form.
  \<^item> \<open>Socks5_Wire\<close> (\<open>internal/socks5/server.go\<close>): method negotiation, user name and password, requests, replies and
    UDP headers over a connection's bytes. \<open>Socks5_Client\<close> (\<open>internal/socks5/config.go\<close>): the upstream dialer.
  \<^item> \<open>Socks5_Assoc\<close>: the map of UDP associations (\<open>assoc_table\<close>), its invariant, the choice of an association for
    a packet's source, with the locale \<open>keyed_store\<close> for the laws of the map. \<open>Socks5_Server\<close>: \<open>Start\<close>, \<open>Close\<close>
    and the handlers of a connection and a packet, each on its own. \<open>Socks5_Relay\<close>: the two copying goroutines of
    a CONNECT session, with what the peers do as steps of their own. \<open>Socks5_Loops\<close>: the open sockets, the accept
    loop, the UDP loop and all handlers as one system (\<open>proxy_step\<close>); it refines an abstract association service
    (\<open>service_step\<close>), serves only authorised clients and takes nothing more after \<open>Close\<close>. \<open>Socks5_Types\<close>: the
    addresses the system stores are well formed.
  \<^item> \<open>Socks5_File\<close> (\<open>config.go\<close>) and \<open>Device_State\<close> (\<open>internal/state/state.go\<close>): the two JSON files; both instantiate
    \<open>json_codec\<close>; \<open>Save\<close> is atomic under every sequence of failing file calls.
  \<^item> \<open>App_Config\<close> (\<open>internal/config/config.go\<close>), \<open>Health\<close> (\<open>internal/runtime/status.go\<close>,
    \<open>internal/health/server.go\<close>): the environment, and the readiness flag with its three endpoints.
  \<^item> \<open>Sys_Runner\<close> (\<open>internal/system/runner.go\<close>), \<open>Route_Manager\<close> (\<open>internal/router/router.go\<close>), \<open>Wg_Device\<close>
    (\<open>internal/wgdev/device.go\<close>): commands, and the two managers that issue them; the lemmas say which commands
    are issued in which order on every path, and that \<open>Cleanup\<close> puts back the default routes that \<open>ip\<close> showed.
  \<^item> \<open>Warp_Client\<close> (\<open>internal/warpapi/client.go\<close>): the four calls of the API. \<open>Legacy_Device\<close> and \<open>Legacy_Backend\<close>
    (\<open>cmd/warp-socksd/legacy_backend.go\<close>): from an API answer to the persisted state; \<open>EnsureDevice\<close>; the network
    manager with its roll-back.
  \<^item> \<open>Supervisor\<close> (\<open>internal/process\<close>): \<open>Start\<close>, \<open>Stop\<close>, \<open>Done\<close> and the waiting goroutine over one mutex and the
    exit channels (\<open>sup_step\<close>): at most one proxy, refinement of a one-slot machine, progress of waiting calls,
    and the mutex that a failed exec leaves locked.
  \<^item> \<open>App_Run\<close> (\<open>internal/app/app.go\<close>): \<open>Run\<close> over any dependencies. \<open>run_trace\<close> is the protocol it is held to; the
    locales \<open>bootstrapper\<close> and \<open>readiness_flag\<close> are the contracts of two of its dependencies.
  \<^item> \<open>Prober\<close> (\<open>prober.go\<close>), \<open>Main_Config\<close> (\<open>main.go\<close>, \<open>runtime_backend.go\<close>), \<open>Main_Run\<close> (the goroutines of
    \<open>runWithEnv\<close>), \<open>Runtime\<close> (the wiring): the program put together. \<open>Runtime\<close> interprets the two locales of
    \<open>App_Run\<close> on the real bootstrapper and status and transfers their theorems to the runtime.

  \<^bold>\<open>What the theorems show.\<close> Refinement: \<open>Run\<close> follows its protocol, the supervisor refines a slot that holds at
  most one process, the running server refines an association service. Safety: no service without the configured
  credentials; only usable devices are persisted and brought up; the tunnel's endpoint is bypassed before the
  default route moves, and \<open>Cleanup\<close> restores the routes; the private key's file is removed; the client's
  tokens stay below its API path. Round trips: \<open>state.json\<close>, the proxy's configuration, the SOCKS5 session between
  the dialer and the server, UDP packets. Termination and liveness: the readiness wait and the probe end,
  in rounds and in time; the supervisor's waiting calls, \<open>runWithEnv\<close>, a relay whose handler has returned and the
  handlers whose connection \<open>Close\<close> closed can go on without anybody else. Whatever waits for a client or an
  upstream peer, like a running relay, has no such theorem: a silent peer holds it. Errors: each failing branch's
  effect, including those that leave something behind (the network after a failed start, the interface after a
  failed device setup, the locked mutex, the panic of the packet parser, a lost association).

  \<^bold>\<open>Bounds and fuel.\<close> \<open>wait_for_tcp_ready\<close> polls every 50 ms for 5 s: 102 rounds suffice
  (\<open>wait_for_tcp_ready_ends\<close>). \<open>prober_check\<close> polls for its window in steps of its interval: window divided by
  interval plus two rounds suffice (\<open>prober_check_ends\<close>), 122 with the defaults; the same theorem bounds its time on
  a clock with a given request timeout. No other definition has fuel.

  \<^bold>\<open>Parameters.\<close> The operating system and the network enter as arguments: sockets and name resolution
  (\<open>listen_env\<close>, \<open>udp_env\<close>, the dial function; which sockets are open is part of the model in \<open>Socks5_Loops\<close>), the
  execution of commands (\<open>exec_run\<close>; what \<open>ip\<close> does to the tables is stated as hypotheses), HTTP (\<open>http_env\<close>), key
  generation, random bytes and the clock (\<open>entropy\<close>), processes and signals, URL parsing, the JSON form of a time.
  File calls are modelled on a disk with a schedule of faults.

  \<^bold>\<open>Not modelled.\<close> The settings of HTTP and TLS transports, \<open>newHTTPProxyClient\<close> and the other unused helpers,
  log output of the proxy, the text of usage errors of the standard library, deadlines of sockets (a timeout is a
  failing call), and the memory model: a step of a goroutine is atomic (a handler that has what its client sends
  up to the request reads it and dials in one step; a relay's reads and writes are steps of their own), so the unsynchronised read of an
  association's client address while another packet's goroutine rewrites it shows up as a choice of order only.
\<close>

end
